(* ===== verification/Vgw_Prelude.thy ===== *)
theory Vgw_Prelude
  imports Main "HOL-Library.Word" "HOL-Library.Monad_Syntax"
begin

text \<open>
  Shared vocabulary of the development: the machine integer types, checked
  little-endian memory access, byte-order conversion, the undefined-behaviour
  monad, labelled histories of a step relation, the contracts of an invariant
  and of a simulation, and generic lemmas on lists, options and words.

  A C++ function that dereferences memory is modelled in the \<open>option\<close> monad:
  \<open>None\<close> is undefined behaviour (an access outside the object, a dangling
  pointer), and a theorem that the function returns \<open>Some\<close> is a memory-safety
  theorem. The code is compiled for x86 (the top-level CMakeLists.txt passes
  \<open>-mssse3\<close>), so multi-byte loads are little-endian and the conversions between
  network and host byte order swap bytes.
\<close>

unbundle bit_operations_syntax

section \<open>Machine integers\<close>

type_synonym u8 = "8 word"
type_synonym u16 = "16 word"
type_synonym u32 = "32 word"
type_synonym u64 = "64 word"
type_synonym bytes = "u8 list"

named_theorems mem_simps "loads after stores and the bounds of checked memory access"
named_theorems eval_simps "equations that evaluate operations on concrete frames"
named_theorems ub_free "conditions under which an operation has defined behaviour"

lemma unat_u16_less: "unat (w :: u16) < 65536"
  by (rule order_less_le_trans [OF unsigned_less]) simp

lemma unat_u8_less: "unat (w :: u8) < 256"
  by (rule order_less_le_trans [OF unsigned_less]) simp

text \<open>A conversion to a type that can hold the value keeps it.\<close>

lemma unat_ucast_fits:
  "unat (w :: 'a::len word) < 2 ^ LENGTH('b) \<Longrightarrow> unat (ucast w :: 'b::len word) = unat w"
  by (simp add: unsigned_ucast_eq unsigned_take_bit_eq take_bit_nat_eq_self)

lemma unat_ucast_byte [simp]: "unat (ucast (w :: u8) :: u32) = unat w"
  by (rule unat_ucast_fits) (rule less_trans [OF unat_u8_less], simp)

section \<open>Little-endian composition of words\<close>

definition le16 :: "u8 \<Rightarrow> u8 \<Rightarrow> u16" where
  "le16 b0 b1 = ucast b0 OR push_bit 8 (ucast b1)"

definition byte16 :: "nat \<Rightarrow> u16 \<Rightarrow> u8" where
  "byte16 i w = ucast (drop_bit (8 * i) w)"

definition le32 :: "u8 \<Rightarrow> u8 \<Rightarrow> u8 \<Rightarrow> u8 \<Rightarrow> u32" where
  "le32 b0 b1 b2 b3 =
     ucast b0 OR push_bit 8 (ucast b1) OR push_bit 16 (ucast b2) OR push_bit 24 (ucast b3)"

definition byte32 :: "nat \<Rightarrow> u32 \<Rightarrow> u8" where
  "byte32 i w = ucast (drop_bit (8 * i) w)"

lemmas word_bit_simps = bit_or_iff bit_and_iff bit_push_bit_iff bit_drop_bit_eq bit_ucast_iff

lemma le16_byte16 [simp]: "le16 (byte16 0 w) (byte16 1 w) = w"
  by (rule bit_word_eqI) (auto simp: le16_def byte16_def word_bit_simps)

lemma byte16_le16 [simp]: "byte16 0 (le16 a b) = a" "byte16 1 (le16 a b) = b"
  by (rule bit_word_eqI; auto simp: le16_def byte16_def word_bit_simps dest: bit_imp_le_length)+

lemma le16_eq_iff [simp]: "le16 a b = le16 c d \<longleftrightarrow> a = c \<and> b = d"
  by (metis byte16_le16)

lemma le32_byte32 [simp]:
  "le32 (byte32 0 w) (byte32 1 w) (byte32 2 w) (byte32 3 w) = w"
proof (rule bit_word_eqI)
  fix n assume n: "n < LENGTH(32)"
  then consider "n < 8" | "8 \<le> n" "n < 16" | "16 \<le> n" "n < 24" | "24 \<le> n" "n < 32"
    by fastforce
  then show "bit (le32 (byte32 0 w) (byte32 1 w) (byte32 2 w) (byte32 3 w)) n = bit w n"
    by cases (auto simp: le32_def byte32_def word_bit_simps)
qed

lemma byte32_le32 [simp]:
  "byte32 0 (le32 a b c d) = a" "byte32 1 (le32 a b c d) = b"
  "byte32 2 (le32 a b c d) = c" "byte32 3 (le32 a b c d) = d"
  by (rule bit_word_eqI; auto simp: le32_def byte32_def word_bit_simps dest: bit_imp_le_length)+

lemma le32_eq_iff [simp]:
  "le32 a b c d = le32 a' b' c' d' \<longleftrightarrow> a = a' \<and> b = b' \<and> c = c' \<and> d = d'"
  by (metis byte32_le32)

lemmas le_word_Suc_0 [simp] =
  le16_byte16 [unfolded One_nat_def] byte16_le16 [unfolded One_nat_def]
  le32_byte32 [unfolded One_nat_def] byte32_le32 [unfolded One_nat_def]

section \<open>Byte order\<close>

definition bswap16 :: "u16 \<Rightarrow> u16" where
  "bswap16 w = le16 (byte16 1 w) (byte16 0 w)"

definition bswap32 :: "u32 \<Rightarrow> u32" where
  "bswap32 w = le32 (byte32 3 w) (byte32 2 w) (byte32 1 w) (byte32 0 w)"

abbreviation (input) rte_be_to_cpu_16 :: "u16 \<Rightarrow> u16" where
  "rte_be_to_cpu_16 \<equiv> bswap16"

abbreviation (input) rte_cpu_to_be_16 :: "u16 \<Rightarrow> u16" where
  "rte_cpu_to_be_16 \<equiv> bswap16"

abbreviation (input) rte_be_to_cpu_32 :: "u32 \<Rightarrow> u32" where
  "rte_be_to_cpu_32 \<equiv> bswap32"

abbreviation (input) rte_cpu_to_be_32 :: "u32 \<Rightarrow> u32" where
  "rte_cpu_to_be_32 \<equiv> bswap32"

lemma bswap_bswap [simp]: "bswap16 (bswap16 w) = w" "bswap32 (bswap32 v) = v"
  by (simp_all add: bswap16_def bswap32_def)

lemma bswap_eq_iff [simp]:
  "bswap16 a = bswap16 b \<longleftrightarrow> a = b" "bswap32 c = bswap32 d \<longleftrightarrow> c = d"
  by (metis bswap_bswap(1), metis bswap_bswap(2))

text \<open>The most significant byte of an address in host order is its first byte on the wire.\<close>

lemma first_octet_bswap32:
  "(drop_bit 24 (bswap32 (le32 a b c d)) AND 0xff :: u32) = ucast a"
proof -
  have ff: "(0xff :: u32) = mask 8"
    by (simp add: mask_eq_exp_minus_1)
  have "bswap32 (le32 a b c d) = le32 d c b a"
    by (simp add: bswap32_def)
  then show ?thesis
    unfolding ff
    by (intro bit_word_eqI)
       (auto simp: le32_def word_bit_simps bit_mask_iff dest: bit_imp_le_length)
qed

section \<open>Checked memory access\<close>

text \<open>
  \<open>put b i xs\<close> overwrites the bytes of \<open>b\<close> from offset \<open>i\<close>; the loads and
  stores below are guarded by the bounds of the object.
\<close>

definition put :: "bytes \<Rightarrow> nat \<Rightarrow> bytes \<Rightarrow> bytes" where
  "put b i xs = take i b @ xs @ drop (i + length xs) b"

lemma length_put [simp]: "i + length xs \<le> length b \<Longrightarrow> length (put b i xs) = length b"
  by (simp add: put_def)

lemma nth_put:
  assumes "i + length xs \<le> length b" and "j < length b"
  shows "put b i xs ! j = (if i \<le> j \<and> j < i + length xs then xs ! (j - i) else b ! j)"
  using assms by (auto simp: put_def nth_append)

lemma nth_put_other [mem_simps]:
  "i + length xs \<le> length b \<Longrightarrow> j < length b \<Longrightarrow> j < i \<or> i + length xs \<le> j \<Longrightarrow> put b i xs ! j = b ! j"
  by (auto simp: nth_put)

definition ld8 :: "bytes \<Rightarrow> nat \<Rightarrow> u8 option" where
  "ld8 b i = (if i < length b then Some (b ! i) else None)"

definition ld16 :: "bytes \<Rightarrow> nat \<Rightarrow> u16 option" where
  "ld16 b i = (if i + 2 \<le> length b then Some (le16 (b ! i) (b ! (i + 1))) else None)"

definition ld32 :: "bytes \<Rightarrow> nat \<Rightarrow> u32 option" where
  "ld32 b i = (if i + 4 \<le> length b
     then Some (le32 (b ! i) (b ! (i + 1)) (b ! (i + 2)) (b ! (i + 3))) else None)"

definition enc16 :: "u16 \<Rightarrow> bytes" where
  "enc16 w = [byte16 0 w, byte16 1 w]"

definition enc32 :: "u32 \<Rightarrow> bytes" where
  "enc32 w = [byte32 0 w, byte32 1 w, byte32 2 w, byte32 3 w]"

lemma length_enc [simp]: "length (enc16 w) = 2" "length (enc32 v) = 4"
  by (simp_all add: enc16_def enc32_def)

definition st_bytes :: "bytes \<Rightarrow> nat \<Rightarrow> bytes \<Rightarrow> bytes option" where
  "st_bytes b i xs = (if i + length xs \<le> length b then Some (put b i xs) else None)"

definition st8 :: "bytes \<Rightarrow> nat \<Rightarrow> u8 \<Rightarrow> bytes option" where
  "st8 b i w = st_bytes b i [w]"

definition st16 :: "bytes \<Rightarrow> nat \<Rightarrow> u16 \<Rightarrow> bytes option" where
  "st16 b i w = st_bytes b i (enc16 w)"

definition st32 :: "bytes \<Rightarrow> nat \<Rightarrow> u32 \<Rightarrow> bytes option" where
  "st32 b i w = st_bytes b i (enc32 w)"

lemma ld_in_bounds [ub_free]:
  "i < length b \<Longrightarrow> ld8 b i = Some (b ! i)"
  "i + 2 \<le> length b \<Longrightarrow> ld16 b i = Some (le16 (b ! i) (b ! (i + 1)))"
  "i + 4 \<le> length b \<Longrightarrow>
     ld32 b i = Some (le32 (b ! i) (b ! (i + 1)) (b ! (i + 2)) (b ! (i + 3)))"
  by (simp_all add: ld8_def ld16_def ld32_def)

lemma st_in_bounds [ub_free]:
  "i + length xs \<le> length b \<Longrightarrow> st_bytes b i xs = Some (put b i xs)"
  "i + 1 \<le> length b \<Longrightarrow> st8 b i w8 = Some (put b i [w8])"
  "i + 2 \<le> length b \<Longrightarrow> st16 b i w16 = Some (put b i (enc16 w16))"
  "i + 4 \<le> length b \<Longrightarrow> st32 b i w32 = Some (put b i (enc32 w32))"
  by (simp_all add: st_bytes_def st8_def st16_def st32_def)

lemmas [eval_simps] = ld8_def ld16_def ld32_def st8_def st16_def st32_def st_bytes_def put_def
  enc16_def enc32_def le16_def le32_def byte16_def byte32_def bswap16_def bswap32_def

text \<open>Reading a range of bytes.\<close>

definition ld_bytes :: "bytes \<Rightarrow> nat \<Rightarrow> nat \<Rightarrow> bytes option" where
  "ld_bytes b i n = (if i + n \<le> length b then Some (take n (drop i b)) else None)"

lemma ld_bytes_in_bounds [ub_free]: "i + n \<le> length b \<Longrightarrow> ld_bytes b i n = Some (take n (drop i b))"
  by (simp add: ld_bytes_def)

lemma ld_bytes_cong:
  assumes "length b' = length b" "\<And>j. i \<le> j \<Longrightarrow> j < i + n \<Longrightarrow> j < length b \<Longrightarrow> b' ! j = b ! j"
  shows "ld_bytes b' i n = ld_bytes b i n"
  using assms by (auto simp: ld_bytes_def intro!: nth_equalityI)

text \<open>A load sees exactly the last store to its bytes, and no other store.\<close>

lemma ld_put_same [mem_simps]:
  "i < length b \<Longrightarrow> ld8 (put b i [w8]) i = Some w8"
  "i + 2 \<le> length b \<Longrightarrow> ld16 (put b i (enc16 w16)) i = Some w16"
  "i + 4 \<le> length b \<Longrightarrow> ld32 (put b i (enc32 w32)) i = Some w32"
  by (simp_all add: ld8_def ld16_def ld32_def nth_put)
     (simp_all add: enc16_def enc32_def)

lemma ld8_put_other [mem_simps]:
  "i + length xs \<le> length b \<Longrightarrow> j + 1 \<le> i \<or> i + length xs \<le> j \<Longrightarrow>
     ld8 (put b i xs) j = ld8 b j"
  by (auto simp: ld8_def nth_put)

lemma ld16_put_other [mem_simps]:
  "i + length xs \<le> length b \<Longrightarrow> j + 2 \<le> i \<or> i + length xs \<le> j \<Longrightarrow>
     ld16 (put b i xs) j = ld16 b j"
  by (auto simp: ld16_def nth_put)

lemma ld32_put_other [mem_simps]:
  "i + length xs \<le> length b \<Longrightarrow> j + 4 \<le> i \<or> i + length xs \<le> j \<Longrightarrow>
     ld32 (put b i xs) j = ld32 b j"
  by (auto simp: ld32_def nth_put)

text \<open>Writing back the bytes that are already there changes nothing.\<close>

lemma put_id: "i + length xs \<le> length b \<Longrightarrow> take (length xs) (drop i b) = xs \<Longrightarrow> put b i xs = b"
  by (metis append_take_drop_id drop_drop add.commute put_def)

lemma put_put_same: "length ys = length xs \<Longrightarrow> i + length xs \<le> length b \<Longrightarrow>
   put (put b i xs) i ys = put b i ys"
  by (simp add: put_def)

text \<open>A field that is overwritten and then restored leaves the memory as it was.\<close>

lemma take_drop_2: "i + 2 \<le> length b \<Longrightarrow> take (Suc (Suc 0)) (drop i b) = [b ! i, b ! Suc i]"
  by (simp add: Suc_le_lessD take_Suc_conv_app_nth)

lemma enc16_le16 [simp]: "enc16 (le16 a b) = [a, b]"
  by (simp add: enc16_def)

lemma restore16 [mem_simps]:
  assumes "ld16 b i = Some c"
  shows "put (put b i (enc16 x)) i (enc16 c) = b"
proof -
  from assms have "i + 2 \<le> length b" and "c = le16 (b ! i) (b ! (i + 1))"
    by (auto simp: ld16_def split: if_splits)
  then have "put b i (enc16 c) = b"
    using take_drop_2 [of i b] by (intro put_id) auto
  with \<open>i + 2 \<le> length b\<close> show ?thesis
    by (simp add: put_put_same)
qed

section \<open>Invariants of transition systems\<close>

text \<open>
  The contract shared by every stateful component: a step relation and a predicate that each
  step keeps. What holds at the start then holds after any number of steps.
\<close>

locale kept_invariant =
  fixes step :: "'s \<Rightarrow> 's \<Rightarrow> bool" and inv :: "'s \<Rightarrow> bool"
  assumes step_keeps: "inv s \<Longrightarrow> step s s' \<Longrightarrow> inv s'"
begin

lemma run_keeps: "step\<^sup>*\<^sup>* s s' \<Longrightarrow> inv s \<Longrightarrow> inv s'"
  by (induction rule: rtranclp_induct) (auto intro: step_keeps)

end

text \<open>
  Histories: runs of a labelled step relation together with the list of their labels. The label
  of a step says what was done, so a history says more than that its last state can be reached.
\<close>

inductive history :: "('s \<Rightarrow> 'l \<Rightarrow> 's \<Rightarrow> bool) \<Rightarrow> 's \<Rightarrow> 'l list \<Rightarrow> 's \<Rightarrow> bool"
  for step :: "'s \<Rightarrow> 'l \<Rightarrow> 's \<Rightarrow> bool" where
  nil: "history step s [] s"
| cons: "step s l s1 \<Longrightarrow> history step s1 ls s' \<Longrightarrow> history step s (l # ls) s'"

inductive_simps history_nil [simp]: "history step s [] s'"
inductive_simps history_cons: "history step s (l # ls) s'"

lemma history_one [simp]: "history step s [l] s' \<longleftrightarrow> step s l s'"
  by (simp add: history_cons)

lemma history_append: "history step s ls s1 \<Longrightarrow> history step s1 ls' s' \<Longrightarrow> history step s (ls @ ls') s'"
  by (induction rule: history.induct) (simp_all add: history_cons, blast)

text \<open>
  The contract of a refinement: seen through an abstraction, each step from a state of the
  invariant is a history of the specification whose events \<open>shows\<close> allows for the label of the
  step. Then each run is a history of the specification, with events for each of its steps in
  order.
\<close>

locale simulation = kept_invariant "\<lambda>s s'. \<exists>l. step s l s'" inv
  for step :: "'s \<Rightarrow> 'l \<Rightarrow> 's \<Rightarrow> bool" and inv :: "'s \<Rightarrow> bool" +
  fixes abs :: "'s \<Rightarrow> 'a" and spec :: "'a \<Rightarrow> 'e \<Rightarrow> 'a \<Rightarrow> bool" and shows_as :: "'l \<Rightarrow> 'e list \<Rightarrow> bool"
  assumes simulated: "inv s \<Longrightarrow> step s l s' \<Longrightarrow> \<exists>es. shows_as l es \<and> history spec (abs s) es (abs s')"
begin

lemma run_simulated:
  "history step s ls s' \<Longrightarrow> inv s \<Longrightarrow>
     inv s' \<and> (\<exists>ess. list_all2 shows_as ls ess \<and> history spec (abs s) (concat ess) (abs s'))"
proof (induction rule: history.induct)
  case (nil s)
  then show ?case by (auto intro: exI [of _ "[]"])
next
  case (cons s l s1 ls s')
  have "inv s1" using step_keeps cons.hyps(1) cons.prems by blast
  then obtain ess where "inv s'" "list_all2 shows_as ls ess" "history spec (abs s1) (concat ess) (abs s')"
    using cons.IH by blast
  moreover obtain es where "shows_as l es" "history spec (abs s) es (abs s1)"
    using simulated [OF cons.prems cons.hyps(1)] by blast
  ultimately show ?case
    by (intro conjI exI [of _ "es # ess"]) (simp_all add: history_append)
qed

end

section \<open>Options, lists and maps\<close>

lemma map_eqI:
  assumes "\<And>k v. f k = Some v \<longleftrightarrow> g k = Some v"
  shows "f = g"
proof
  fix k show "f k = g k"
    using assms [of k "the (f k)"] assms [of k "the (g k)"] by (metis option.exhaust_sel)
qed

lemma ex_map_upd:
  "(\<exists>x y. (m(a \<mapsto> b)) x = Some y \<and> P y) \<longleftrightarrow> P b \<or> (\<exists>x y. x \<noteq> a \<and> m x = Some y \<and> P y)"
  by (metis fun_upd_apply option.inject)

lemma ex_map_del:
  "(\<exists>x y. (m(a := None)) x = Some y \<and> P y) \<longleftrightarrow> (\<exists>x y. x \<noteq> a \<and> m x = Some y \<and> P y)"
  by (metis fun_upd_apply option.distinct(1))

lemma remove1_nth:
  assumes "distinct xs" and "i < length xs"
  shows "remove1 (xs ! i) xs = take i xs @ drop (Suc i) xs"
proof -
  have split: "xs = take i xs @ xs ! i # drop (Suc i) xs"
    using assms(2) by (rule id_take_nth_drop)
  moreover have "xs ! i \<notin> set (take i xs)"
    using assms split by (metis distinct.simps(2) distinct_append disjoint_iff list.set_intros(1))
  ultimately show ?thesis
    by (metis remove1.simps(2) remove1_append)
qed

end
