(* ===== verification/Dpdk_Types.thy ===== *)
theory Dpdk_Types
  imports Vgw_Prelude
begin

text \<open>
  The DPDK data the gateway works on: Ethernet addresses, message buffers and the wire
  layout of the Ethernet, ARP, IPv4 and UDP headers. The header structs of DPDK are packed
  images of the wire formats, so a field is a load at its offset in the frame; the offsets
  and protocol numbers are those of the public headers \<open>rte_ether.h\<close>, \<open>rte_arp.h\<close>,
  \<open>rte_ip.h\<close> and \<open>rte_udp.h\<close>. The checksum routines are parameters, as functions of the bytes
  they read; a call makes these reads on the buffer and is undefined when they leave it.
\<close>

section \<open>Ethernet addresses\<close>

datatype rte_ether_addr = MAC u8 u8 u8 u8 u8 u8

fun addr_bytes :: "rte_ether_addr \<Rightarrow> bytes" where
  "addr_bytes (MAC a b c d e f) = [a, b, c, d, e, f]"

lemma length_addr_bytes [simp]: "length (addr_bytes m) = 6"
  by (cases m) simp

lemma addr_bytes_inject [simp]: "addr_bytes m = addr_bytes m' \<longleftrightarrow> m = m'"
  by (cases m; cases m') simp

definition ld_mac :: "bytes \<Rightarrow> nat \<Rightarrow> rte_ether_addr option" where
  "ld_mac b i = (if i + 6 \<le> length b
     then Some (MAC (b ! i) (b ! (i + 1)) (b ! (i + 2)) (b ! (i + 3)) (b ! (i + 4)) (b ! (i + 5)))
     else None)"

definition st_mac :: "bytes \<Rightarrow> nat \<Rightarrow> rte_ether_addr \<Rightarrow> bytes option" where
  "st_mac b i m = st_bytes b i (addr_bytes m)"

lemma ld_mac_in_bounds [ub_free]:
  "i + 6 \<le> length b \<Longrightarrow> ld_mac b i =
     Some (MAC (b ! i) (b ! (i + 1)) (b ! (i + 2)) (b ! (i + 3)) (b ! (i + 4)) (b ! (i + 5)))"
  by (simp add: ld_mac_def)

lemma st_mac_in_bounds [ub_free]:
  "i + 6 \<le> length b \<Longrightarrow> st_mac b i m = Some (put b i (addr_bytes m))"
  by (simp add: st_mac_def st_bytes_def)

lemma ld_mac_put_same [mem_simps]:
  "i + 6 \<le> length b \<Longrightarrow> ld_mac (put b i (addr_bytes m)) i = Some m"
  by (cases m) (simp add: ld_mac_def nth_put)

lemma ld_mac_put_other [mem_simps]:
  "i + length xs \<le> length b \<Longrightarrow> j + 6 \<le> i \<or> i + length xs \<le> j \<Longrightarrow>
     ld_mac (put b i xs) j = ld_mac b j"
  by (auto simp: ld_mac_def nth_put)

lemmas [eval_simps] = ld_mac_def st_mac_def

section \<open>Message buffers\<close>

text \<open>
  \<open>mb_addr\<close> is the identity of the buffer (its address), which the ownership theorems count;
  \<open>mb_buf\<close> is the data room from the data pointer to its end. All buffers are single-segment.
\<close>

record rte_mbuf =
  mb_addr :: nat
  mb_buf :: bytes
  mb_data_len :: u16
  mb_pkt_len :: u32

definition mbuf_ok :: "rte_mbuf \<Rightarrow> bool" where
  "mbuf_ok m \<longleftrightarrow> unat (mb_data_len m) \<le> length (mb_buf m)"

text \<open>A buffer that holds exactly the given bytes.\<close>

definition frame_mbuf :: "nat \<Rightarrow> bytes \<Rightarrow> rte_mbuf" where
  "frame_mbuf a b = \<lparr>mb_addr = a, mb_buf = b, mb_data_len = word_of_nat (length b),
     mb_pkt_len = word_of_nat (length b)\<rparr>"

lemma frame_mbuf_ok: "length b < 65536 \<Longrightarrow> mbuf_ok (frame_mbuf a b)"
  by (simp add: mbuf_ok_def frame_mbuf_def unat_of_nat)

section \<open>Wire layout\<close>

abbreviation (input) "ETH_HDR_LEN \<equiv> (14::nat)"
abbreviation (input) "IPV4_HDR_LEN \<equiv> (20::nat)"
abbreviation (input) "UDP_HDR_LEN \<equiv> (8::nat)"
abbreviation (input) "ARP_HDR_LEN \<equiv> (28::nat)"

abbreviation (input) "eth_dst_addr \<equiv> (0::nat)"
abbreviation (input) "eth_src_addr \<equiv> (6::nat)"
abbreviation (input) "eth_ether_type \<equiv> (12::nat)"

abbreviation (input) "ip_version_ihl \<equiv> (0::nat)"
abbreviation (input) "ip_total_length \<equiv> (2::nat)"
abbreviation (input) "ip_packet_id \<equiv> (4::nat)"
abbreviation (input) "ip_fragment_offset \<equiv> (6::nat)"
abbreviation (input) "ip_time_to_live \<equiv> (8::nat)"
abbreviation (input) "ip_next_proto_id \<equiv> (9::nat)"
abbreviation (input) "ip_hdr_checksum \<equiv> (10::nat)"
abbreviation (input) "ip_src_addr \<equiv> (12::nat)"
abbreviation (input) "ip_dst_addr \<equiv> (16::nat)"

abbreviation (input) "udp_src_port \<equiv> (0::nat)"
abbreviation (input) "udp_dst_port \<equiv> (2::nat)"
abbreviation (input) "udp_dgram_len \<equiv> (4::nat)"
abbreviation (input) "udp_dgram_cksum \<equiv> (6::nat)"

abbreviation (input) "arp_hardware \<equiv> (0::nat)"
abbreviation (input) "arp_protocol \<equiv> (2::nat)"
abbreviation (input) "arp_hlen \<equiv> (4::nat)"
abbreviation (input) "arp_plen \<equiv> (5::nat)"
abbreviation (input) "arp_opcode \<equiv> (6::nat)"
abbreviation (input) "arp_sha \<equiv> (8::nat)"
abbreviation (input) "arp_sip \<equiv> (14::nat)"
abbreviation (input) "arp_tha \<equiv> (18::nat)"
abbreviation (input) "arp_tip \<equiv> (24::nat)"

abbreviation (input) "RTE_ETHER_TYPE_IPV4 \<equiv> (0x0800::u16)"
abbreviation (input) "RTE_ETHER_TYPE_ARP \<equiv> (0x0806::u16)"
abbreviation (input) "RTE_ARP_HRD_ETHER \<equiv> (1::u16)"
abbreviation (input) "RTE_ARP_OP_REQUEST \<equiv> (1::u16)"
abbreviation (input) "RTE_ARP_OP_REPLY \<equiv> (2::u16)"
abbreviation (input) "RTE_ETHER_ADDR_LEN \<equiv> (6::u8)"
abbreviation (input) "RTE_IPV4_HDR_MF_FLAG \<equiv> (0x2000::u16)"
abbreviation (input) "RTE_IPV4_HDR_OFFSET_MASK \<equiv> (0x1fff::u16)"
abbreviation (input) "IPPROTO_UDP \<equiv> (17::u8)"

text \<open>\<open>RTE_IPV4\<close> composes an address in host order from its four octets.\<close>

definition RTE_IPV4 :: "u8 \<Rightarrow> u8 \<Rightarrow> u8 \<Rightarrow> u8 \<Rightarrow> u32" where
  "RTE_IPV4 a b c d = le32 d c b a"

lemma cpu_to_be_RTE_IPV4 [simp]: "rte_cpu_to_be_32 (RTE_IPV4 a b c d) = le32 a b c d"
  by (simp add: RTE_IPV4_def bswap32_def)

section \<open>Checksum routines\<close>

text \<open>
  The checksum routines of DPDK are not part of the repository: they are parameters of the
  model, functions of the bytes they read. What they read is documented and is part of the
  model, because the code passes pointers only: \<open>rte_ipv4_cksum\<close> reads the header, whose length
  is in its first byte; \<open>rte_ipv4_udptcp_cksum\<close> reads the header and, from the layer-4 pointer on,
  as many bytes as the field \<open>total_length\<close> of the header says beyond the header. A call that
  reads outside the buffer is \<open>None\<close>.
\<close>

record cksum_fns =
  rte_ipv4_cksum :: "bytes \<Rightarrow> u16"
  rte_ipv4_udptcp_cksum :: "bytes \<Rightarrow> bytes \<Rightarrow> u16"

definition ip_hdr_len :: "bytes \<Rightarrow> nat \<Rightarrow> nat option" where
  "ip_hdr_len b ip = map_option (\<lambda>vihl. unat (vihl AND 0x0f) * 4) (ld8 b (ip + ip_version_ihl))"

definition call_ipv4_cksum :: "cksum_fns \<Rightarrow> bytes \<Rightarrow> nat \<Rightarrow> u16 option" where
  "call_ipv4_cksum ck b ip = do {
     n \<leftarrow> ip_hdr_len b ip;
     hdr \<leftarrow> ld_bytes b ip n;
     Some (rte_ipv4_cksum ck hdr)
   }"

definition call_udptcp_cksum :: "cksum_fns \<Rightarrow> bytes \<Rightarrow> nat \<Rightarrow> nat \<Rightarrow> u16 option" where
  "call_udptcp_cksum ck b ip l4 = do {
     n \<leftarrow> ip_hdr_len b ip;
     hdr \<leftarrow> ld_bytes b ip n;
     total_be \<leftarrow> ld16 b (ip + ip_total_length);
     datagram \<leftarrow> ld_bytes b l4 (unat (rte_be_to_cpu_16 total_be) - n);
     Some (rte_ipv4_udptcp_cksum ck hdr datagram)
   }"

text \<open>The calls depend only on the bytes they read.\<close>

lemma call_ipv4_cksum_cong:
  assumes "length b' = length b" "ip_hdr_len b ip = Some n" "0 < n" "\<And>i. ip \<le> i \<Longrightarrow> i < ip + n \<Longrightarrow> i < length b \<Longrightarrow> b' ! i = b ! i"
  shows "call_ipv4_cksum ck b' ip = call_ipv4_cksum ck b ip"
proof -
  have "ip_hdr_len b' ip = ip_hdr_len b ip"
    using assms(1,3) assms(4) [of ip] by (simp add: ip_hdr_len_def ld8_def)
  moreover have "ld_bytes b' ip n = ld_bytes b ip n"
    using assms(1,4) by (intro ld_bytes_cong) auto
  ultimately show ?thesis using assms(2) by (simp add: call_ipv4_cksum_def)
qed

lemma call_udptcp_cksum_cong:
  assumes "length b' = length b" "ip_hdr_len b ip = Some n" "\<And>i. ip \<le> i \<Longrightarrow> i < length b \<Longrightarrow> b' ! i = b ! i" "ip \<le> l4"
  shows "call_udptcp_cksum ck b' ip l4 = call_udptcp_cksum ck b ip l4"
proof -
  have "ip_hdr_len b' ip = ip_hdr_len b ip" "ld16 b' (ip + 2) = ld16 b (ip + 2)"
    using assms(1,3) by (simp_all add: ip_hdr_len_def ld8_def ld16_def)
  moreover have "ld_bytes b' i k = ld_bytes b i k" if "ip \<le> i" for i k
    using assms(1,3) that by (intro ld_bytes_cong) auto
  ultimately show ?thesis using assms(2,4) by (simp add: call_udptcp_cksum_def)
qed

end
