(* ===== verification/Config.thy ===== *)
theory Config
  imports Dpdk_Types
begin

text \<open>
  The compile-time configuration of \<open>src/src/config.hpp\<close>: the virtual address, the gateway's
  own addresses, the initial upstream and the periods of the housekeeping tasks.
\<close>

definition VIP_IP_OCTETS :: "u8 list" where "VIP_IP_OCTETS = [192, 168, 1, 100]"
definition VIP_PORT :: u16 where "VIP_PORT = 53"
definition GATEWAY_IP_OCTETS :: "u8 list" where "GATEWAY_IP_OCTETS = [192, 168, 1, 10]"
definition GATEWAY_MAC :: "u8 list" where "GATEWAY_MAC = [0x02, 0, 0, 0, 0, 0x01]"
definition UPSTREAM_NH_MAC :: "u8 list" where "UPSTREAM_NH_MAC = [0x02, 0, 0, 0, 0, 0x03]"
definition CLIENT_NH_MAC :: "u8 list" where "CLIENT_NH_MAC = [0x02, 0, 0, 0, 0, 0x03]"
definition UPSTREAM0_IP_OCTETS :: "u8 list" where "UPSTREAM0_IP_OCTETS = [10, 0, 0, 1]"
definition UPSTREAM0_PORT :: u16 where "UPSTREAM0_PORT = 53"
definition SESSION_IDLE_TIMEOUT_MS :: u64 where "SESSION_IDLE_TIMEOUT_MS = 60000"
definition SESSION_EXPIRE_INTERVAL_MS :: u64 where "SESSION_EXPIRE_INTERVAL_MS = 1000"
definition BALANCE_POLICY :: u8 where "BALANCE_POLICY = 0"
definition CP_SHM_NAME :: string where "CP_SHM_NAME = ''/vgw_cp''"
definition CP_POLL_INTERVAL_MS :: u64 where "CP_POLL_INTERVAL_MS = 1000"
definition ARP_ENTRY_TIMEOUT_MS :: u64 where "ARP_ENTRY_TIMEOUT_MS = 300000"
definition ARP_EXPIRE_INTERVAL_MS :: u64 where "ARP_EXPIRE_INTERVAL_MS = 60000"
definition ARP_PROBE_INTERVAL_MS :: u64 where "ARP_PROBE_INTERVAL_MS = 1000"
definition ARP_PENDING_TIMEOUT_MS :: u64 where "ARP_PENDING_TIMEOUT_MS = 5000"
definition ARP_PENDING_MAX_PER_IP :: nat where "ARP_PENDING_MAX_PER_IP = 64"

end
