(* ===== verification/Session.thy ===== *)
theory Session
  imports Vgw_Prelude
begin

text \<open>
  The bidirectional session table with its SNAT port pool, \<open>src/src/session.hpp\<close> and
  \<open>session.cpp\<close>. Sessions live on an explicit heap: \<open>sessions_\<close>, \<open>forward_\<close> and
  \<open>reverse_\<close> hold pointers into it, as in the code, and a dereference of a pointer that is
  not allocated is undefined behaviour (\<open>None\<close>). \<open>new\<close> returns an address that was never
  used before.
\<close>

section \<open>State\<close>

record FlowKey =
  fk_src_ip :: u32
  fk_dst_ip :: u32
  fk_src_port :: u16
  fk_dst_port :: u16
  fk_proto :: u8

definition flow_key_hash_step :: "u64 \<Rightarrow> u64 \<Rightarrow> u64" where
  "flow_key_hash_step h x = h XOR (x + 0x9e3779b9 + push_bit 6 h + drop_bit 2 h)"

definition FlowKeyHash :: "FlowKey \<Rightarrow> u64" where
  "FlowKeyHash k =
     (let h = ucast (fk_src_ip k);
          h = flow_key_hash_step h (ucast (fk_dst_ip k));
          h = flow_key_hash_step h (ucast (fk_src_port k));
          h = flow_key_hash_step h (ucast (fk_dst_port k))
      in flow_key_hash_step h (ucast (fk_proto k)))"

record Session =
  s_forward_key :: FlowKey
  s_reverse_key :: FlowKey
  s_client_ip :: u32
  s_client_port :: u16
  s_vip_ip :: u32
  s_vip_port :: u16
  s_upstream_ip :: u32
  s_upstream_port :: u16
  s_snat_port :: u16
  s_last_active_ms :: u64

type_synonym sptr = nat

record SessionTable =
  st_gateway_ip :: u32
  st_idle_timeout_ms :: u64
  st_snat_begin :: u16
  st_snat_end :: u16
  st_snat_next :: u16
  st_sessions :: "sptr list"
  st_forward :: "FlowKey \<rightharpoonup> sptr"
  st_reverse :: "FlowKey \<rightharpoonup> sptr"
  st_free_ports :: "u16 list"
  st_port_in_use :: "u16 \<Rightarrow> bool"
  st_heap :: "sptr \<rightharpoonup> Session"
  st_next_ptr :: sptr

section \<open>Operations\<close>

definition session_table :: "u32 \<Rightarrow> u64 \<Rightarrow> u16 \<Rightarrow> u16 \<Rightarrow> SessionTable" where
  "session_table gateway_ip_be idle_timeout_ms snat_port_begin snat_port_end =
     \<lparr>st_gateway_ip = gateway_ip_be, st_idle_timeout_ms = idle_timeout_ms,
      st_snat_begin = snat_port_begin,
      st_snat_end = (if snat_port_end \<le> snat_port_begin then snat_port_begin + 1 else snat_port_end),
      st_snat_next = snat_port_begin, st_sessions = [],
      st_forward = Map.empty, st_reverse = Map.empty, st_free_ports = [],
      st_port_in_use = (\<lambda>_. False), st_heap = Map.empty, st_next_ptr = 0\<rparr>"

definition lookup_forward :: "SessionTable \<Rightarrow> FlowKey \<Rightarrow> sptr option" where
  "lookup_forward st key = st_forward st key"

definition lookup_reverse :: "SessionTable \<Rightarrow> FlowKey \<Rightarrow> sptr option" where
  "lookup_reverse st key = st_reverse st key"

definition touch :: "SessionTable \<Rightarrow> sptr option \<Rightarrow> u64 \<Rightarrow> SessionTable option" where
  "touch st s now_ms = (case s of None \<Rightarrow> Some st
     | Some p \<Rightarrow> (case st_heap st p of None \<Rightarrow> None
         | Some ses \<Rightarrow> Some (st\<lparr>st_heap := (st_heap st)(p \<mapsto> ses\<lparr>s_last_active_ms := now_ms\<rparr>)\<rparr>)))"

text \<open>
  The scan of \<open>alloc_snat_port\<close>, with the number of tries left; the bound of the loop is the
  \<open>int\<close> difference of the two ports converted to \<open>uint32_t\<close>.
\<close>

fun alloc_scan :: "nat \<Rightarrow> SessionTable \<Rightarrow> u16 \<times> SessionTable" where
  "alloc_scan 0 st = (0, st)"
| "alloc_scan (Suc tries_left) st =
     (let p = st_snat_next st;
          next1 = p + 1;
          next2 = (if next1 \<ge> st_snat_end st then st_snat_begin st else next1);
          st1 = st\<lparr>st_snat_next := next2\<rparr>
      in if \<not> st_port_in_use st1 p
         then (p, st1\<lparr>st_port_in_use := (st_port_in_use st1)(p := True)\<rparr>)
         else alloc_scan tries_left st1)"

definition snat_tries :: "SessionTable \<Rightarrow> nat" where
  "snat_tries st = unat (word_of_int (uint (st_snat_end st) - uint (st_snat_begin st)) :: u32)"

definition alloc_snat_port :: "SessionTable \<Rightarrow> u16 \<times> SessionTable" where
  "alloc_snat_port st =
     (if st_free_ports st \<noteq> [] then
        let p = last (st_free_ports st)
        in (p, st\<lparr>st_free_ports := butlast (st_free_ports st),
                  st_port_in_use := (st_port_in_use st)(p := True)\<rparr>)
      else alloc_scan (snat_tries st) st)"

definition free_snat_port :: "SessionTable \<Rightarrow> u16 \<Rightarrow> SessionTable" where
  "free_snat_port st port =
     (if port = 0 then st
      else if st_port_in_use st port
      then st\<lparr>st_port_in_use := (st_port_in_use st)(port := False),
              st_free_ports := st_free_ports st @ [port]\<rparr>
      else st)"

definition new_session :: "u32 \<Rightarrow> FlowKey \<Rightarrow> u32 \<Rightarrow> u16 \<Rightarrow> u16 \<Rightarrow> u64 \<Rightarrow> Session" where
  "new_session gw client_to_vip upstream_ip_be upstream_port snat now_ms =
     \<lparr>s_forward_key = client_to_vip,
      s_reverse_key = \<lparr>fk_src_ip = upstream_ip_be, fk_dst_ip = gw, fk_src_port = upstream_port,
         fk_dst_port = snat, fk_proto = fk_proto client_to_vip\<rparr>,
      s_client_ip = fk_src_ip client_to_vip, s_client_port = fk_src_port client_to_vip,
      s_vip_ip = fk_dst_ip client_to_vip, s_vip_port = fk_dst_port client_to_vip,
      s_upstream_ip = upstream_ip_be, s_upstream_port = upstream_port,
      s_snat_port = snat, s_last_active_ms = now_ms\<rparr>"

definition create :: "SessionTable \<Rightarrow> FlowKey \<Rightarrow> u32 \<Rightarrow> u16 \<Rightarrow> u64 \<Rightarrow> sptr option \<times> SessionTable" where
  "create st client_to_vip upstream_ip_be upstream_port now_ms =
     (let (snat, st1) = alloc_snat_port st
      in if snat = 0 then (None, st1)
         else
           let s = st_next_ptr st1;
               ses = new_session (st_gateway_ip st1) client_to_vip upstream_ip_be upstream_port snat now_ms
           in (Some s, st1\<lparr>
                st_next_ptr := s + 1,
                st_heap := (st_heap st1)(s \<mapsto> ses),
                st_sessions := st_sessions st1 @ [s],
                st_forward := (st_forward st1)(s_forward_key ses \<mapsto> s),
                st_reverse := (st_reverse st1)(s_reverse_key ses \<mapsto> s)\<rparr>))"

definition erase_session :: "SessionTable \<Rightarrow> sptr option \<Rightarrow> SessionTable option" where
  "erase_session st s = (case s of None \<Rightarrow> Some st
     | Some p \<Rightarrow> (case st_heap st p of None \<Rightarrow> None
         | Some ses \<Rightarrow>
             let st1 = st\<lparr>st_forward := (st_forward st)(s_forward_key ses := None),
                          st_reverse := (st_reverse st)(s_reverse_key ses := None)\<rparr>;
                 st2 = free_snat_port st1 (s_snat_port ses)
             in Some (st2\<lparr>st_sessions := remove1 p (st_sessions st2),
                          st_heap := (st_heap st2)(p := None)\<rparr>)))"

lemma erase_session_sessions:
  "erase_session st (Some p) = Some st' \<Longrightarrow> st_sessions st' = remove1 p (st_sessions st)"
  by (auto simp: erase_session_def free_snat_port_def Let_def split: option.splits if_splits)

function expire_loop :: "u64 \<Rightarrow> nat \<Rightarrow> nat \<Rightarrow> SessionTable \<Rightarrow> (nat \<times> SessionTable) option" where
  "expire_loop now_ms i removed st =
     (if i < length (st_sessions st) then
        (case st_heap st (st_sessions st ! i) of None \<Rightarrow> None
         | Some s \<Rightarrow>
             if now_ms - s_last_active_ms s \<ge> st_idle_timeout_ms st
             then (case erase_session st (Some (st_sessions st ! i)) of None \<Rightarrow> None
                   | Some st' \<Rightarrow> expire_loop now_ms i (removed + 1) st')
             else expire_loop now_ms (i + 1) removed st)
      else Some (removed, st))"
  by pat_completeness auto
termination
  by (relation "measure (\<lambda>(now, i, removed, st). length (st_sessions st) - i)")
     (auto dest!: erase_session_sessions simp: length_remove1)

declare expire_loop.simps [simp del]

definition expire :: "SessionTable \<Rightarrow> u64 \<Rightarrow> (nat \<times> SessionTable) option" where
  "expire st now_ms = expire_loop now_ms 0 0 st"

definition st_size :: "SessionTable \<Rightarrow> nat" where
  "st_size st = length (st_sessions st)"

section \<open>The invariant\<close>

definition in_pool :: "SessionTable \<Rightarrow> u16 \<Rightarrow> bool" where
  "in_pool st p \<longleftrightarrow> st_snat_begin st \<le> p \<and> p < st_snat_end st"

definition pool_inv :: "SessionTable \<Rightarrow> bool" where
  "pool_inv st \<longleftrightarrow> 0 < st_snat_begin st \<and> in_pool st (st_snat_next st) \<and>
     distinct (st_free_ports st) \<and>
     (\<forall>p \<in> set (st_free_ports st). in_pool st p \<and> \<not> st_port_in_use st p) \<and>
     (\<forall>p. st_port_in_use st p \<longrightarrow> in_pool st p)"

definition ptr_inv :: "SessionTable \<Rightarrow> bool" where
  "ptr_inv st \<longleftrightarrow> distinct (st_sessions st) \<and> dom (st_heap st) = set (st_sessions st) \<and>
     (\<forall>p \<in> dom (st_heap st). p < st_next_ptr st)"

definition session_ok :: "u32 \<Rightarrow> Session \<Rightarrow> bool" where
  "session_ok gw s \<longleftrightarrow> s = new_session gw (s_forward_key s) (s_upstream_ip s) (s_upstream_port s)
     (s_snat_port s) (s_last_active_ms s)"

definition index_inv :: "SessionTable \<Rightarrow> bool" where
  "index_inv st \<longleftrightarrow>
     (\<forall>k p. st_forward st k = Some p \<longleftrightarrow> (\<exists>s. st_heap st p = Some s \<and> s_forward_key s = k)) \<and>
     (\<forall>k p. st_reverse st k = Some p \<longleftrightarrow> (\<exists>s. st_heap st p = Some s \<and> s_reverse_key s = k)) \<and>
     (\<forall>p s. st_heap st p = Some s \<longrightarrow> session_ok (st_gateway_ip st) s) \<and>
     (\<forall>q. st_port_in_use st q \<longleftrightarrow> (\<exists>p s. st_heap st p = Some s \<and> s_snat_port s = q)) \<and>
     (\<forall>p p' s s'. st_heap st p = Some s \<longrightarrow> st_heap st p' = Some s' \<longrightarrow>
        s_snat_port s = s_snat_port s' \<longrightarrow> p = p')"

definition st_inv :: "SessionTable \<Rightarrow> bool" where
  "st_inv st \<longleftrightarrow> pool_inv st \<and> ptr_inv st \<and> index_inv st"

lemmas st_inv_defs = st_inv_def pool_inv_def ptr_inv_def index_inv_def in_pool_def

lemma new_session_simps [simp]:
  "s_forward_key (new_session gw k ip po sn now) = k"
  "s_snat_port (new_session gw k ip po sn now) = sn"
  "s_upstream_ip (new_session gw k ip po sn now) = ip"
  "s_upstream_port (new_session gw k ip po sn now) = po"
  "s_last_active_ms (new_session gw k ip po sn now) = now"
  "s_client_ip (new_session gw k ip po sn now) = fk_src_ip k"
  "s_client_port (new_session gw k ip po sn now) = fk_src_port k"
  "s_vip_ip (new_session gw k ip po sn now) = fk_dst_ip k"
  "s_vip_port (new_session gw k ip po sn now) = fk_dst_port k"
  "fk_dst_port (s_reverse_key (new_session gw k ip po sn now)) = sn"
  "session_ok gw (new_session gw k ip po sn now)"
  by (simp_all add: new_session_def session_ok_def)

lemma session_ok_snat: "session_ok gw s \<Longrightarrow> fk_dst_port (s_reverse_key s) = s_snat_port s"
  by (metis new_session_simps(10) session_ok_def)

lemma session_ok_touch [simp]: "session_ok gw s \<Longrightarrow> session_ok gw (s\<lparr>s_last_active_ms := t\<rparr>)"
  by (cases s) (simp add: session_ok_def new_session_def)

text \<open>The consequences of the invariant, one by one.\<close>

lemma st_inv_forward:
  "st_inv st \<Longrightarrow> st_forward st k = Some p \<longleftrightarrow> (\<exists>s. st_heap st p = Some s \<and> s_forward_key s = k)"
  unfolding st_inv_def index_inv_def by blast

lemma st_inv_reverse:
  "st_inv st \<Longrightarrow> st_reverse st k = Some p \<longleftrightarrow> (\<exists>s. st_heap st p = Some s \<and> s_reverse_key s = k)"
  unfolding st_inv_def index_inv_def by blast

lemma st_inv_session: "st_inv st \<Longrightarrow> st_heap st p = Some s \<Longrightarrow> session_ok (st_gateway_ip st) s"
  unfolding st_inv_def index_inv_def by blast

lemma st_inv_port:
  "st_inv st \<Longrightarrow> st_port_in_use st q \<longleftrightarrow> (\<exists>p s. st_heap st p = Some s \<and> s_snat_port s = q)"
  unfolding st_inv_def index_inv_def by blast

lemma st_inv_port_inj: "st_inv st \<Longrightarrow> st_heap st p = Some s \<Longrightarrow> st_heap st p' = Some s' \<Longrightarrow>
    s_snat_port s = s_snat_port s' \<Longrightarrow> p = p'"
  unfolding st_inv_def index_inv_def by blast

lemma st_inv_fresh: "st_inv st \<Longrightarrow> st_heap st (st_next_ptr st) = None"
  unfolding st_inv_def ptr_inv_def by fast

lemma st_inv_sessions: "st_inv st \<Longrightarrow> distinct (st_sessions st) \<and> set (st_sessions st) = dom (st_heap st)"
  by (simp add: st_inv_def ptr_inv_def)

lemma st_inv_init:
  assumes "0 < b" "b < e"
  shows "st_inv (session_table gw tmo b e)"
  using assms by (auto simp: st_inv_defs session_table_def)

section \<open>Port pool\<close>

lemma word_Suc_le:
  fixes p e :: u16
  assumes "p < e" shows "p + 1 \<le> e" "unat (p + 1) = unat p + 1"
proof -
  from assms have "unat p + 1 \<le> unat e" by (simp add: word_less_nat_alt)
  moreover have "unat e < 65536" by (rule unat_u16_less)
  ultimately show "unat (p + 1) = unat p + 1"
    by (simp add: unat_word_ariths)
  with \<open>unat p + 1 \<le> unat e\<close> show "p + 1 \<le> e"
    by (simp add: word_le_nat_alt)
qed

definition next_port :: "SessionTable \<Rightarrow> u16 \<Rightarrow> u16" where
  "next_port st p = (if p + 1 \<ge> st_snat_end st then st_snat_begin st else p + 1)"

lemma next_port_in_pool: "in_pool st p \<Longrightarrow> in_pool st (next_port st p)"
  using word_Suc_le [of p "st_snat_end st"]
  by (auto simp: next_port_def in_pool_def word_le_nat_alt word_less_nat_alt)

text \<open>The scan touches only the cursor and the flag of the port it returns.\<close>

lemma alloc_scan_cases:
  assumes "in_pool st (st_snat_next st)" and "alloc_scan n st = (p, st')"
  shows "(\<exists>c. in_pool st c \<and>
     (p = 0 \<and> st' = st\<lparr>st_snat_next := c\<rparr> \<or>
      in_pool st p \<and> \<not> st_port_in_use st p \<and>
      st' = st\<lparr>st_snat_next := c, st_port_in_use := (st_port_in_use st)(p := True)\<rparr>))"
  using assms
proof (induction n arbitrary: st)
  case 0
  then show ?case by (auto intro!: exI [of _ "st_snat_next st"])
next
  case (Suc n)
  define q where "q = st_snat_next st"
  define st1 where "st1 = st\<lparr>st_snat_next := next_port st q\<rparr>"
  have q: "in_pool st q" "in_pool st (next_port st q)"
    using Suc.prems(1) next_port_in_pool by (auto simp: q_def)
  show ?case
  proof (cases "st_port_in_use st q")
    case False
    then have "p = q" and
      "st' = st\<lparr>st_snat_next := next_port st q, st_port_in_use := (st_port_in_use st)(q := True)\<rparr>"
      using Suc.prems(2) by (auto simp: Let_def q_def next_port_def)
    with False q show ?thesis by blast
  next
    case True
    then have "alloc_scan n st1 = (p, st')"
      using Suc.prems(2) by (simp add: Let_def q_def st1_def next_port_def)
    moreover have "in_pool st1 (st_snat_next st1)"
      using q by (simp add: st1_def in_pool_def)
    ultimately have "\<exists>c. in_pool st1 c \<and> (p = 0 \<and> st' = st1\<lparr>st_snat_next := c\<rparr> \<or>
      in_pool st1 p \<and> \<not> st_port_in_use st1 p \<and>
      st' = st1\<lparr>st_snat_next := c, st_port_in_use := (st_port_in_use st1)(p := True)\<rparr>)"
      by (intro Suc.IH)
    moreover have "in_pool st1 = in_pool st" "st_port_in_use st1 = st_port_in_use st"
      "\<And>c. st1\<lparr>st_snat_next := c\<rparr> = st\<lparr>st_snat_next := c\<rparr>"
      by (simp_all add: st1_def in_pool_def fun_eq_iff)
    ultimately show ?thesis by metis
  qed
qed


text \<open>Position of the cursor in the pool, and the ports a scan visits.\<close>

lemma next_port_unat:
  assumes "in_pool st p"
  shows "unat (next_port st p) = (if unat p + 1 = unat (st_snat_end st) then unat (st_snat_begin st) else unat p + 1)"
  using assms word_Suc_le [of p "st_snat_end st"]
  by (auto simp: next_port_def in_pool_def word_le_nat_alt word_less_nat_alt)

lemma funpow_next_port:
  assumes "in_pool st p"
  shows "in_pool st ((next_port st ^^ j) p) \<and> unat ((next_port st ^^ j) p) =
    unat (st_snat_begin st) + (unat p - unat (st_snat_begin st) + j) mod (unat (st_snat_end st) - unat (st_snat_begin st))"
proof (induction j)
  case 0
  then show ?case using assms
    by (auto simp: in_pool_def word_le_nat_alt word_less_nat_alt)
next
  case (Suc j)
  let ?b = "unat (st_snat_begin st)" and ?N = "unat (st_snat_end st) - unat (st_snat_begin st)"
  let ?q = "(next_port st ^^ j) p" and ?i = "unat p - unat (st_snat_begin st) + j"
  have q: "in_pool st ?q" "unat ?q = ?b + ?i mod ?N" using Suc.IH by auto
  have N: "0 < ?N" using assms by (auto simp: in_pool_def word_le_nat_alt word_less_nat_alt)
  have "unat (next_port st ?q) = ?b + (?i + 1) mod ?N"
    using next_port_unat [OF q(1)] q(2) N mod_Suc [of ?i ?N] by auto
  then show ?case using q(1) next_port_in_pool by simp
qed

lemma alloc_scan_zero:
  assumes "in_pool st (st_snat_next st)" and "0 < st_snat_begin st" and "alloc_scan n st = (0, st')" and "j < n"
  shows "st_port_in_use st ((next_port st ^^ j) (st_snat_next st))"
  using assms
proof (induction n arbitrary: st j)
  case 0
  then show ?case by simp
next
  case (Suc n)
  define q where "q = st_snat_next st"
  define st1 where "st1 = st\<lparr>st_snat_next := next_port st q\<rparr>"
  have q0: "q \<noteq> 0" using Suc.prems(1,2) by (auto simp: q_def in_pool_def)
  have use: "st_port_in_use st q" and rec: "alloc_scan n st1 = (0, st')"
    using Suc.prems(3) q0 by (auto simp: Let_def q_def st1_def next_port_def split: if_splits)
  have st1: "in_pool st1 (st_snat_next st1)" "0 < st_snat_begin st1" "next_port st1 = next_port st"
    using Suc.prems(1,2) next_port_in_pool [of st q]
    by (auto simp: st1_def in_pool_def q_def next_port_def fun_eq_iff)
  show ?case
  proof (cases j)
    case 0
    then show ?thesis using use by (simp add: q_def)
  next
    case (Suc i)
    then have "st_port_in_use st1 ((next_port st1 ^^ i) (st_snat_next st1))"
      using Suc.IH [OF st1(1,2) rec] Suc.prems(4) by simp
    then show ?thesis
      using st1(3) by (simp add: st1_def Suc funpow_swap1 flip: q_def)
  qed
qed

lemma snat_tries_eq:
  assumes "st_snat_begin st < st_snat_end st"
  shows "snat_tries st = unat (st_snat_end st) - unat (st_snat_begin st)"
proof -
  let ?d = "unat (st_snat_end st) - unat (st_snat_begin st)"
  have "uint (st_snat_end st) - uint (st_snat_begin st) = int ?d"
    using assms by (simp add: word_less_nat_alt of_nat_diff)
  moreover have "?d < 2 ^ 32"
    using unat_u16_less [of "st_snat_end st"] by simp
  ultimately show ?thesis
    by (simp add: snat_tries_def unat_of_nat)
qed

lemma alloc_scan_exhausted:
  assumes pool: "in_pool st (st_snat_next st)" and b: "0 < st_snat_begin st"
    and z: "alloc_scan (snat_tries st) st = (0, st')" and q: "in_pool st q"
  shows "st_port_in_use st q"
proof -
  let ?b = "unat (st_snat_begin st)" and ?N = "unat (st_snat_end st) - unat (st_snat_begin st)"
  let ?n = "unat (st_snat_next st)"
  have be: "st_snat_begin st < st_snat_end st" using pool by (auto simp: in_pool_def)
  define j where "j = (unat q + ?N - ?n) mod ?N"
  have rng: "?b \<le> unat q" "unat q < ?b + ?N" "?b \<le> ?n" "?n < ?b + ?N" "0 < ?N"
    using q pool by (auto simp: in_pool_def word_le_nat_alt word_less_nat_alt)
  have "(?n - ?b + j) mod ?N = (?n - ?b + (unat q + ?N - ?n)) mod ?N"
    by (simp add: j_def mod_add_right_eq)
  also have "?n - ?b + (unat q + ?N - ?n) = unat q - ?b + ?N"
    using rng by simp
  also have "(unat q - ?b + ?N) mod ?N = (unat q - ?b) mod ?N"
    by (rule mod_add_self2)
  also have "\<dots> = unat q - ?b"
    using rng by simp
  finally have "unat ((next_port st ^^ j) (st_snat_next st)) = unat q"
    using funpow_next_port [OF pool, of j] rng by simp
  then have cursor: "(next_port st ^^ j) (st_snat_next st) = q"
    by (rule unsigned_word_eqI)
  have "st_port_in_use st ((next_port st ^^ j) (st_snat_next st))"
    by (rule alloc_scan_zero [OF pool b z])
       (simp add: snat_tries_eq [OF be] j_def mod_less_divisor [OF rng(5)])
  then show ?thesis unfolding cursor .
qed


lemma alloc_snat_port_cases:
  assumes "pool_inv st" and "alloc_snat_port st = (p, st')"
  obtains (exhausted) c where "p = 0" "\<And>q. in_pool st q \<Longrightarrow> st_port_in_use st q" "in_pool st c"
      "st' = st\<lparr>st_snat_next := c\<rparr>"
    | (allocated) c fr where "in_pool st p" "\<not> st_port_in_use st p" "in_pool st c"
      "distinct fr" "set fr = set (st_free_ports st) - {p}"
      "st' = st\<lparr>st_snat_next := c, st_free_ports := fr, st_port_in_use := (st_port_in_use st)(p := True)\<rparr>"
proof (cases "st_free_ports st = []")
  case True
  then have scan: "alloc_scan (snat_tries st) st = (p, st')"
    using assms(2) by (simp add: alloc_snat_port_def)
  have pool: "in_pool st (st_snat_next st)" "0 < st_snat_begin st"
    using assms(1) by (auto simp: pool_inv_def)
  obtain c where c: "in_pool st c" and or: "p = 0 \<and> st' = st\<lparr>st_snat_next := c\<rparr> \<or>
      in_pool st p \<and> \<not> st_port_in_use st p \<and>
      st' = st\<lparr>st_snat_next := c, st_port_in_use := (st_port_in_use st)(p := True)\<rparr>"
    using alloc_scan_cases [OF pool(1) scan] by blast
  from or show ?thesis
  proof
    assume "p = 0 \<and> st' = st\<lparr>st_snat_next := c\<rparr>"
    then show ?thesis
      using exhausted [OF _ _ c] alloc_scan_exhausted [OF pool, of st'] scan by simp
  next
    assume "in_pool st p \<and> \<not> st_port_in_use st p \<and>
      st' = st\<lparr>st_snat_next := c, st_port_in_use := (st_port_in_use st)(p := True)\<rparr>"
    moreover have "st\<lparr>st_snat_next := c, st_port_in_use := (st_port_in_use st)(p := True)\<rparr> =
        st\<lparr>st_snat_next := c, st_free_ports := [], st_port_in_use := (st_port_in_use st)(p := True)\<rparr>"
      using True by (cases st) simp
    ultimately show ?thesis
      using allocated [of c "[]"] c True by auto
  qed
next
  case False
  define fr where "fr = butlast (st_free_ports st)"
  have fp: "st_free_ports st = fr @ [p]" and
    st': "st' = st\<lparr>st_free_ports := fr, st_port_in_use := (st_port_in_use st)(p := True)\<rparr>"
    using assms(2) False by (auto simp: alloc_snat_port_def Let_def fr_def)
  have "st' = st\<lparr>st_snat_next := st_snat_next st, st_free_ports := fr,
      st_port_in_use := (st_port_in_use st)(p := True)\<rparr>"
    by (simp add: st')
  then show ?thesis
    using allocated [of "st_snat_next st" fr] assms(1) fp by (auto simp: pool_inv_def)
qed

section \<open>Every operation keeps the invariant\<close>

lemma cursor_inv:
  "st_inv st \<Longrightarrow> in_pool st c \<Longrightarrow> st_inv (st\<lparr>st_snat_next := c\<rparr>)"
  by (simp add: st_inv_def pool_inv_def in_pool_def) (simp add: ptr_inv_def index_inv_def)

lemma create_cases:
  assumes "st_inv st" and "create st k ip po now = (r, st')"
  obtains (exhausted) c where "r = None" "\<And>q. in_pool st q \<Longrightarrow> st_port_in_use st q" "in_pool st c"
      "st' = st\<lparr>st_snat_next := c\<rparr>"
    | (created) sn c fr ses where "r = Some (st_next_ptr st)" "in_pool st sn" "\<not> st_port_in_use st sn"
      "in_pool st c" "distinct fr" "set fr = set (st_free_ports st) - {sn}" "sn \<noteq> 0"
      "ses = new_session (st_gateway_ip st) k ip po sn now"
      "st' = st\<lparr>st_snat_next := c, st_sessions := st_sessions st @ [st_next_ptr st],
         st_forward := (st_forward st)(k \<mapsto> st_next_ptr st),
         st_reverse := (st_reverse st)(s_reverse_key ses \<mapsto> st_next_ptr st),
         st_free_ports := fr, st_port_in_use := (st_port_in_use st)(sn := True),
         st_heap := (st_heap st)(st_next_ptr st \<mapsto> ses), st_next_ptr := st_next_ptr st + 1\<rparr>"
proof -
  obtain sn st1 where al: "alloc_snat_port st = (sn, st1)" by fastforce
  have pool: "pool_inv st" using assms(1) by (simp add: st_inv_def)
  from pool al show ?thesis
  proof (cases rule: alloc_snat_port_cases)
    case (exhausted c)
    then show ?thesis using assms(2) al that(1) [of c] by (auto simp: create_def)
  next
    case (allocated c fr)
    have "sn \<noteq> 0" using allocated(1) pool by (auto simp: pool_inv_def in_pool_def)
    then show ?thesis using assms(2) al that(2) [OF _ allocated(1,2,3,4,5)] allocated(6)
      by (auto simp: create_def Let_def)
  qed
qed

text \<open>Entering a session under a fresh pointer, with keys and a port that no session has.\<close>

lemma index_inv_insert:
  assumes ix: "index_inv st" and ses: "session_ok (st_gateway_ip st) ses" and fresh: "st_heap st p = None"
    and new: "\<And>q s. st_heap st q = Some s \<Longrightarrow> s_forward_key s \<noteq> s_forward_key ses \<and>
      s_reverse_key s \<noteq> s_reverse_key ses \<and> s_snat_port s \<noteq> s_snat_port ses"
    and st': "st_heap st' = (st_heap st)(p \<mapsto> ses)" "st_forward st' = (st_forward st)(s_forward_key ses \<mapsto> p)"
      "st_reverse st' = (st_reverse st)(s_reverse_key ses \<mapsto> p)"
      "st_port_in_use st' = (st_port_in_use st)(s_snat_port ses := True)" "st_gateway_ip st' = st_gateway_ip st"
  shows "index_inv st'"
  unfolding index_inv_def st'
proof (intro conjI allI impI)
  fix k q
  show "((st_forward st)(s_forward_key ses \<mapsto> p)) k = Some q \<longleftrightarrow>
      (\<exists>s. ((st_heap st)(p \<mapsto> ses)) q = Some s \<and> s_forward_key s = k)"
    using ix fresh new by (auto simp: index_inv_def)
  show "((st_reverse st)(s_reverse_key ses \<mapsto> p)) k = Some q \<longleftrightarrow>
      (\<exists>s. ((st_heap st)(p \<mapsto> ses)) q = Some s \<and> s_reverse_key s = k)"
    using ix fresh new by (auto simp: index_inv_def)
next
  fix q s assume "((st_heap st)(p \<mapsto> ses)) q = Some s"
  then show "session_ok (st_gateway_ip st) s"
    using ix ses by (auto simp: index_inv_def split: if_splits)
next
  fix q
  have "st_port_in_use st q \<longleftrightarrow> (\<exists>p s. st_heap st p = Some s \<and> s_snat_port s = q)"
    using ix by (simp add: index_inv_def)
  then show "((st_port_in_use st)(s_snat_port ses := True)) q \<longleftrightarrow>
      (\<exists>q' s. ((st_heap st)(p \<mapsto> ses)) q' = Some s \<and> s_snat_port s = q)"
    using fresh by (auto split: if_splits) (metis option.distinct(1))
next
  fix q q' s s'
  assume "((st_heap st)(p \<mapsto> ses)) q = Some s" "((st_heap st)(p \<mapsto> ses)) q' = Some s'" "s_snat_port s = s_snat_port s'"
  then show "q = q'"
    using ix new by (auto simp: index_inv_def split: if_splits)
qed

lemma create_inv:
  assumes inv: "st_inv st" and miss: "lookup_forward st k = None"
    and cr: "create st k ip po now = (r, st')"
  shows "st_inv st'"
  using inv cr
proof (cases rule: create_cases)
  case (exhausted c)
  then show ?thesis using inv by (simp add: cursor_inv)
next
  case (created sn c fr ses)
  have ses: "s_forward_key ses = k" "s_snat_port ses = sn" "fk_dst_port (s_reverse_key ses) = sn"
      "session_ok (st_gateway_ip st) ses"
    using created(8) by simp_all
  have new: "s_forward_key s \<noteq> s_forward_key ses \<and> s_reverse_key s \<noteq> s_reverse_key ses \<and> s_snat_port s \<noteq> s_snat_port ses"
    if h: "st_heap st q = Some s" for q s
  proof -
    have "s_forward_key s \<noteq> k"
      using h miss st_inv_forward [OF inv] by (metis lookup_forward_def option.distinct(1))
    moreover have "s_snat_port s \<noteq> sn" using h created(3) st_inv_port [OF inv] by blast
    moreover have "fk_dst_port (s_reverse_key s) = s_snat_port s"
      using st_inv_session [OF inv h] by (rule session_ok_snat)
    ultimately show ?thesis using ses by auto
  qed
  have "pool_inv st" "ptr_inv st" "index_inv st" using inv by (auto simp: st_inv_def)
  then have "pool_inv st'" "ptr_inv st'"
    using created st_inv_fresh [OF inv] by (auto simp: pool_inv_def in_pool_def ptr_inv_def less_Suc_eq)
  moreover have "index_inv st'"
    by (rule index_inv_insert [OF \<open>index_inv st\<close> ses(4) st_inv_fresh [OF inv] new]) (use created ses in simp_all)
  ultimately show ?thesis by (simp add: st_inv_def)
qed

lemma touch_eq:
  assumes "st_heap st p = Some s"
  shows "touch st (Some p) now =
    Some (st\<lparr>st_heap := (st_heap st)(p \<mapsto> s\<lparr>s_last_active_ms := now\<rparr>)\<rparr>)"
  using assms by (simp add: touch_def)

lemma touch_inv:
  assumes inv: "st_inv st" and t: "touch st (Some p) now = Some st'"
  shows "st_inv st'"
proof -
  obtain s where h: "st_heap st p = Some s"
    and st': "st' = st\<lparr>st_heap := (st_heap st)(p \<mapsto> s\<lparr>s_last_active_ms := now\<rparr>)\<rparr>"
    using t by (auto simp: touch_def split: option.splits)
  have "pool_inv st'" "ptr_inv st'"
    using inv h by (auto simp: st' st_inv_def pool_inv_def ptr_inv_def in_pool_def)
  moreover have "index_inv st'"
    unfolding index_inv_def
  proof (intro conjI allI impI)
    fix k q
    show "st_forward st' k = Some q \<longleftrightarrow> (\<exists>s. st_heap st' q = Some s \<and> s_forward_key s = k)"
      using h st_inv_forward [OF inv] by (simp add: st')
    show "st_reverse st' k = Some q \<longleftrightarrow> (\<exists>s. st_heap st' q = Some s \<and> s_reverse_key s = k)"
      using h st_inv_reverse [OF inv] by (simp add: st')
  next
    fix q s' assume "st_heap st' q = Some s'"
    then show "session_ok (st_gateway_ip st') s'"
      using h st_inv_session [OF inv] by (auto simp: st' split: if_splits)
  next
    fix q
    show "st_port_in_use st' q \<longleftrightarrow> (\<exists>p s. st_heap st' p = Some s \<and> s_snat_port s = q)"
      unfolding st' using h st_inv_port [OF inv, of q] by (simp add: ex_map_upd) (metis option.inject)
  next
    fix a b sa sb
    assume "st_heap st' a = Some sa" "st_heap st' b = Some sb" "s_snat_port sa = s_snat_port sb"
    then show "a = b"
      using h st_inv_port_inj [OF inv] by (fastforce simp: st' split: if_splits)
  qed
  ultimately show ?thesis by (simp add: st_inv_def)
qed

lemma erase_session_eq:
  assumes inv: "st_inv st" and h: "st_heap st p = Some s"
  shows "erase_session st (Some p) = Some (st\<lparr>
    st_forward := (st_forward st)(s_forward_key s := None),
    st_reverse := (st_reverse st)(s_reverse_key s := None),
    st_port_in_use := (st_port_in_use st)(s_snat_port s := False),
    st_free_ports := st_free_ports st @ [s_snat_port s],
    st_sessions := remove1 p (st_sessions st),
    st_heap := (st_heap st)(p := None)\<rparr>)"
proof -
  have use: "st_port_in_use st (s_snat_port s)"
    using st_inv_port [OF inv] h by blast
  then have "s_snat_port s \<noteq> 0"
    using inv by (auto simp: st_inv_def pool_inv_def in_pool_def)
  with use h show ?thesis
    by (simp add: erase_session_def free_snat_port_def Let_def)
qed

lemma erase_session_inv:
  assumes inv: "st_inv st" and e: "erase_session st (Some p) = Some st'"
  shows "st_inv st'"
proof -
  obtain s where h: "st_heap st p = Some s"
    using e by (auto simp: erase_session_def split: option.splits)
  note st' = e [unfolded erase_session_eq [OF inv h], simplified, symmetric]
  have use: "st_port_in_use st (s_snat_port s)"
    using st_inv_port [OF inv] h by blast
  have "pool_inv st'"
    using inv use by (auto simp: st' st_inv_def pool_inv_def in_pool_def)
  moreover have "ptr_inv st'"
    using inv by (auto simp: st' st_inv_def ptr_inv_def)
  moreover have "index_inv st'"
    unfolding index_inv_def
  proof (intro conjI allI impI)
    fix k q
    show "st_forward st' k = Some q \<longleftrightarrow> (\<exists>s. st_heap st' q = Some s \<and> s_forward_key s = k)"
      using h st_inv_forward [OF inv] by (auto simp: st') (metis option.inject)+
    show "st_reverse st' k = Some q \<longleftrightarrow> (\<exists>s. st_heap st' q = Some s \<and> s_reverse_key s = k)"
      using h st_inv_reverse [OF inv] by (auto simp: st') (metis option.inject)+
  next
    fix q s' assume "st_heap st' q = Some s'"
    then show "session_ok (st_gateway_ip st') s'"
      using st_inv_session [OF inv] by (auto simp: st' split: if_splits)
  next
    fix q
    have "st_port_in_use st' q \<longleftrightarrow> q \<noteq> s_snat_port s \<and> st_port_in_use st q"
      by (simp add: st')
    also have "\<dots> \<longleftrightarrow> (\<exists>a b. a \<noteq> p \<and> st_heap st a = Some b \<and> s_snat_port b = q)"
      using h st_inv_port [OF inv, of q] st_inv_port_inj [OF inv h] by (metis option.inject)
    finally show "st_port_in_use st' q \<longleftrightarrow> (\<exists>p s. st_heap st' p = Some s \<and> s_snat_port s = q)"
      by (simp add: st') blast
  next
    fix a b sa sb
    assume "st_heap st' a = Some sa" "st_heap st' b = Some sb" "s_snat_port sa = s_snat_port sb"
    then show "a = b"
      using st_inv_port_inj [OF inv] by (auto simp: st' split: if_splits)
  qed
  ultimately show ?thesis by (simp add: st_inv_def)
qed


section \<open>Expiry removes exactly the idle sessions\<close>

definition idle :: "SessionTable \<Rightarrow> u64 \<Rightarrow> sptr \<Rightarrow> bool" where
  "idle st now p \<longleftrightarrow> (case st_heap st p of None \<Rightarrow> False
     | Some s \<Rightarrow> now - s_last_active_ms s \<ge> st_idle_timeout_ms st)"

definition same_config :: "SessionTable \<Rightarrow> SessionTable \<Rightarrow> bool" where
  "same_config st st' \<longleftrightarrow> st_gateway_ip st' = st_gateway_ip st \<and>
     st_idle_timeout_ms st' = st_idle_timeout_ms st \<and>
     st_snat_begin st' = st_snat_begin st \<and> st_snat_end st' = st_snat_end st"

text \<open>\<open>swept now i st st'\<close>: \<open>st'\<close> is \<open>st\<close> without the idle sessions from index \<open>i\<close> on.\<close>

definition swept :: "u64 \<Rightarrow> nat \<Rightarrow> SessionTable \<Rightarrow> SessionTable \<Rightarrow> bool" where
  "swept now i st st' \<longleftrightarrow> st_inv st' \<and> same_config st st' \<and>
     st_sessions st' = take i (st_sessions st) @ filter (\<lambda>p. \<not> idle st now p) (drop i (st_sessions st)) \<and>
     (\<forall>p. st_heap st' p =
        (if p \<in> set (drop i (st_sessions st)) \<and> idle st now p then None else st_heap st p))"

lemma erase_at:
  assumes inv: "st_inv st" and i: "i < length (st_sessions st)"
    and h: "st_heap st (st_sessions st ! i) = Some s"
  obtains st1 where "erase_session st (Some (st_sessions st ! i)) = Some st1" "st_inv st1"
    "same_config st st1" "st_heap st1 = (st_heap st)(st_sessions st ! i := None)"
    "take i (st_sessions st1) = take i (st_sessions st)"
    "drop i (st_sessions st1) = drop (Suc i) (st_sessions st)"
    "\<And>q. q \<noteq> st_sessions st ! i \<Longrightarrow> idle st1 now q = idle st now q"
proof -
  let ?p = "st_sessions st ! i"
  define st1 where "st1 = the (erase_session st (Some ?p))"
  have er: "erase_session st (Some ?p) = Some st1"
    and flds: "same_config st st1" "st_heap st1 = (st_heap st)(?p := None)"
    using erase_session_eq [OF inv h] by (simp_all add: st1_def same_config_def)
  have "st_sessions st1 = take i (st_sessions st) @ drop (Suc i) (st_sessions st)"
    using erase_session_sessions [OF er] remove1_nth [OF _ i] st_inv_sessions [OF inv] by simp
  then have "take i (st_sessions st1) = take i (st_sessions st)"
    "drop i (st_sessions st1) = drop (Suc i) (st_sessions st)"
    using i by simp_all
  moreover have "idle st1 now q = idle st now q" if "q \<noteq> ?p" for q
    using that flds by (simp add: idle_def same_config_def split: option.split)
  ultimately show ?thesis
    using that [OF er erase_session_inv [OF inv er] flds] by blast
qed

lemma swept_erase:
  assumes "p \<notin> set (drop (Suc i) (st_sessions st))" and "idle st now p"
    and "drop i (st_sessions st) = p # drop (Suc i) (st_sessions st)"
    and "same_config st st1" "st_heap st1 = (st_heap st)(p := None)"
    and "take i (st_sessions st1) = take i (st_sessions st)"
    and "drop i (st_sessions st1) = drop (Suc i) (st_sessions st)"
    and "\<And>q. q \<noteq> p \<Longrightarrow> idle st1 now q = idle st now q"
    and "swept now i st1 st'"
  shows "swept now i st st' \<and> length (filter (idle st now) (drop i (st_sessions st))) =
    Suc (length (filter (idle st1 now) (drop i (st_sessions st1))))"
proof -
  have "filter (idle st1 now) (drop (Suc i) (st_sessions st)) = filter (idle st now) (drop (Suc i) (st_sessions st))"
    "filter (\<lambda>q. \<not> idle st1 now q) (drop (Suc i) (st_sessions st)) = filter (\<lambda>q. \<not> idle st now q) (drop (Suc i) (st_sessions st))"
    using assms(1,8) by (metis (mono_tags, lifting) filter_cong)+
  then show ?thesis
    using assms by (auto simp: swept_def same_config_def)
qed

text \<open>A round of the loop that meets an idle session.\<close>

lemma expire_idle_round:
  assumes inv: "st_inv st" and i: "i < length (st_sessions st)" and h: "st_heap st (st_sessions st ! i) = Some s"
    and old: "now - s_last_active_ms s \<ge> st_idle_timeout_ms st"
  obtains st1 where "erase_session st (Some (st_sessions st ! i)) = Some st1" "st_inv st1"
    "expire_loop now i r st = expire_loop now i (r + 1) st1"
    "\<And>st'. swept now i st1 st' \<Longrightarrow> swept now i st st' \<and>
       length (filter (idle st now) (drop i (st_sessions st))) = Suc (length (filter (idle st1 now) (drop i (st_sessions st1))))"
proof -
  define p where "p = st_sessions st ! i"
  have dr: "drop i (st_sessions st) = p # drop (Suc i) (st_sessions st)"
    using i by (simp add: p_def Cons_nth_drop_Suc)
  obtain st1 where st1: "erase_session st (Some p) = Some st1" "st_inv st1"
    "same_config st st1" "st_heap st1 = (st_heap st)(p := None)"
    "take i (st_sessions st1) = take i (st_sessions st)"
    "drop i (st_sessions st1) = drop (Suc i) (st_sessions st)"
    "\<And>q. q \<noteq> p \<Longrightarrow> idle st1 now q = idle st now q"
    using erase_at [OF inv i h, of now thesis] unfolding p_def by blast
  have "p \<notin> set (drop (Suc i) (st_sessions st))"
    using st_inv_sessions [OF inv] dr by (metis distinct.simps(2) distinct_drop)
  moreover have "idle st now p" using h old by (simp add: idle_def p_def)
  ultimately have "swept now i st1 st' \<Longrightarrow> swept now i st st' \<and>
      length (filter (idle st now) (drop i (st_sessions st))) =
      Suc (length (filter (idle st1 now) (drop i (st_sessions st1))))" for st'
    using swept_erase [OF _ _ dr st1(3-7)] by blast
  moreover have "expire_loop now i r st = expire_loop now i (r + 1) st1"
    using i old h st1(1) by (simp add: expire_loop.simps [of now i r st] p_def)
  ultimately show thesis using that st1(1,2) by (simp add: p_def)
qed

lemma expire_loop_spec:
  assumes "st_inv st"
  shows "\<exists>st'. expire_loop now i r st =
      Some (r + length (filter (idle st now) (drop i (st_sessions st))), st') \<and> swept now i st st'"
  using assms
proof (induction now i r st rule: expire_loop.induct)
  case (1 now i r st)
  note inv = "1.prems"
  show ?case
  proof (cases "i < length (st_sessions st)")
    case False
    then show ?thesis
      using inv by (simp add: expire_loop.simps [of now i r st] swept_def same_config_def)
  next
    case True
    have dr: "drop i (st_sessions st) = st_sessions st ! i # drop (Suc i) (st_sessions st)"
      and tk: "take (Suc i) (st_sessions st) = take i (st_sessions st) @ [st_sessions st ! i]"
      using True by (simp_all add: Cons_nth_drop_Suc take_Suc_conv_app_nth)
    have "st_sessions st ! i \<in> dom (st_heap st)" using st_inv_sessions [OF inv] True by auto
    then obtain s where h: "st_heap st (st_sessions st ! i) = Some s" by auto
    show ?thesis
    proof (cases "now - s_last_active_ms s \<ge> st_idle_timeout_ms st")
      case False
      then have "expire_loop now i r st = expire_loop now (Suc i) r st" "\<not> idle st now (st_sessions st ! i)"
        using True h by (simp_all add: expire_loop.simps [of now i r st] idle_def)
      then show ?thesis
        using "1.IH"(2) [OF True h _ inv] False by (auto simp: dr tk swept_def)
    next
      case old: True
      obtain st1 where st1: "erase_session st (Some (st_sessions st ! i)) = Some st1" "st_inv st1"
        "expire_loop now i r st = expire_loop now i (r + 1) st1"
        and sw: "\<And>st'. swept now i st1 st' \<Longrightarrow> swept now i st st' \<and>
          length (filter (idle st now) (drop i (st_sessions st))) = Suc (length (filter (idle st1 now) (drop i (st_sessions st1))))"
        by (rule expire_idle_round [OF inv True h old, of r]) (rule that)
      show ?thesis
        using "1.IH"(1) [OF True h old st1(1,2)] sw st1(3) by auto
    qed
  qed
qed

section \<open>The interface of the session table\<close>

text \<open>
  What the forwarder relies on: pointers in the indexes are live, every live session is found
  under both its keys, a new session extends the store, and touching changes only the time.
\<close>

locale session_nat =
  fixes inv :: "'t \<Rightarrow> bool"
    and gw :: "'t \<Rightarrow> u32"
    and deref :: "'t \<Rightarrow> sptr \<rightharpoonup> Session"
    and fwd :: "'t \<Rightarrow> FlowKey \<Rightarrow> sptr option"
    and rev :: "'t \<Rightarrow> FlowKey \<Rightarrow> sptr option"
    and mk :: "'t \<Rightarrow> FlowKey \<Rightarrow> u32 \<Rightarrow> u16 \<Rightarrow> u64 \<Rightarrow> sptr option \<times> 't"
    and tch :: "'t \<Rightarrow> sptr option \<Rightarrow> u64 \<Rightarrow> 't option"
  assumes fwd_hit: "inv t \<Longrightarrow> fwd t k = Some p \<Longrightarrow> \<exists>s. deref t p = Some s \<and> s_forward_key s = k"
    and rev_hit: "inv t \<Longrightarrow> rev t k = Some p \<Longrightarrow> \<exists>s. deref t p = Some s \<and> s_reverse_key s = k"
    and live: "inv t \<Longrightarrow> deref t p = Some s \<Longrightarrow>
      fwd t (s_forward_key s) = Some p \<and> rev t (s_reverse_key s) = Some p \<and> session_ok (gw t) s"
    and mk_new: "inv t \<Longrightarrow> fwd t k = None \<Longrightarrow> mk t k ip po now = (Some p, t') \<Longrightarrow>
      inv t' \<and> gw t' = gw t \<and> deref t p = None \<and>
      (\<exists>sn. deref t' = (deref t)(p \<mapsto> new_session (gw t) k ip po sn now))"
    and mk_full: "inv t \<Longrightarrow> fwd t k = None \<Longrightarrow> mk t k ip po now = (None, t') \<Longrightarrow>
      inv t' \<and> gw t' = gw t \<and> deref t' = deref t"
    and tch_live: "inv t \<Longrightarrow> deref t p = Some s \<Longrightarrow>
      \<exists>t'. tch t (Some p) now = Some t' \<and> inv t' \<and> gw t' = gw t \<and>
        deref t' = (deref t)(p \<mapsto> s\<lparr>s_last_active_ms := now\<rparr>)"
begin

lemma fwd_iff: "inv t \<Longrightarrow> fwd t k = Some p \<longleftrightarrow> (\<exists>s. deref t p = Some s \<and> s_forward_key s = k)"
  using fwd_hit live by blast

lemma rev_iff: "inv t \<Longrightarrow> rev t k = Some p \<longleftrightarrow> (\<exists>s. deref t p = Some s \<and> s_reverse_key s = k)"
  using rev_hit live by blast

text \<open>Distinct sessions never share a key, in either direction.\<close>

lemma keys_unique:
  assumes "inv t" "deref t p = Some s" "deref t q = Some s'"
    and "s_forward_key s = s_forward_key s' \<or> s_reverse_key s = s_reverse_key s'"
  shows "p = q"
  using assms live [of t p s] live [of t q s'] by auto

text \<open>Touching a session changes no lookup.\<close>

lemma tch_lookups:
  assumes "inv t" "deref t p = Some s" "tch t (Some p) now = Some t'"
  shows "fwd t' = fwd t \<and> rev t' = rev t"
proof -
  obtain t'' where t'': "tch t (Some p) now = Some t''" "inv t''"
    "deref t'' = (deref t)(p \<mapsto> s\<lparr>s_last_active_ms := now\<rparr>)"
    using tch_live [OF assms(1,2)] by blast
  have "fwd t'' k = Some q \<longleftrightarrow> fwd t k = Some q" "rev t'' k = Some q \<longleftrightarrow> rev t k = Some q" for k q
    using assms(1,2) t''(2,3) by (auto simp: fwd_iff rev_iff)
  then have "fwd t'' = fwd t" and "rev t'' = rev t"
    by (intro map_eqI; blast)+
  with t''(1) assms(3) show ?thesis by simp
qed

text \<open>A new session is found under its flow and under the key of its replies.\<close>

lemma mk_found:
  assumes "inv t" "fwd t k = None" "mk t k ip po now = (Some p, t')"
  shows "\<exists>s. deref t' p = Some s \<and> fwd t' k = Some p \<and> rev t' (s_reverse_key s) = Some p \<and>
    s_upstream_ip s = ip \<and> s_upstream_port s = po \<and> session_ok (gw t) s"
proof -
  obtain sn where new: "inv t'" "deref t' p = Some (new_session (gw t) k ip po sn now)"
    using mk_new [OF assms] fun_upd_same by metis
  show ?thesis
    by (intro exI [of _ "new_session (gw t) k ip po sn now"])
       (use live [OF new] new(2) in simp)
qed

end

interpretation snat: session_nat st_inv st_gateway_ip st_heap lookup_forward lookup_reverse create touch
proof (unfold_locales, goal_cases)
  case (1 t k p)
  then show ?case using st_inv_forward by (simp add: lookup_forward_def)
next
  case (2 t k p)
  then show ?case using st_inv_reverse by (simp add: lookup_reverse_def)
next
  case (3 t p s)
  then show ?case
    unfolding lookup_forward_def lookup_reverse_def st_inv_forward [OF 3(1)] st_inv_reverse [OF 3(1)]
    using st_inv_session [OF 3] by blast
next
  case (4 t k ip po now p t')
  note inv' = create_inv [OF 4] and fresh = st_inv_fresh [OF 4(1)]
  from 4(1,3) show ?case
  proof (cases rule: create_cases)
    case (created sn c fr ses)
    then show ?thesis using inv' fresh by auto
  qed simp
next
  case (5 t k ip po now t')
  note inv' = create_inv [OF 5]
  from 5(1,3) show ?case
  proof (cases rule: create_cases)
    case (exhausted c)
    then show ?thesis using inv' by simp
  qed simp
next
  case (6 t p s now)
  then show ?case using touch_eq [OF 6(2), of now] touch_inv [OF 6(1), of p now] by simp
qed

section \<open>Histories of the table\<close>

text \<open>
  The ways the gateway drives the table: a session is created only after a lookup of its flow
  has missed, it is touched through a pointer a lookup returned, and expiry runs at any time.
\<close>

inductive st_step :: "SessionTable \<Rightarrow> SessionTable \<Rightarrow> bool" where
  create: "lookup_forward st k = None \<Longrightarrow> create st k ip po now = (r, st') \<Longrightarrow> st_step st st'"
| touch_forward: "lookup_forward st k = Some p \<Longrightarrow> touch st (Some p) now = Some st' \<Longrightarrow> st_step st st'"
| touch_reverse: "lookup_reverse st k = Some p \<Longrightarrow> touch st (Some p) now = Some st' \<Longrightarrow> st_step st st'"
| expire: "expire st now = Some (n, st') \<Longrightarrow> st_step st st'"

inductive_cases st_stepE: "st_step st st'"

lemma expire_spec:
  assumes "st_inv st"
  shows "\<exists>st'. expire st now = Some (length (filter (idle st now) (st_sessions st)), st') \<and> swept now 0 st st'"
  using expire_loop_spec [OF assms, of now 0 0] by (simp add: expire_def)

lemma expire_swept: "st_inv st \<Longrightarrow> expire st now = Some (n, st') \<Longrightarrow> swept now 0 st st'"
  using expire_spec [of st now] by auto

lemma swept_heap:
  assumes "st_inv st" and "swept now 0 st st'"
  shows "st_heap st' p = (if idle st now p then None else st_heap st p)"
proof -
  have "p \<in> set (st_sessions st)" if "idle st now p"
    using that st_inv_sessions [OF assms(1)] by (auto simp: idle_def split: option.splits)
  then show ?thesis using assms(2) by (auto simp: swept_def)
qed

lemma create_config: "st_inv st \<Longrightarrow> create st k ip po now = (r, st') \<Longrightarrow> same_config st st'"
  by (erule (1) create_cases) (simp_all add: same_config_def)

lemma touch_config: "touch st (Some p) now = Some st' \<Longrightarrow> same_config st st'"
  by (auto simp: touch_def same_config_def split: option.splits)

lemma st_step_inv: "st_inv st \<Longrightarrow> st_step st st' \<Longrightarrow> st_inv st'"
  by (erule st_stepE) (auto intro: create_inv touch_inv dest: expire_swept simp: swept_def)

interpretation sess: kept_invariant st_step st_inv
  by unfold_locales (rule st_step_inv)

lemma st_step_config: "st_inv st \<Longrightarrow> st_step st st' \<Longrightarrow> same_config st st'"
  by (erule st_stepE) (auto intro: create_config touch_config dest: expire_swept simp: swept_def)

lemma in_pool_config: "same_config st st' \<Longrightarrow> in_pool st' q \<longleftrightarrow> in_pool st q"
  by (simp add: same_config_def in_pool_def)

lemma st_inv_pool: "st_inv st \<Longrightarrow> st_heap st p = Some s \<Longrightarrow> in_pool st (s_snat_port s)"
  using st_inv_port [of st "s_snat_port s"] by (auto simp: st_inv_def pool_inv_def)

text \<open>
  What a step of the table did, as its caller sees it: a session was opened for a flow and an
  upstream on a port, a flow was refused, a flow or the reply flow \<open>r\<close> of a session was refreshed, or
  \<open>n\<close> sessions were swept.
\<close>

datatype st_event =
    Opened FlowKey u32 u16 u16 u64
  | Refused FlowKey u64
  | Refreshed FlowKey u64
  | Answered FlowKey u64
  | Swept u64 nat

inductive st_does :: "SessionTable \<Rightarrow> st_event \<Rightarrow> SessionTable \<Rightarrow> bool" where
  opens: "lookup_forward st k = None \<Longrightarrow> create st k ip po now = (Some p, st') \<Longrightarrow> st_heap st' p = Some s \<Longrightarrow>
     st_does st (Opened k ip po (s_snat_port s) now) st'"
| refuses: "lookup_forward st k = None \<Longrightarrow> create st k ip po now = (None, st') \<Longrightarrow> st_does st (Refused k now) st'"
| refreshes: "lookup_forward st k = Some p \<Longrightarrow> touch st (Some p) now = Some st' \<Longrightarrow> st_does st (Refreshed k now) st'"
| answers: "lookup_reverse st k = Some p \<Longrightarrow> touch st (Some p) now = Some st' \<Longrightarrow> st_does st (Answered k now) st'"
| sweeps: "expire st now = Some (n, st') \<Longrightarrow> st_does st (Swept now n) st'"

lemma st_does_step: "st_does st e st' \<Longrightarrow> st_step st st'"
  by (induction rule: st_does.induct) (blast intro: st_step.intros)+

section \<open>Abstract specification: a partial map from flows to translations\<close>

text \<open>
  What the table promises, without pointers, indexes or a port cursor: a map from client flows
  to sessions, where a new flow gets a port of the pool that no other session holds.
\<close>

type_synonym nat_map = "FlowKey \<rightharpoonup> Session"

definition sess_abs :: "SessionTable \<Rightarrow> nat_map" where
  "sess_abs st k = (case lookup_forward st k of None \<Rightarrow> None | Some p \<Rightarrow> st_heap st p)"

text \<open>
  The event fixes the next map: which flow, which translation, which time. A flow goes away only
  in a sweep, and a sweep at time \<open>now\<close> removes exactly the flows that were idle for the timeout.
\<close>

definition nat_idle :: "u64 \<Rightarrow> nat_map \<Rightarrow> u64 \<Rightarrow> FlowKey set" where
  "nat_idle timeout m now = {k. \<exists>s. m k = Some s \<and> now - s_last_active_ms s \<ge> timeout}"

inductive nat_step :: "u32 \<Rightarrow> u64 \<Rightarrow> u16 set \<Rightarrow> nat_map \<Rightarrow> st_event \<Rightarrow> nat_map \<Rightarrow> bool"
  for gw :: u32 and timeout :: u64 and pool :: "u16 set" where
  opened: "m k = None \<Longrightarrow> sn \<in> pool \<Longrightarrow> \<forall>s \<in> ran m. s_snat_port s \<noteq> sn \<Longrightarrow>
     nat_step gw timeout pool m (Opened k ip po sn now) (m(k \<mapsto> new_session gw k ip po sn now))"
| refused: "m k = None \<Longrightarrow> \<forall>sn \<in> pool. \<exists>s \<in> ran m. s_snat_port s = sn \<Longrightarrow> nat_step gw timeout pool m (Refused k now) m"
| refreshed: "m k = Some s \<Longrightarrow> nat_step gw timeout pool m (Refreshed k now) (m(k \<mapsto> s\<lparr>s_last_active_ms := now\<rparr>))"
| answered: "m k = Some s \<Longrightarrow> s_reverse_key s = r \<Longrightarrow>
     nat_step gw timeout pool m (Answered r now) (m(k \<mapsto> s\<lparr>s_last_active_ms := now\<rparr>))"
| swept: "n = card (nat_idle timeout m now) \<Longrightarrow> nat_step gw timeout pool m (Swept now n) (m |` (- nat_idle timeout m now))"

lemma sess_abs_iff:
  assumes "st_inv st"
  shows "sess_abs st k = Some s \<longleftrightarrow> s_forward_key s = k \<and> (\<exists>p. st_heap st p = Some s)"
  unfolding sess_abs_def using snat.fwd_iff [OF assms, of k]
  by (auto split: option.splits) (metis option.distinct(1) option.inject)+

lemma ran_sess_abs: "st_inv st \<Longrightarrow> ran (sess_abs st) = {s. \<exists>p. st_heap st p = Some s}"
  by (auto simp: ran_def sess_abs_iff)

lemma sess_abs_heap_upd:
  assumes "st_inv st" "st_inv st'" and "st_heap st' = (st_heap st)(p \<mapsto> s)"
    and "st_heap st p = None \<and> sess_abs st (s_forward_key s) = None \<or>
      (\<exists>s0. st_heap st p = Some s0 \<and> s_forward_key s0 = s_forward_key s)"
  shows "sess_abs st' = (sess_abs st)(s_forward_key s \<mapsto> s)"
proof (rule map_eqI)
  fix k v
  have "p' = p" if "st_heap st p' = Some v" "s_forward_key v = s_forward_key s" for p'
    using assms(1,4) that snat.keys_unique [OF assms(1)] sess_abs_iff [OF assms(1)] by (metis option.distinct(1))
  then show "sess_abs st' k = Some v \<longleftrightarrow> ((sess_abs st)(s_forward_key s \<mapsto> s)) k = Some v"
    unfolding sess_abs_iff [OF assms(2)] assms(3) fun_upd_apply using assms(4) sess_abs_iff [OF assms(1)]
    by (metis option.distinct(1) option.inject)
qed

lemma sess_abs_none: "st_inv st \<Longrightarrow> sess_abs st k = None \<longleftrightarrow> lookup_forward st k = None"
  using snat.fwd_hit [of st k] by (auto simp: sess_abs_def split: option.splits)

lemma touch_refines:
  assumes inv: "st_inv st" and h: "st_heap st p = Some s" and t: "touch st (Some p) now = Some st'"
  shows "sess_abs st (s_forward_key s) = Some s"
    "sess_abs st' = (sess_abs st)(s_forward_key s \<mapsto> s\<lparr>s_last_active_ms := now\<rparr>)"
proof -
  have "st_heap st' = (st_heap st)(p \<mapsto> s\<lparr>s_last_active_ms := now\<rparr>)"
    using t touch_eq [OF h, of now] by auto
  then show "sess_abs st' = (sess_abs st)(s_forward_key s \<mapsto> s\<lparr>s_last_active_ms := now\<rparr>)"
    using sess_abs_heap_upd [OF inv touch_inv [OF inv t], of p "s\<lparr>s_last_active_ms := now\<rparr>"] h by simp
  show "sess_abs st (s_forward_key s) = Some s"
    using h by (auto simp: sess_abs_iff [OF inv])
qed

text \<open>The idle flows are those of the idle sessions, one flow for each.\<close>

lemma idle_flows:
  assumes inv: "st_inv st"
  shows "nat_idle (st_idle_timeout_ms st) (sess_abs st) now = (\<lambda>p. s_forward_key (the (st_heap st p))) ` {p. idle st now p}"
    "inj_on (\<lambda>p. s_forward_key (the (st_heap st p))) {p. idle st now p}"
proof -
  show "nat_idle (st_idle_timeout_ms st) (sess_abs st) now = (\<lambda>p. s_forward_key (the (st_heap st p))) ` {p. idle st now p}"
    unfolding nat_idle_def sess_abs_iff [OF inv] by (force simp: idle_def split: option.splits)
  show "inj_on (\<lambda>p. s_forward_key (the (st_heap st p))) {p. idle st now p}"
    by (rule inj_onI) (auto simp: idle_def split: option.splits dest: snat.keys_unique [OF inv])
qed

lemma expire_refines:
  assumes inv: "st_inv st" and ex: "expire st now = Some (n, st')"
  shows "nat_step gw (st_idle_timeout_ms st) pool (sess_abs st) (Swept now n) (sess_abs st')"
proof -
  note sw = expire_swept [OF inv ex]
  have inv': "st_inv st'" using sw by (simp add: swept_def)
  let ?I = "nat_idle (st_idle_timeout_ms st) (sess_abs st) now"
  have "sess_abs st' = sess_abs st |` (- ?I)"
  proof (rule map_eqI)
    fix k v
    have "sess_abs st' k = Some v \<longleftrightarrow> s_forward_key v = k \<and> (\<exists>p. st_heap st p = Some v \<and> \<not> idle st now p)"
      unfolding sess_abs_iff [OF inv'] swept_heap [OF inv sw] by auto
    also have "\<dots> \<longleftrightarrow> sess_abs st k = Some v \<and> \<not> now - s_last_active_ms v \<ge> st_idle_timeout_ms st"
      unfolding sess_abs_iff [OF inv] by (auto simp: idle_def)
    also have "\<dots> \<longleftrightarrow> (sess_abs st |` (- ?I)) k = Some v" by (auto simp: restrict_map_def nat_idle_def)
    finally show "sess_abs st' k = Some v \<longleftrightarrow> (sess_abs st |` (- ?I)) k = Some v" .
  qed
  moreover have "n = card ?I"
  proof -
    have "{p. idle st now p} = set (filter (idle st now) (st_sessions st))"
      using st_inv_sessions [OF inv] by (auto simp: idle_def split: option.splits)
    then have "card ?I = card (set (filter (idle st now) (st_sessions st)))"
      using idle_flows [OF inv, of now] card_image by metis
    also have "\<dots> = n"
      using expire_spec [OF inv, of now] ex st_inv_sessions [OF inv] by (subst distinct_card) auto
    finally show ?thesis by simp
  qed
  ultimately show ?thesis by (metis nat_step.swept)
qed

lemma create_refines:
  assumes inv: "st_inv st" and miss: "lookup_forward st k = None" and cr: "create st k ip po now = (r, st')"
    and ev: "e = (case r of None \<Rightarrow> Refused k now | Some p \<Rightarrow> Opened k ip po (s_snat_port (the (st_heap st' p))) now)"
  shows "nat_step (st_gateway_ip st) timeout {q. in_pool st q} (sess_abs st) e (sess_abs st')"
proof -
  have none: "sess_abs st k = None" using miss sess_abs_none [OF inv] by simp
  from inv cr show ?thesis
  proof (cases rule: create_cases)
    case (exhausted c)
    then have "sess_abs st' = sess_abs st" by (auto simp: sess_abs_def lookup_forward_def fun_eq_iff split: option.split)
    moreover have "\<forall>sn \<in> {q. in_pool st q}. \<exists>s \<in> ran (sess_abs st). s_snat_port s = sn"
      using exhausted(2) unfolding ran_sess_abs [OF inv] st_inv_port [OF inv] by blast
    ultimately show ?thesis using ev exhausted(1) none by (simp add: nat_step.refused)
  next
    case (created sn c fr ses)
    have "sess_abs st' = (sess_abs st)(k \<mapsto> ses)"
      using sess_abs_heap_upd [OF inv create_inv [OF inv miss cr], of "st_next_ptr st" ses] created none st_inv_fresh [OF inv] by simp
    moreover have "\<forall>s \<in> ran (sess_abs st). s_snat_port s \<noteq> sn"
      using created(3) unfolding ran_sess_abs [OF inv] st_inv_port [OF inv] by blast
    moreover have "e = Opened k ip po sn now" using ev created by simp
    ultimately show ?thesis
      using nat_step.opened [where m = "sess_abs st" and k = k and sn = sn] none created by simp
  qed
qed

lemma st_does_refines:
  assumes inv: "st_inv st" and step: "st_does st e st'"
  shows "nat_step (st_gateway_ip st) (st_idle_timeout_ms st) {q. in_pool st q} (sess_abs st) e (sess_abs st')"
  using step
proof (cases rule: st_does.cases)
  case (opens k ip po now p s)
  then show ?thesis using create_refines [OF inv opens(2,3)] by simp
next
  case (refuses k ip po now)
  then show ?thesis using create_refines [OF inv refuses(2,3)] by simp
next
  case (refreshes k p now)
  then obtain s where s: "st_heap st p = Some s" "s_forward_key s = k" using snat.fwd_hit [OF inv] by blast
  then show ?thesis
    using touch_refines [OF inv s(1) refreshes(3)] nat_step.refreshed [of "sess_abs st" k s] refreshes(1) by simp
next
  case (answers k p now)
  then obtain s where s: "st_heap st p = Some s" "s_reverse_key s = k" using snat.rev_hit [OF inv] by blast
  then show ?thesis
    using touch_refines [OF inv s(1) answers(3)] nat_step.answered [of "sess_abs st" "s_forward_key s" s k] answers(1) by simp
next
  case (sweeps now n)
  then show ?thesis using expire_refines [OF inv] by simp
qed

text \<open>Tables that began with the configuration of \<open>st0\<close> implement the map over its pool, event by event.\<close>

interpretation nat_sim: simulation st_does "\<lambda>st. st_inv st \<and> same_config st0 st" sess_abs
  "nat_step (st_gateway_ip st0) (st_idle_timeout_ms st0) {q. in_pool st0 q}" "\<lambda>e es. es = [e]" for st0
proof (unfold_locales, goal_cases)
  case (1 s s')
  then show ?case using st_step_inv [of s s'] st_step_config [of s s'] st_does_step by (auto simp: same_config_def)
next
  case (2 s l s')
  then have "in_pool s = in_pool st0" using in_pool_config [of st0 s] by (simp add: fun_eq_iff)
  with 2 show ?case
    using st_does_refines [of s l s'] by (auto simp: same_config_def)
qed

lemma list_all2_singletons: "list_all2 (\<lambda>e es. es = [e]) xs yss \<longleftrightarrow> yss = map (\<lambda>e. [e]) xs"
  by (induction xs arbitrary: yss) (auto simp: list_all2_Cons1)

section \<open>Properties\<close>

text \<open>A table with a pool of two ports, and three client flows.\<close>

definition ex_table :: SessionTable where
  "ex_table = session_table 0x0100000a 60000 10000 10002"

definition ex_flow :: "u16 \<Rightarrow> FlowKey" where
  "ex_flow p = \<lparr>fk_src_ip = 0x0900000a, fk_dst_ip = 0x6401a8c0, fk_src_port = p, fk_dst_port = 53,
     fk_proto = 17\<rparr>"

lemma ex_table_inv: "st_inv ex_table"
  by (simp add: ex_table_def st_inv_init)

lemma alloc_scan_hit:
  "0 < n \<Longrightarrow> \<not> st_port_in_use st (st_snat_next st) \<Longrightarrow> alloc_scan n st = (st_snat_next st,
     st\<lparr>st_snat_next := next_port st (st_snat_next st), st_port_in_use := (st_port_in_use st)(st_snat_next st := True)\<rparr>)"
  by (cases n) (simp_all add: next_port_def Let_def)

lemma alloc_scan_numeral [eval_simps]:
  "alloc_scan (numeral n) st = alloc_scan (Suc (pred_numeral n)) st"
  by (simp only: numeral_eq_Suc)

lemmas [eval_simps] = Let_def ex_table_def ex_flow_def session_table_def create_def alloc_snat_port_def
  snat_tries_def lookup_forward_def lookup_reverse_def new_session_def

lemma ex_table_simps:
  "st_heap ex_table = Map.empty" "st_forward ex_table = Map.empty" "st_sessions ex_table = []"
  by (simp_all add: ex_table_def session_table_def)

lemma ex_create: "st_step ex_table (snd (create ex_table (ex_flow 5000) 0x0200000a 53 0))"
  by (rule st_step.create [of _ "ex_flow 5000" "0x0200000a" 53 0, OF _ prod.collapse [symmetric]])
     (simp add: lookup_forward_def ex_table_simps)

text \<open>
  C8: in every state the gateway can bring the table to from a pool with \<open>0 < begin < end\<close>,
  both indexes hold only live pointers, each live session is found under its forward and its
  reverse key, its SNAT port is a port of the pool, and no other live session has that port,
  that forward key or that reverse key.
\<close>

theorem session_table_consistent:
  assumes "0 < b" "b < e" and "st_step\<^sup>*\<^sup>* (session_table gw tmo b e) st"
  shows "(\<forall>k p. lookup_forward st k = Some p \<or> lookup_reverse st k = Some p \<longrightarrow> p \<in> dom (st_heap st)) \<and>
    (\<forall>p s. st_heap st p = Some s \<longrightarrow>
       lookup_forward st (s_forward_key s) = Some p \<and> lookup_reverse st (s_reverse_key s) = Some p \<and>
       in_pool st (s_snat_port s) \<and>
       (\<forall>q s'. q \<noteq> p \<and> st_heap st q = Some s' \<longrightarrow> s_snat_port s' \<noteq> s_snat_port s \<and>
          s_forward_key s' \<noteq> s_forward_key s \<and> s_reverse_key s' \<noteq> s_reverse_key s))"
proof -
  have inv: "st_inv st"
    using sess.run_keeps [OF assms(3) st_inv_init] assms(1,2) by blast
  have "\<And>k p. lookup_forward st k = Some p \<or> lookup_reverse st k = Some p \<Longrightarrow> p \<in> dom (st_heap st)"
    using snat.fwd_hit [OF inv] snat.rev_hit [OF inv] by blast
  moreover have "\<And>p s q s'. st_heap st p = Some s \<Longrightarrow> q \<noteq> p \<Longrightarrow> st_heap st q = Some s' \<Longrightarrow>
     s_snat_port s' \<noteq> s_snat_port s \<and> s_forward_key s' \<noteq> s_forward_key s \<and> s_reverse_key s' \<noteq> s_reverse_key s"
    using st_inv_port_inj [OF inv] snat.keys_unique [OF inv] by blast
  moreover note snat.live [OF inv] st_inv_pool [OF inv]
  ultimately show ?thesis by blast
qed

theorem session_table_consistent_witness:
  "lookup_forward (snd (create ex_table (ex_flow 5000) 0x0200000a 53 0)) (ex_flow 5000) \<noteq> None \<and>
   the (lookup_forward (snd (create ex_table (ex_flow 5000) 0x0200000a 53 0)) (ex_flow 5000)) \<in>
     dom (st_heap (snd (create ex_table (ex_flow 5000) 0x0200000a 53 0)))"
proof -
  have "lookup_forward (snd (create ex_table (ex_flow 5000) 0x0200000a 53 0)) (ex_flow 5000) = Some 0"
    by (simp add: eval_simps)
  then show ?thesis
    using session_table_consistent [of 10000 10002 "0x0100000a" 60000
        "snd (create ex_table (ex_flow 5000) 0x0200000a 53 0)"] ex_create
    unfolding ex_table_def by (auto simp: r_into_rtranclp)
qed

text \<open>
  C17: \<open>create\<close> answers null exactly when every port of the pool is held by a live session,
  wherever the cursor of the scan stands and whatever ports were freed before.
\<close>

theorem create_fails_iff_exhausted:
  assumes "st_inv st"
  shows "fst (create st k ip po now) = None \<longleftrightarrow>
    (\<forall>q. in_pool st q \<longrightarrow> (\<exists>p s. st_heap st p = Some s \<and> s_snat_port s = q))"
proof -
  obtain r st' where cr: "create st k ip po now = (r, st')" by fastforce
  have "r = None \<longleftrightarrow> (\<forall>q. in_pool st q \<longrightarrow> st_port_in_use st q)"
    using assms cr by (cases rule: create_cases) auto
  then show ?thesis
    unfolding st_inv_port [OF assms] by (simp add: cr)
qed

theorem create_fails_iff_exhausted_witness:
  "fst (create ex_table (ex_flow 5000) 0x0200000a 53 0) \<noteq> None"
proof -
  have "in_pool ex_table 10000" by (simp add: in_pool_def ex_table_def session_table_def)
  then show ?thesis
    using create_fails_iff_exhausted [OF ex_table_inv, of "ex_flow 5000" "0x0200000a" 53 0]
    by (auto simp: ex_table_simps)
qed

text \<open>
  After a successful \<open>create\<close> for a flow that was not in the table, the flow finds the
  new session, the replies of its upstream to the gateway's SNAT port find the same session,
  the session records the flow and the upstream, and every other flow finds what it found
  before.
\<close>

theorem create_then_lookup:
  assumes inv: "st_inv st" and miss: "lookup_forward st k = None"
    and cr: "create st k ip po now = (Some p, st')"
  shows "\<exists>sn. st_heap st' p = Some (new_session (st_gateway_ip st) k ip po sn now) \<and>
    lookup_forward st' k = Some p \<and>
    lookup_reverse st' \<lparr>fk_src_ip = ip, fk_dst_ip = st_gateway_ip st, fk_src_port = po,
      fk_dst_port = sn, fk_proto = fk_proto k\<rparr> = Some p \<and>
    (\<forall>k'. k' \<noteq> k \<longrightarrow> lookup_forward st' k' = lookup_forward st k')"
  using inv cr
proof (cases rule: create_cases)
  case (created sn c fr ses)
  then show ?thesis
    by (intro exI [of _ sn]) (simp add: lookup_forward_def lookup_reverse_def new_session_def)
qed simp

theorem create_then_lookup_witness:
  "\<exists>sn. lookup_reverse (snd (create ex_table (ex_flow 5000) 0x0200000a 53 0))
     \<lparr>fk_src_ip = 0x0200000a, fk_dst_ip = 0x0100000a, fk_src_port = 53, fk_dst_port = sn, fk_proto = 17\<rparr> = Some 0"
  using create_then_lookup [OF ex_table_inv, of "ex_flow 5000" "0x0200000a" 53 0 0
      "snd (create ex_table (ex_flow 5000) 0x0200000a 53 0)"]
  by (auto simp: eval_simps)

text \<open>
  C16: \<open>expire\<close> terminates without touching a freed session, returns the number of idle
  sessions, removes exactly those and keeps the others in their order; afterwards a removed
  flow misses, and the SNAT port of a removed session is free again.
\<close>

theorem expire_exact:
  assumes inv: "st_inv st"
  shows "\<exists>st'. expire st now = Some (length (filter (idle st now) (st_sessions st)), st') \<and>
    st_sessions st' = filter (\<lambda>p. \<not> idle st now p) (st_sessions st) \<and>
    (\<forall>p. st_heap st' p = (if idle st now p then None else st_heap st p)) \<and>
    (\<forall>p s. st_heap st p = Some s \<and> idle st now p \<longrightarrow>
       lookup_forward st' (s_forward_key s) = None \<and> \<not> st_port_in_use st' (s_snat_port s))"
proof -
  obtain st' where ex: "expire st now = Some (length (filter (idle st now) (st_sessions st)), st')"
    and sw: "swept now 0 st st'" using expire_spec [OF inv] by blast
  have inv': "st_inv st'" using sw by (simp add: swept_def)
  note heap = swept_heap [OF inv sw]
  have "lookup_forward st' (s_forward_key s) = None \<and> \<not> st_port_in_use st' (s_snat_port s)"
    if "st_heap st p = Some s" "idle st now p" for p s
  proof
    show "lookup_forward st' (s_forward_key s) = None"
      using snat.fwd_hit [OF inv'] snat.keys_unique [OF inv that(1)] that(2) heap
      by (metis not_None_eq option.distinct(1))
    show "\<not> st_port_in_use st' (s_snat_port s)"
      unfolding st_inv_port [OF inv'] heap
      using st_inv_port_inj [OF inv that(1)] that(2) by (metis option.distinct(1))
  qed
  with ex heap sw show ?thesis by (auto simp: swept_def)
qed

theorem expire_exact_witness:
  "\<exists>st1 st2. create ex_table (ex_flow 5000) 0x0200000a 53 0 = (Some 0, st1) \<and>
     expire st1 60000 = Some (1, st2) \<and> st_sessions st2 = [] \<and> \<not> st_port_in_use st2 10000 \<and>
     lookup_forward st2 (ex_flow 5000) = None"
proof -
  define st1 where "st1 = snd (create ex_table (ex_flow 5000) 0x0200000a 53 0)"
  let ?s = "new_session 0x0100000a (ex_flow 5000) 0x0200000a 53 10000 0"
  have cr: "create ex_table (ex_flow 5000) 0x0200000a 53 0 = (Some 0, st1)" "st_sessions st1 = [0]"
    "st_heap st1 0 = Some ?s" "st_idle_timeout_ms st1 = 60000"
    by (simp_all add: st1_def eval_simps)
  have miss: "lookup_forward ex_table (ex_flow 5000) = None" by (simp add: lookup_forward_def ex_table_simps)
  have idle: "idle st1 60000 0" using cr(3,4) by (simp add: idle_def new_session_def)
  have "s_forward_key ?s = ex_flow 5000" "s_snat_port ?s = 10000" by (simp_all add: new_session_def)
  then show ?thesis
    using expire_exact [OF create_inv [OF ex_table_inv miss cr(1)], of 60000] cr idle by fastforce
qed

text \<open>
  C9: the table with its heap, its two hash indexes, its free list and its port cursor
  implements the abstract map, event by event: what was done to the table, in order and with the
  same ports, times and numbers of removed sessions, is a history of the map from flows to
  translations, which ends in the flows of the table. In that history a new flow gets a port of
  the pool that no other flow holds, a creation is refused only when all are held, and a flow
  leaves the map only in a sweep at whose time it was idle for the timeout.
\<close>

theorem session_table_refines_map:
  assumes "0 < b" "b < e" and "history st_does (session_table gw tmo b e) evs st"
  shows "history (nat_step gw tmo {q. b \<le> q \<and> q < e}) Map.empty evs (sess_abs st)"
proof -
  let ?t = "session_table gw tmo b e"
  have "st_inv ?t \<and> same_config ?t ?t" using st_inv_init assms(1,2) by (simp add: same_config_def)
  note run = nat_sim.run_simulated [OF assms(3) this]
  have "st_gateway_ip ?t = gw" "st_idle_timeout_ms ?t = tmo" "{q. in_pool ?t q} = {q. b \<le> q \<and> q < e}"
    using assms(2) by (auto simp: session_table_def in_pool_def)
  with run have "history (nat_step gw tmo {q. b \<le> q \<and> q < e}) (sess_abs ?t) evs (sess_abs st)"
    by (auto simp: list_all2_singletons)
  moreover have "sess_abs ?t = Map.empty" by (simp add: fun_eq_iff sess_abs_def lookup_forward_def session_table_def)
  ultimately show ?thesis by simp
qed

text \<open>A session is opened at time 0, a sweep just before its timeout keeps it, and one at the timeout removes it.\<close>

lemma ex_history:
  "\<exists>st1 st2 st3. history st_does ex_table [Opened (ex_flow 5000) 0x0200000a 53 10000 0] st1 \<and>
     st_does st1 (Swept 59999 0) st2 \<and> st_does st2 (Swept 60000 1) st3 \<and> st_inv st1"
proof -
  define st1 where "st1 = snd (create ex_table (ex_flow 5000) 0x0200000a 53 0)"
  have cr: "create ex_table (ex_flow 5000) 0x0200000a 53 0 = (Some 0, st1)" "st_sessions st1 = [0]"
    "st_heap st1 0 = Some (new_session 0x0100000a (ex_flow 5000) 0x0200000a 53 10000 0)" "st_idle_timeout_ms st1 = 60000"
    by (simp_all add: st1_def eval_simps)
  have miss: "lookup_forward ex_table (ex_flow 5000) = None" by (simp add: lookup_forward_def ex_table_simps)
  have inv1: "st_inv st1" by (rule create_inv [OF ex_table_inv miss cr(1)])
  have o1: "st_does ex_table (Opened (ex_flow 5000) 0x0200000a 53 10000 0) st1"
    using st_does.opens [OF miss cr(1,3)] by (simp add: new_session_def)
  have idle: "\<not> idle st1 59999 0" using cr(3,4) by (simp add: idle_def new_session_def)
  obtain st2 where st2: "expire st1 59999 = Some (0, st2)" "swept 59999 0 st1 st2"
    using expire_spec [OF inv1, of 59999] cr(2) idle by auto
  have inv2: "st_inv st2" "st_sessions st2 = [0]" "st_heap st2 0 = st_heap st1 0" "st_idle_timeout_ms st2 = 60000"
    using st2(2) swept_heap [OF inv1 st2(2), of 0] cr(2,4) idle by (simp_all add: swept_def same_config_def)
  have "idle st2 60000 0" using inv2(3,4) cr(3) by (simp add: idle_def new_session_def)
  then obtain st3 where "expire st2 60000 = Some (1, st3)"
    using expire_spec [OF inv2(1), of 60000] inv2(2) by auto
  then show ?thesis using o1 st2(1) inv1 st_does.sweeps by (metis history_one)
qed

theorem session_table_refines_map_witness:
  "\<exists>st. history (nat_step 0x0100000a 60000 {q. 10000 \<le> q \<and> q < 10002}) Map.empty
     [Opened (ex_flow 5000) 0x0200000a 53 10000 0, Swept 59999 0, Swept 60000 1] (sess_abs st)"
proof -
  obtain st1 st2 st3 where "history st_does ex_table [Opened (ex_flow 5000) 0x0200000a 53 10000 0] st1"
    "st_does st1 (Swept 59999 0) st2" "st_does st2 (Swept 60000 1) st3"
    using ex_history by blast
  then have "history st_does ex_table [Opened (ex_flow 5000) 0x0200000a 53 10000 0, Swept 59999 0, Swept 60000 1] st3"
    by (auto simp: history_cons)
  then show ?thesis
    using session_table_refines_map [of 10000 10002 "0x0100000a" 60000 _ st3] unfolding ex_table_def by auto
qed

text \<open>
  With a pool that begins at port 0 the first \<open>create\<close> fails although no port is in
  use: the scan hands out port 0, which the caller reads as exhaustion, and the port stays
  marked as used.
\<close>

theorem port_zero_pool_fails_first:
  assumes "0 < e"
  shows "fst (create (session_table gw tmo 0 e) k ip po now) = None \<and>
    st_port_in_use (snd (create (session_table gw tmo 0 e) k ip po now)) 0"
proof -
  have "snat_tries (session_table gw tmo 0 e) = unat e"
    using assms snat_tries_eq [of "session_table gw tmo 0 e"] by (simp add: session_table_def)
  moreover obtain n where "unat e = Suc n"
    using assms by (metis not0_implies_Suc unat_0_iff word_neq_0_conv)
  ultimately show ?thesis
    by (simp add: create_def alloc_snat_port_def session_table_def Let_def)
qed

theorem port_zero_pool_fails_first_witness:
  "fst (create (session_table 0x0100000a 60000 0 60000) (ex_flow 5000) 0x0200000a 53 0) = None"
  using port_zero_pool_fails_first [of 60000] by simp

end
