(* ===== verification/Upstream.thy ===== *)
theory Upstream
  imports Session "HOL-Library.Multiset"
begin

text \<open>
  The upstream table of \<open>src/src/upstream.hpp\<close> and \<open>upstream.cpp\<close>: whole-table
  replacement, the balance policy and the selection of an upstream for a new flow. The
  published snapshot is an immutable list behind an atomic pointer that is never null; \<open>pick\<close>
  loads it once. The round-robin counter is the only state \<open>pick\<close> changes.
\<close>

section \<open>State and operations\<close>

record UpstreamEndpoint =
  ue_ip_be :: u32
  ue_port :: u16

datatype BalancePolicy = policy_mod | policy_rr

record UpstreamTable =
  ut_policy :: BalancePolicy
  ut_nodes :: "UpstreamEndpoint list"
  ut_rr_counter :: u64

definition upstream_table :: UpstreamTable where
  "upstream_table = \<lparr>ut_policy = policy_mod, ut_nodes = [], ut_rr_counter = 0\<rparr>"

definition ut_set :: "UpstreamTable \<Rightarrow> UpstreamEndpoint list \<Rightarrow> UpstreamTable" where
  "ut_set t endpoints = t\<lparr>ut_nodes := endpoints\<rparr>"

definition set_policy :: "UpstreamTable \<Rightarrow> BalancePolicy \<Rightarrow> UpstreamTable" where
  "set_policy t policy = t\<lparr>ut_policy := policy\<rparr>"

definition hash_key :: "FlowKey \<Rightarrow> u32" where
  "hash_key key =
     (let h = fk_src_ip key;
          h = h XOR (ucast (fk_src_port key) * 0x9e3779b9);
          h = h XOR drop_bit 16 h;
          h = h * 0x85ebca6b
      in h XOR drop_bit 13 h)"

text \<open>
  \<open>n\<close> is a \<open>size_t\<close>; a vector has fewer than \<open>2 ^ 64\<close> elements, so the remainder on
  \<open>nat\<close> is the remainder on the machine words.
\<close>

definition pick :: "UpstreamTable \<Rightarrow> FlowKey \<Rightarrow> UpstreamEndpoint option \<times> UpstreamTable" where
  "pick t key =
     (let snap = ut_nodes t
      in if snap = [] then (None, t)
         else let n = length snap
              in case ut_policy t of
                   policy_rr \<Rightarrow> (Some (snap ! (unat (ut_rr_counter t) mod n)),
                                 t\<lparr>ut_rr_counter := ut_rr_counter t + 1\<rparr>)
                 | policy_mod \<Rightarrow> (Some (snap ! (unat (hash_key key) mod n)), t))"

definition ut_size :: "UpstreamTable \<Rightarrow> nat" where
  "ut_size t = length (ut_nodes t)"

section \<open>The interface the forwarder relies on\<close>

text \<open>
  A picker chooses among the published members, chooses one whenever there is one, and leaves
  the membership alone.
\<close>

locale upstream_picker =
  fixes sel :: "'u \<Rightarrow> FlowKey \<Rightarrow> UpstreamEndpoint option \<times> 'u"
    and members :: "'u \<Rightarrow> UpstreamEndpoint list"
  assumes sel_member: "fst (sel u k) = Some e \<Longrightarrow> e \<in> set (members u)"
    and sel_total: "members u \<noteq> [] \<Longrightarrow> fst (sel u k) \<noteq> None"
    and sel_members: "members (snd (sel u k)) = members u"
begin

primrec sel_all :: "'u \<Rightarrow> FlowKey list \<Rightarrow> UpstreamEndpoint option list" where
  "sel_all u [] = []"
| "sel_all u (k # ks) = fst (sel u k) # sel_all (snd (sel u k)) ks"

lemma sel_none_iff: "fst (sel u k) = None \<longleftrightarrow> members u = []"
  using sel_member [of u k] sel_total [of u k]
  by (metis empty_iff list.set(1) not_None_eq)

lemma sel_all_members: "Some e \<in> set (sel_all u ks) \<Longrightarrow> e \<in> set (members u)"
proof (induction ks arbitrary: u)
  case (Cons k ks)
  from Cons.prems consider "fst (sel u k) = Some e" | "Some e \<in> set (sel_all (snd (sel u k)) ks)"
    by auto
  then show ?case
    by cases (auto simp: sel_members dest: sel_member Cons.IH)
qed simp

end

interpretation ut: upstream_picker pick ut_nodes
  by unfold_locales (auto simp: pick_def Let_def split: if_splits BalancePolicy.splits)

section \<open>Round robin\<close>

primrec pick_run :: "UpstreamTable \<Rightarrow> FlowKey list \<Rightarrow> UpstreamEndpoint option list" where
  "pick_run t [] = []"
| "pick_run t (k # ks) = fst (pick t k) # pick_run (snd (pick t k)) ks"

lemma length_pick_run [simp]: "length (pick_run t ks) = length ks"
  by (induction ks arbitrary: t) simp_all

lemma pick_rr:
  assumes "ut_policy t = policy_rr" and "ut_nodes t \<noteq> []"
  shows "pick t k = (Some (ut_nodes t ! (unat (ut_rr_counter t) mod length (ut_nodes t))),
    t\<lparr>ut_rr_counter := ut_rr_counter t + 1\<rparr>)"
  using assms by (simp add: pick_def Let_def)

lemma pick_run_rr:
  assumes "ut_policy t = policy_rr" "ut_nodes t \<noteq> []"
    and "unat (ut_rr_counter t) + length ks \<le> 2 ^ 64" and "i < length ks"
  shows "pick_run t ks ! i =
    Some (ut_nodes t ! ((unat (ut_rr_counter t) + i) mod length (ut_nodes t)))"
  using assms
proof (induction ks arbitrary: t i)
  case (Cons k ks)
  show ?case
  proof (cases i)
    case 0
    then show ?thesis by (simp add: pick_rr [OF Cons.prems(1,2)])
  next
    case (Suc j)
    let ?t = "t\<lparr>ut_rr_counter := ut_rr_counter t + 1\<rparr>"
    have "unat (ut_rr_counter t) + 1 < 2 ^ 64"
      using Cons.prems(3,4) Suc by simp
    then have c: "unat (ut_rr_counter ?t) = unat (ut_rr_counter t) + 1"
      by (simp add: unat_word_ariths)
    then have "pick_run ?t ks ! j = Some (ut_nodes t ! ((unat (ut_rr_counter t) + 1 + j) mod length (ut_nodes t)))"
      using Cons.IH [of ?t j] Cons.prems Suc by simp
    then show ?thesis by (simp add: Suc pick_rr [OF Cons.prems(1,2)])
  qed
qed simp

text \<open>A full turn of a cyclic counter visits every position once.\<close>

lemma mset_turn:
  assumes "xs \<noteq> []"
  shows "mset (map (\<lambda>i. xs ! ((c + i) mod length xs)) [0..<length xs]) = mset xs"
proof -
  have "map (\<lambda>i. xs ! ((c + i) mod length xs)) [0..<length xs] = rotate c xs"
    using assms by (intro nth_equalityI) (simp_all add: nth_rotate add.commute)
  moreover have "mset (rotate c xs) = mset xs"
    by (metis append_take_drop_id mset_append rotate_drop_take union_commute)
  ultimately show ?thesis by simp
qed

section \<open>Properties\<close>

definition ex_endpoints :: "UpstreamEndpoint list" where
  "ex_endpoints = [\<lparr>ue_ip_be = 0x0100000a, ue_port = 53\<rparr>, \<lparr>ue_ip_be = 0x0200000a, ue_port = 53\<rparr>,
     \<lparr>ue_ip_be = 0x0300000a, ue_port = 5353\<rparr>]"

text \<open>
  C22: under round robin every window of as many picks as there are endpoints serves each
  endpoint exactly as often as it is listed, wherever the counter stands and whatever flows
  ask, as long as the 64-bit counter does not wrap inside the window.
\<close>

theorem round_robin_fair:
  assumes "ut_policy t = policy_rr" "ut_nodes t \<noteq> []"
    and "unat (ut_rr_counter t) + length ks \<le> 2 ^ 64" and "length ks = length (ut_nodes t)"
  shows "mset (pick_run t ks) = mset (map Some (ut_nodes t))"
proof -
  have "pick_run t ks = map Some (map (\<lambda>i. ut_nodes t !
      ((unat (ut_rr_counter t) + i) mod length (ut_nodes t))) [0..<length (ut_nodes t)])"
    using assms(4) pick_run_rr [OF assms(1-3)] by (intro nth_equalityI) simp_all
  then show ?thesis
    using mset_turn [OF assms(2), of "unat (ut_rr_counter t)"] by (metis mset_map)
qed

theorem round_robin_fair_witness:
  "mset (pick_run (set_policy (ut_set upstream_table ex_endpoints) policy_rr)
      [ex_flow 1, ex_flow 1, ex_flow 2]) = mset (map Some ex_endpoints)"
  using round_robin_fair [of "set_policy (ut_set upstream_table ex_endpoints) policy_rr"
      "[ex_flow 1, ex_flow 1, ex_flow 2]"]
  by (simp add: set_policy_def ut_set_def upstream_table_def ex_endpoints_def)

text \<open>
  Under the \<open>mod\<close> policy the choice depends only on the client's address and port: any
  two picks for the same client endpoint agree, between any number of other picks, until the
  table is replaced; and every pick is a published endpoint.
\<close>

theorem mod_policy_sticky:
  assumes "ut_policy t = policy_mod" and "fk_src_ip k = fk_src_ip k'" "fk_src_port k = fk_src_port k'"
  shows "fst (pick (foldl (\<lambda>u q. snd (pick u q)) t ks) k') = fst (pick t k) \<and>
    (fst (pick t k) = None \<longleftrightarrow> ut_nodes t = []) \<and> (\<forall>e. fst (pick t k) = Some e \<longrightarrow> e \<in> set (ut_nodes t))"
proof -
  have "foldl (\<lambda>u q. snd (pick u q)) t ks = t"
    using assms(1) by (induction ks) (simp_all add: pick_def Let_def)
  moreover have "hash_key k' = hash_key k"
    using assms(2,3) by (simp add: hash_key_def)
  ultimately show ?thesis
    using ut.sel_none_iff [of t k] ut.sel_member [of t k] assms(1) by (auto simp: pick_def Let_def)
qed

theorem mod_policy_sticky_witness:
  "fst (pick (foldl (\<lambda>u q. snd (pick u q)) (ut_set upstream_table ex_endpoints) [ex_flow 7])
      (ex_flow 9\<lparr>fk_dst_port := 99\<rparr>)) = fst (pick (ut_set upstream_table ex_endpoints) (ex_flow 9))"
  using mod_policy_sticky [of "ut_set upstream_table ex_endpoints" "ex_flow 9" "ex_flow 9\<lparr>fk_dst_port := 99\<rparr>" "[ex_flow 7]"]
  by (simp add: ut_set_def upstream_table_def)

end
