(* ===== verification/CpShm.thy ===== *)
theory CpShm
  imports Upstream
begin

text \<open>
  The control-plane segment of \<open>src/src/cp_shm.hpp\<close>, \<open>cp_shm.cpp\<close> and the shared layout
  \<open>vgw_cp_shm.h\<close>. A publish is the list of its stores in program order, the version last; a
  poll is a function of the memory as each of its loads finds it, so that any interleaving of
  a poll with stores of the control plane is an argument of the model. The system calls of
  \<open>open\<close> are parameters: their results are given, and the calls made are recorded.
\<close>

section \<open>Layout\<close>

abbreviation (input) "VGW_CP_SHM_MAGIC \<equiv> (0x56475743::u32)"
abbreviation (input) "VGW_CP_SHM_MAX_EP \<equiv> (64::nat)"
abbreviation (input) "VGW_CP_POLICY_MOD \<equiv> (0::u8)"
abbreviation (input) "VGW_CP_POLICY_RR \<equiv> (1::u8)"

record vgw_cp_endpoint =
  ce_ip_be :: u32
  ce_port :: u16
  ce_pad :: u16

record vgw_cp_shm =
  cs_magic :: u32
  cs_version :: u32
  cs_policy :: u8
  cs_flags :: u8
  cs_count :: u16
  cs_endpoints :: "vgw_cp_endpoint list"

record CpShmSeed =
  seed_policy :: BalancePolicy
  seed_endpoints :: "UpstreamEndpoint list"

definition zero_ep :: vgw_cp_endpoint where
  "zero_ep = \<lparr>ce_ip_be = 0, ce_port = 0, ce_pad = 0\<rparr>"

text \<open>The array of the struct has its fixed length.\<close>

definition shm_ok :: "vgw_cp_shm \<Rightarrow> bool" where
  "shm_ok h \<longleftrightarrow> length (cs_endpoints h) = VGW_CP_SHM_MAX_EP"

section \<open>Publishing\<close>

datatype cp_store =
    StPolicy u8 | StFlags u8 | StCount u16
  | StEpIp nat u32 | StEpPort nat u16 | StEpPad nat u16 | StEpClear nat
  | StVersion u32

definition upd_ep :: "nat \<Rightarrow> (vgw_cp_endpoint \<Rightarrow> vgw_cp_endpoint) \<Rightarrow> vgw_cp_shm \<Rightarrow> vgw_cp_shm" where
  "upd_ep i f h = h\<lparr>cs_endpoints := (cs_endpoints h)[i := f (cs_endpoints h ! i)]\<rparr>"

fun cp_apply :: "vgw_cp_shm \<Rightarrow> cp_store \<Rightarrow> vgw_cp_shm" where
  "cp_apply h (StPolicy p) = h\<lparr>cs_policy := p\<rparr>"
| "cp_apply h (StFlags x) = h\<lparr>cs_flags := x\<rparr>"
| "cp_apply h (StCount n) = h\<lparr>cs_count := n\<rparr>"
| "cp_apply h (StEpIp i ip) = upd_ep i (\<lambda>e. e\<lparr>ce_ip_be := ip\<rparr>) h"
| "cp_apply h (StEpPort i po) = upd_ep i (\<lambda>e. e\<lparr>ce_port := po\<rparr>) h"
| "cp_apply h (StEpPad i x) = upd_ep i (\<lambda>e. e\<lparr>ce_pad := x\<rparr>) h"
| "cp_apply h (StEpClear i) = upd_ep i (\<lambda>_. zero_ep) h"
| "cp_apply h (StVersion v) = h\<lparr>cs_version := v\<rparr>"

definition policy_code :: "BalancePolicy \<Rightarrow> u8" where
  "policy_code p = (case p of policy_mod \<Rightarrow> VGW_CP_POLICY_MOD | policy_rr \<Rightarrow> VGW_CP_POLICY_RR)"

text \<open>The number of endpoints written: the size cut to 16 bits first, then to the capacity.\<close>

definition seed_count :: "CpShmSeed \<Rightarrow> u16" where
  "seed_count seed =
     (let n = (word_of_nat (length (seed_endpoints seed)) :: u16)
      in if n > 64 then 64 else n)"

definition ep_stores :: "CpShmSeed \<Rightarrow> nat \<Rightarrow> cp_store list" where
  "ep_stores seed i =
     [StEpIp i (ue_ip_be (seed_endpoints seed ! i)), StEpPort i (ue_port (seed_endpoints seed ! i)),
      StEpPad i 0]"

definition seed_stores :: "CpShmSeed \<Rightarrow> u32 \<Rightarrow> cp_store list" where
  "seed_stores seed version =
     (let n = unat (seed_count seed) in
      [StPolicy (policy_code (seed_policy seed)), StFlags 0, StCount (seed_count seed)] @
      concat (map (ep_stores seed) [0..<n]) @ map StEpClear [n..<VGW_CP_SHM_MAX_EP] @
      [StVersion version])"

definition write_seed_unlocked :: "vgw_cp_shm \<Rightarrow> CpShmSeed \<Rightarrow> u32 \<Rightarrow> vgw_cp_shm" where
  "write_seed_unlocked hdr seed version = foldl cp_apply hdr (seed_stores seed version)"

definition next_version :: "vgw_cp_shm \<Rightarrow> u32" where
  "next_version hdr = (let next = cs_version hdr + 1 in if next = 0 then 1 else next)"

definition publish :: "vgw_cp_shm \<Rightarrow> CpShmSeed \<Rightarrow> vgw_cp_shm" where
  "publish hdr seed = write_seed_unlocked hdr seed (next_version hdr)"

section \<open>Polling\<close>

text \<open>
  The loads of a poll are numbered in program order: 0 the magic, 1 the version, 2 the policy,
  3 the count, then address and port of each endpoint, and last the version again; \<open>mem l\<close> is
  the segment as load \<open>l\<close> finds it. The last applied version and the table are passed and
  returned.
\<close>

definition poll_apply ::
    "(nat \<Rightarrow> vgw_cp_shm) option \<Rightarrow> u32 \<Rightarrow> UpstreamTable option \<Rightarrow> bool \<times> u32 \<times> UpstreamTable option" where
  "poll_apply hdr last_applied table =
     (case (hdr, table) of
        (Some mem, Some t) \<Rightarrow>
          if cs_magic (mem 0) \<noteq> VGW_CP_SHM_MAGIC then (False, last_applied, table)
          else
            let ver = cs_version (mem 1)
            in if ver = 0 \<or> ver = last_applied then (False, last_applied, table)
               else
                 let policy = cs_policy (mem 2);
                     count = (if cs_count (mem 3) > 64 then 64 else cs_count (mem 3));
                     n = unat count;
                     eps = map (\<lambda>i. \<lparr>ue_ip_be = ce_ip_be (cs_endpoints (mem (4 + 2 * i)) ! i),
                                     ue_port = ce_port (cs_endpoints (mem (5 + 2 * i)) ! i)\<rparr>) [0..<n]
                 in if cs_version (mem (4 + 2 * n)) \<noteq> ver then (False, last_applied, table)
                    else
                      let t1 = (if policy = VGW_CP_POLICY_RR then set_policy t policy_rr
                                else set_policy t policy_mod)
                      in (True, ver, Some (ut_set t1 eps))
      | _ \<Rightarrow> (False, last_applied, table))"

section \<open>Opening the segment\<close>

datatype os_call =
  OsShmOpen string bool | OsFtruncate int | OsMmap int | OsMunmap | OsClose int | OsShmUnlink string

record os_results =
  os_open_fd :: int
  os_open_enoent :: bool
  os_create_fd :: int
  os_trunc_ok :: bool
  os_map :: "vgw_cp_shm option"

record CpShm =
  sh_name :: string
  sh_fd :: int
  sh_last_applied :: u32

definition cpshm_destroy :: "CpShm \<Rightarrow> os_call list" where
  "cpshm_destroy shm = OsMunmap # (if sh_fd shm \<ge> 0 then [OsClose (sh_fd shm)] else [])"

definition unlink_name :: "string \<Rightarrow> os_call list" where
  "unlink_name name = [OsShmUnlink name]"

definition fresh_segment :: "CpShmSeed option \<Rightarrow> vgw_cp_shm" where
  "fresh_segment seed =
     (let hdr = \<lparr>cs_magic = VGW_CP_SHM_MAGIC, cs_version = 0, cs_policy = 0, cs_flags = 0,
                 cs_count = 0, cs_endpoints = replicate VGW_CP_SHM_MAX_EP zero_ep\<rparr>
      in case seed of Some s \<Rightarrow> write_seed_unlocked hdr s 1 | None \<Rightarrow> hdr\<lparr>cs_version := 0\<rparr>)"

definition cpshm_open ::
    "os_results \<Rightarrow> string \<Rightarrow> bool \<Rightarrow> CpShmSeed option \<Rightarrow> (CpShm \<times> vgw_cp_shm) option \<times> os_call list" where
  "cpshm_open os name create_if_missing seed =
     (let map_it = (\<lambda>fd created calls. case os_map os of
           None \<Rightarrow> (None, calls @ [OsMmap fd, OsClose fd] @ (if created then [OsShmUnlink name] else []))
         | Some hdr \<Rightarrow>
             let shm = \<lparr>sh_name = name, sh_fd = fd, sh_last_applied = 0\<rparr>;
                 calls1 = calls @ [OsMmap fd]
             in if created then (Some (shm, fresh_segment seed), calls1)
                else if cs_magic hdr \<noteq> VGW_CP_SHM_MAGIC then (None, calls1 @ cpshm_destroy shm)
                else (Some (shm, hdr), calls1));
          fd = os_open_fd os
      in if fd < 0 \<and> create_if_missing \<and> os_open_enoent os then
           let fd2 = os_create_fd os; calls = [OsShmOpen name False, OsShmOpen name True]
           in if fd2 < 0 then (None, calls)
              else if \<not> os_trunc_ok os
              then (None, calls @ [OsFtruncate fd2, OsClose fd2, OsShmUnlink name])
              else map_it fd2 True (calls @ [OsFtruncate fd2])
         else if fd < 0 then (None, [OsShmOpen name False])
         else map_it fd False [OsShmOpen name False])"

section \<open>What a publish writes\<close>

lemma unat_seed_count: "unat (seed_count seed) = min 64 (length (seed_endpoints seed) mod 65536)"
proof -
  have "unat (word_of_nat (length (seed_endpoints seed)) :: u16) = length (seed_endpoints seed) mod 65536"
    by (simp add: unat_of_nat take_bit_nat_def)
  then show ?thesis
    by (auto simp: seed_count_def Let_def word_less_nat_alt)
qed

definition ep_of :: "UpstreamEndpoint \<Rightarrow> vgw_cp_endpoint" where
  "ep_of e = \<lparr>ce_ip_be = ue_ip_be e, ce_port = ue_port e, ce_pad = 0\<rparr>"

definition ue_of :: "vgw_cp_endpoint \<Rightarrow> UpstreamEndpoint" where
  "ue_of e = \<lparr>ue_ip_be = ce_ip_be e, ue_port = ce_port e\<rparr>"

lemma ue_of_simps [simp]: "ue_of \<circ> ep_of = id" "ue_of zero_ep = \<lparr>ue_ip_be = 0, ue_port = 0\<rparr>"
  by (simp_all add: fun_eq_iff ue_of_def ep_of_def zero_ep_def)

lemma ep_stores_apply:
  assumes "i < length (cs_endpoints h)"
  shows "foldl cp_apply h (ep_stores seed i) =
    h\<lparr>cs_endpoints := (cs_endpoints h)[i := ep_of (seed_endpoints seed ! i)]\<rparr>"
  using assms by (cases "cs_endpoints h ! i") (simp add: ep_stores_def upd_ep_def ep_of_def)

lemma ep_loop_apply:
  assumes "n \<le> length (cs_endpoints h)" "n \<le> length (seed_endpoints seed)"
  shows "foldl cp_apply h (concat (map (ep_stores seed) [0..<n])) =
    h\<lparr>cs_endpoints := map ep_of (take n (seed_endpoints seed)) @ drop n (cs_endpoints h)\<rparr>"
  using assms
proof (induction n)
  case 0
  then show ?case by simp
next
  case (Suc n)
  let ?l = "map ep_of (take n (seed_endpoints seed)) @ drop n (cs_endpoints h)"
  have "foldl cp_apply h (concat (map (ep_stores seed) [0..<Suc n])) =
      foldl cp_apply (h\<lparr>cs_endpoints := ?l\<rparr>) (ep_stores seed n)"
    using Suc by simp
  also have "\<dots> = h\<lparr>cs_endpoints := ?l[n := ep_of (seed_endpoints seed ! n)]\<rparr>"
    using Suc.prems by (simp add: ep_stores_apply)
  also have "?l[n := ep_of (seed_endpoints seed ! n)] =
      map ep_of (take (Suc n) (seed_endpoints seed)) @ drop (Suc n) (cs_endpoints h)"
    using Suc.prems by (simp add: take_Suc_conv_app_nth list_update_append Cons_nth_drop_Suc [symmetric])
  finally show ?case .
qed

lemma clear_loop_apply:
  assumes "n \<le> k" "k \<le> length (cs_endpoints h)"
  shows "foldl cp_apply h (map StEpClear [n..<k]) =
    h\<lparr>cs_endpoints := take n (cs_endpoints h) @ replicate (k - n) zero_ep @ drop k (cs_endpoints h)\<rparr>"
  using assms
proof (induction "k - n" arbitrary: k)
  case 0
  then show ?case by simp
next
  case (Suc d)
  then obtain j where k: "k = Suc j" "n \<le> j" by (cases k) auto
  let ?l = "take n (cs_endpoints h) @ replicate (j - n) zero_ep @ drop j (cs_endpoints h)"
  have "foldl cp_apply h (map StEpClear [n..<k]) = h\<lparr>cs_endpoints := ?l[j := zero_ep]\<rparr>"
    using Suc.hyps(1) [of j] Suc.prems Suc.hyps(2) k by (simp add: upd_ep_def)
  also have "?l[j := zero_ep] = take n (cs_endpoints h) @ replicate (k - n) zero_ep @ drop k (cs_endpoints h)"
    using Suc.prems k
    by (simp add: list_update_append Cons_nth_drop_Suc [symmetric] Suc_diff_le replicate_append_same [symmetric])
  finally show ?case .
qed

lemma write_seed_eq:
  assumes "shm_ok h"
  shows "write_seed_unlocked h seed v = \<lparr>cs_magic = cs_magic h, cs_version = v,
    cs_policy = policy_code (seed_policy seed), cs_flags = 0, cs_count = seed_count seed,
    cs_endpoints = map ep_of (take (unat (seed_count seed)) (seed_endpoints seed)) @
      replicate (64 - unat (seed_count seed)) zero_ep\<rparr>"
proof -
  let ?n = "unat (seed_count seed)"
  have n: "?n \<le> 64" "?n \<le> length (seed_endpoints seed)"
    by (auto simp: unat_seed_count intro: le_trans [OF min.cobounded2 mod_less_eq_dividend])
  then show ?thesis
    using assms by (simp add: write_seed_unlocked_def seed_stores_def Let_def ep_loop_apply clear_loop_apply shm_ok_def)
qed

section \<open>What a poll reads\<close>

definition seeded :: "UpstreamTable \<Rightarrow> CpShmSeed \<Rightarrow> UpstreamTable" where
  "seeded t seed = ut_set (set_policy t (seed_policy seed)) (take (unat (seed_count seed)) (seed_endpoints seed))"

lemma seed_count_le:
  "unat (seed_count seed) \<le> 64" "unat (seed_count seed) \<le> length (seed_endpoints seed)"
  "\<not> seed_count seed > 64"
  by (auto simp: unat_seed_count word_less_nat_alt intro: le_trans [OF min.cobounded2 mod_less_eq_dividend])

text \<open>A poll whose data loads all find one completed publish applies exactly that publish.\<close>

lemma poll_sees_seed:
  assumes ok: "shm_ok h" and magic: "cs_magic (mem 0) = VGW_CP_SHM_MAGIC"
    and ver: "cs_version (mem 1) = v" "v \<noteq> 0" "v \<noteq> la"
    and seen: "\<And>l. 2 \<le> l \<Longrightarrow> l \<le> 4 + 2 * unat (seed_count seed) \<Longrightarrow> mem l = write_seed_unlocked h seed v"
  shows "poll_apply (Some mem) la (Some t) = (True, v, Some (seeded t seed))"
proof -
  let ?n = "unat (seed_count seed)" and ?h = "write_seed_unlocked h seed v"
  note h' = write_seed_eq [OF ok, of seed v]
  have ld: "mem 2 = ?h" "mem 3 = ?h" "mem (4 + 2 * ?n) = ?h"
    by (simp_all add: seen)
  have eps: "map (\<lambda>i. \<lparr>ue_ip_be = ce_ip_be (cs_endpoints (mem (4 + 2 * i)) ! i),
      ue_port = ce_port (cs_endpoints (mem (5 + 2 * i)) ! i)\<rparr>) [0..<?n] = take ?n (seed_endpoints seed)"
    using seed_count_le(1,2) [of seed]
    by (intro nth_equalityI) (simp_all add: seen h' nth_append ep_of_def)
  show ?thesis
    using magic ver ld seed_count_le(3) [of seed] eps
    by (cases "seed_policy seed") (simp_all add: poll_apply_def Let_def h' seeded_def policy_code_def)
qed




lemma next_version_nz: "next_version h \<noteq> 0"
  by (simp add: next_version_def Let_def)

lemma next_version_fresh: "next_version h \<noteq> cs_version h"
  by (auto simp: next_version_def Let_def)

lemma cp_apply_magic [simp]: "cs_magic (foldl cp_apply h ss) = cs_magic h"
proof (induction ss arbitrary: h)
  case (Cons s ss)
  then show ?case by (cases s) (simp_all add: upd_ep_def)
qed simp

lemma cp_apply_version: "\<forall>v. StVersion v \<notin> set ss \<Longrightarrow> cs_version (foldl cp_apply h ss) = cs_version h"
proof (induction ss arbitrary: h)
  case (Cons s ss)
  then show ?case by (cases s) (auto simp: upd_ep_def)
qed simp

lemma partial_version:
  assumes "n < length (seed_stores seed v)"
  shows "cs_version (foldl cp_apply h (take n (seed_stores seed v))) = cs_version h"
proof (rule cp_apply_version)
  obtain front where front: "seed_stores seed v = front @ [StVersion v]"
      "\<forall>w. StVersion w \<notin> set front"
    by (auto simp: seed_stores_def Let_def ep_stores_def)
  then have "take n (seed_stores seed v) = take n front" using assms by simp
  then show "\<forall>w. StVersion w \<notin> set (take n (seed_stores seed v))"
    using front(2) by (metis in_set_takeD)
qed

lemma fresh_poll:
  "poll_apply (Some (\<lambda>_. fresh_segment (Some seed))) 0 (Some t) = (True, 1, Some (seeded t seed))"
proof -
  let ?h = "\<lparr>cs_magic = VGW_CP_SHM_MAGIC, cs_version = 0, cs_policy = 0, cs_flags = 0,
      cs_count = 0, cs_endpoints = replicate 64 zero_ep\<rparr>"
  have ok: "shm_ok ?h" by (simp add: shm_ok_def)
  have "fresh_segment (Some seed) = write_seed_unlocked ?h seed 1"
    by (simp add: fresh_segment_def)
  then show ?thesis
    using poll_sees_seed [OF ok, of "\<lambda>_. fresh_segment (Some seed)" 1 0 seed t]
    by (simp add: write_seed_eq [OF ok])
qed

section \<open>Properties\<close>

definition ex_segment :: vgw_cp_shm where
  "ex_segment = fresh_segment None"

lemma ex_segment_simps:
  "shm_ok ex_segment" "cs_magic ex_segment = VGW_CP_SHM_MAGIC" "cs_version ex_segment = 0"
  by (simp_all add: ex_segment_def fresh_segment_def shm_ok_def Let_def)

definition ex_seed :: "BalancePolicy \<Rightarrow> u32 list \<Rightarrow> CpShmSeed" where
  "ex_seed p ips = \<lparr>seed_policy = p, seed_endpoints = map (\<lambda>ip. \<lparr>ue_ip_be = ip, ue_port = 53\<rparr>) ips\<rparr>"

text \<open>
  C14: a poll of a quiescent segment after a publish of at most 64 endpoints installs exactly
  the published policy and endpoint list, in order, whatever the segment and the table held
  before, and remembers the new version; it does so whenever that version was not applied
  already.
\<close>

theorem publish_then_poll:
  assumes "shm_ok h" "cs_magic h = VGW_CP_SHM_MAGIC" "length (seed_endpoints seed) \<le> 64"
    and "la \<noteq> next_version h"
  shows "poll_apply (Some (\<lambda>_. publish h seed)) la (Some t) =
    (True, next_version h, Some (ut_set (set_policy t (seed_policy seed)) (seed_endpoints seed)))"
proof -
  have "take (unat (seed_count seed)) (seed_endpoints seed) = seed_endpoints seed"
    using assms(3) by (simp add: unat_seed_count)
  then show ?thesis
    using poll_sees_seed [OF assms(1), of "\<lambda>_. publish h seed" "next_version h" la seed t] assms
    by (simp add: publish_def write_seed_eq [OF assms(1)] next_version_nz seeded_def)
qed

theorem publish_then_poll_witness:
  "poll_apply (Some (\<lambda>_. publish ex_segment (ex_seed policy_rr [1, 2]))) 0 (Some upstream_table) =
    (True, 1, Some (ut_set (set_policy upstream_table policy_rr) (seed_endpoints (ex_seed policy_rr [1, 2]))))"
  using publish_then_poll [of ex_segment "ex_seed policy_rr [1, 2]" 0 upstream_table]
  by (simp add: ex_segment_simps ex_seed_def next_version_def)

text \<open>
  C15: the release protocol works for the new version: in any interleaving of a poll with one
  publish (\<open>at l\<close> counts the stores done before load \<open>l\<close>), a poll that reads the new
  version applies exactly the new configuration, because the version is stored last.
\<close>

theorem poll_of_new_version_exact:
  assumes ok: "shm_ok h" "cs_magic h = VGW_CP_SHM_MAGIC" and last: "la \<noteq> next_version h"
    and mono: "\<forall>l l'. l \<le> l' \<longrightarrow> at l \<le> at l'"
    and mem: "\<forall>l. mem l = foldl cp_apply h (take (at l) (seed_stores seed (next_version h)))"
    and new: "cs_version (mem 1) = next_version h"
  shows "poll_apply (Some mem) la (Some t) = (True, next_version h, Some (seeded t seed))"
proof (rule poll_sees_seed [OF ok(1)])
  let ?ss = "seed_stores seed (next_version h)"
  have "length ?ss \<le> at 1"
    using partial_version [of "at 1" seed "next_version h" h] mem new next_version_fresh [of h]
    by (metis not_less)
  moreover have "at 1 \<le> at l" if "1 \<le> l" for l
    using mono that by blast
  ultimately have "take (at l) ?ss = ?ss" if "1 \<le> l" for l
    using that by (meson order_trans take_all)
  then show "mem l = write_seed_unlocked h seed (next_version h)" if "2 \<le> l" for l
    using that mem by (simp add: write_seed_unlocked_def)
qed (use assms next_version_nz in auto)

theorem poll_of_new_version_exact_witness:
  "poll_apply (Some (\<lambda>l. foldl cp_apply ex_segment (take (if l = 0 then 2 else 999)
       (seed_stores (ex_seed policy_rr [1, 2]) 1)))) 0 (Some upstream_table)
    = (True, 1, Some (seeded upstream_table (ex_seed policy_rr [1, 2])))"
proof -
  have v: "next_version ex_segment = 1"
    by (simp add: next_version_def ex_segment_simps)
  have "length (seed_stores (ex_seed policy_rr [1, 2]) 1) \<le> 999"
    by (simp add: seed_stores_def ep_stores_def ex_seed_def seed_count_def Let_def upt_rec)
  then have "foldl cp_apply ex_segment (take 999 (seed_stores (ex_seed policy_rr [1, 2]) 1)) =
      write_seed_unlocked ex_segment (ex_seed policy_rr [1, 2]) 1"
    by (simp add: write_seed_unlocked_def)
  then have "cs_version (foldl cp_apply ex_segment (take 999 (seed_stores (ex_seed policy_rr [1, 2]) 1))) = 1"
    by (simp add: write_seed_eq ex_segment_simps)
  then show ?thesis
    using poll_of_new_version_exact [OF ex_segment_simps(1,2), where la = 0
        and at = "\<lambda>l. if l = 0 then 2 else 999" and seed = "ex_seed policy_rr [1, 2]"
        and t = upstream_table, unfolded v] by auto
qed



text \<open>
  The number of endpoints a publish announces is the list's length reduced modulo 65536
  and then cut at 64; the list is cut to 16 bits before it is compared with the capacity, so
  a list of 65536 endpoints publishes none.
\<close>

theorem published_count:
  assumes "shm_ok h"
  shows "unat (cs_count (publish h seed)) = min 64 (length (seed_endpoints seed) mod 65536)"
  using assms by (simp add: publish_def write_seed_eq unat_seed_count)

theorem published_count_witness:
  "cs_count (publish ex_segment (ex_seed policy_mod (replicate 65536 1))) = 0"
  using published_count [OF ex_segment_simps(1), of "ex_seed policy_mod (replicate 65536 1)"]
  by (simp add: ex_seed_def unat_eq_0)

text \<open>The descriptors a call sequence obtained, given the results of the two \<open>shm_open\<close> calls.\<close>

definition opened_fds :: "os_results \<Rightarrow> os_call list \<Rightarrow> int list" where
  "opened_fds os calls = filter (\<lambda>fd. 0 \<le> fd) (concat (map (\<lambda>c. case c of
     OsShmOpen _ False \<Rightarrow> [os_open_fd os] | OsShmOpen _ True \<Rightarrow> [os_create_fd os] | _ \<Rightarrow> []) calls))"

definition closed_fds :: "os_call list \<Rightarrow> int list" where
  "closed_fds calls = concat (map (\<lambda>c. case c of OsClose fd \<Rightarrow> [fd] | _ \<Rightarrow> []) calls)"

lemmas open_defs = cpshm_open_def cpshm_destroy_def opened_fds_def closed_fds_def Let_def

text \<open>
  C33: \<open>open\<close> releases what it acquired on every failure path: each descriptor it obtained is
  closed exactly once, the segment is unmapped exactly when it was mapped, and the name is
  unlinked exactly when this call created it; on success it closes, unmaps and unlinks
  nothing, and the segment it returns carries the magic number.
\<close>

theorem open_releases_on_failure:
  "case cpshm_open os name create_if_missing seed of
     (None, calls) \<Rightarrow> closed_fds calls = opened_fds os calls \<and>
       (OsMunmap \<in> set calls \<longleftrightarrow> (\<exists>fd. OsMmap fd \<in> set calls) \<and> os_map os \<noteq> None) \<and>
       (OsShmUnlink name \<in> set calls \<longleftrightarrow> OsShmOpen name True \<in> set calls \<and> 0 \<le> os_create_fd os)
   | (Some (shm, hdr), calls) \<Rightarrow> closed_fds calls = [] \<and> opened_fds os calls = [sh_fd shm] \<and>
       OsMunmap \<notin> set calls \<and> OsShmUnlink name \<notin> set calls \<and> cs_magic hdr = VGW_CP_SHM_MAGIC"
proof -
  have magic: "cs_magic (fresh_segment seed) = VGW_CP_SHM_MAGIC"
    by (simp add: fresh_segment_def write_seed_unlocked_def Let_def split: option.split)
  show ?thesis
    by (cases "os_map os"; cases "os_open_fd os < 0"; cases "create_if_missing \<and> os_open_enoent os";
        cases "os_create_fd os < 0"; cases "os_trunc_ok os") (auto simp: open_defs magic)
qed

end
