(* ===== verification/Neighbor.thy ===== *)
theory Neighbor
  imports Dpdk_Types
begin

text \<open>
  The IPv4 to MAC cache of \<open>src/src/neighbor.hpp\<close> and \<open>neighbor.cpp\<close>: static seeds, entries
  learned from traffic, and expiry. The hash map \<open>entries_\<close> is a map; the loop of \<open>expire\<close>
  treats every entry on its own, so its order does not matter.
\<close>

section \<open>State and operations\<close>

record NeighborEntry =
  ne_ip_be :: u32
  ne_mac :: rte_ether_addr
  ne_last_seen_ms :: u64
  ne_is_static :: bool

record NeighborTable =
  nt_entry_timeout_ms :: u64
  nt_entries :: "u32 \<rightharpoonup> NeighborEntry"

definition neighbor_table :: "u64 \<Rightarrow> NeighborTable" where
  "neighbor_table timeout = \<lparr>nt_entry_timeout_ms = timeout, nt_entries = Map.empty\<rparr>"

definition nt_seed :: "NeighborTable \<Rightarrow> u32 \<Rightarrow> rte_ether_addr \<Rightarrow> NeighborTable" where
  "nt_seed t ip mac =
     t\<lparr>nt_entries := (nt_entries t)(ip \<mapsto>
       \<lparr>ne_ip_be = ip, ne_mac = mac, ne_last_seen_ms = 0, ne_is_static = True\<rparr>)\<rparr>"

definition nt_lookup :: "NeighborTable \<Rightarrow> u32 \<Rightarrow> rte_ether_addr option" where
  "nt_lookup t ip = (case nt_entries t ip of None \<Rightarrow> None | Some e \<Rightarrow> Some (ne_mac e))"

definition nt_learn :: "NeighborTable \<Rightarrow> u32 \<Rightarrow> rte_ether_addr \<Rightarrow> u64 \<Rightarrow> NeighborTable" where
  "nt_learn t ip mac now =
     (case nt_entries t ip of
        Some e \<Rightarrow> if ne_is_static e then t
                  else t\<lparr>nt_entries := (nt_entries t)(ip \<mapsto>
                    \<lparr>ne_ip_be = ip, ne_mac = mac, ne_last_seen_ms = now, ne_is_static = False\<rparr>)\<rparr>
      | None \<Rightarrow> t\<lparr>nt_entries := (nt_entries t)(ip \<mapsto>
                    \<lparr>ne_ip_be = ip, ne_mac = mac, ne_last_seen_ms = now, ne_is_static = False\<rparr>)\<rparr>)"

definition nt_expire :: "NeighborTable \<Rightarrow> u64 \<Rightarrow> NeighborTable" where
  "nt_expire t now =
     t\<lparr>nt_entries := (\<lambda>ip. case nt_entries t ip of
        None \<Rightarrow> None
      | Some e \<Rightarrow> if ne_is_static e then Some e
                  else if now - ne_last_seen_ms e \<ge> nt_entry_timeout_ms t then None
                  else Some e)\<rparr>"

definition nt_size :: "NeighborTable \<Rightarrow> nat" where
  "nt_size t = card (dom (nt_entries t))"

section \<open>The interface its clients rely on\<close>

definition nt_pinned :: "NeighborTable \<Rightarrow> u32 \<Rightarrow> bool" where
  "nt_pinned t ip \<longleftrightarrow> (case nt_entries t ip of None \<Rightarrow> False | Some e \<Rightarrow> ne_is_static e)"

locale neighbor_cache =
  fixes lookup :: "'t \<Rightarrow> u32 \<Rightarrow> rte_ether_addr option"
    and learn :: "'t \<Rightarrow> u32 \<Rightarrow> rte_ether_addr \<Rightarrow> u64 \<Rightarrow> 't"
    and pinned :: "'t \<Rightarrow> u32 \<Rightarrow> bool"
  assumes pinned_resolved: "pinned t ip \<Longrightarrow> lookup t ip \<noteq> None"
    and learn_pinned: "pinned t ip \<Longrightarrow> learn t ip m now = t"
    and learn_hit: "\<not> pinned t ip \<Longrightarrow> lookup (learn t ip m now) ip = Some m"
    and learn_miss: "ip' \<noteq> ip \<Longrightarrow> lookup (learn t ip m now) ip' = lookup t ip'"
    and pinned_learn: "pinned (learn t ip m now) = pinned t"
begin

text \<open>A learned address resolves at once, and learning never makes an address unresolvable.\<close>

lemma learn_resolves: "lookup (learn t ip m now) ip \<noteq> None"
  by (cases "pinned t ip") (auto simp: learn_pinned learn_hit dest: pinned_resolved)

lemma learn_keeps_resolved: "lookup t ip' \<noteq> None \<Longrightarrow> lookup (learn t ip m now) ip' \<noteq> None"
  by (cases "ip' = ip") (auto simp: learn_miss learn_resolves)

lemma learn_keeps_pinned_mac: "pinned t ip' \<Longrightarrow> lookup (learn t ip m now) ip' = lookup t ip'"
  by (cases "ip' = ip") (auto simp: learn_miss learn_pinned)

text \<open>After any sequence of observations the cache holds the last one of each free address.\<close>

definition learn_all :: "'t \<Rightarrow> (u32 \<times> rte_ether_addr \<times> u64) list \<Rightarrow> 't" where
  "learn_all t obs = fold (\<lambda>(ip, m, now) s. learn s ip m now) obs t"

lemma learn_all_snoc [simp]:
  "learn_all t (obs @ [(ip, m, now)]) = learn (learn_all t obs) ip m now"
  by (simp add: learn_all_def)

lemma pinned_learn_all [simp]: "pinned (learn_all t obs) = pinned t"
  by (induction obs rule: rev_induct) (auto simp: pinned_learn, simp add: learn_all_def)

lemma learn_all_last:
  "lookup (learn_all t obs) ip =
     (if pinned t ip then lookup t ip
      else case map_of (rev obs) ip of Some (m, now) \<Rightarrow> Some m | None \<Rightarrow> lookup t ip)"
proof (induction obs rule: rev_induct)
  case Nil
  then show ?case by (simp add: learn_all_def)
next
  case (snoc ob obs)
  obtain ip' m now where ob: "ob = (ip', m, now)" by (cases ob)
  show ?case
    using snoc
    by (cases "ip' = ip"; cases "pinned t ip") (simp_all add: ob learn_miss learn_hit learn_pinned)
qed

end

lemmas nt_defs = nt_seed_def nt_lookup_def nt_learn_def nt_expire_def nt_pinned_def

interpretation nt: neighbor_cache nt_lookup nt_learn nt_pinned
proof (unfold_locales, goal_cases)
  case (1 t ip)
  then show ?case by (auto simp: nt_defs split: option.splits)
next
  case (2 t ip m now)
  then show ?case by (auto simp: nt_defs split: option.splits)
next
  case (3 t ip m now)
  then show ?case by (auto simp: nt_defs split: option.splits)
next
  case (4 ip' ip t m now)
  then show ?case by (auto simp: nt_defs split: option.splits)
next
  case (5 t ip m now)
  then show ?case by (auto simp: nt_defs fun_eq_iff split: option.splits)
qed

section \<open>Histories of the table\<close>

datatype nt_op = Seed u32 rte_ether_addr | Learn u32 rte_ether_addr u64 | Expire u64

fun nt_apply :: "NeighborTable \<Rightarrow> nt_op \<Rightarrow> NeighborTable" where
  "nt_apply t (Seed ip m) = nt_seed t ip m"
| "nt_apply t (Learn ip m now) = nt_learn t ip m now"
| "nt_apply t (Expire now) = nt_expire t now"

definition nt_run :: "NeighborTable \<Rightarrow> nt_op list \<Rightarrow> NeighborTable" where
  "nt_run t ops = foldl nt_apply t ops"

lemma nt_apply_keeps_pinned:
  assumes "nt_pinned t ip" and "\<forall>m. op \<noteq> Seed ip m"
  shows "nt_pinned (nt_apply t op) ip \<and> nt_lookup (nt_apply t op) ip = nt_lookup t ip"
  using assms by (cases op) (auto simp: nt_defs split: option.splits)

lemma nt_apply_key_ok:
  assumes "\<And>ip e. nt_entries t ip = Some e \<Longrightarrow> ne_ip_be e = ip" and "nt_entries (nt_apply t op) ip = Some e"
  shows "ne_ip_be e = ip"
  using assms by (cases op) (auto simp: nt_defs split: option.splits if_splits)

text \<open>
  A seeded address keeps its MAC through every later history of learning and expiry
  that does not seed it again: neither traffic nor time can displace a static entry.
\<close>

theorem static_entry_stable:
  assumes "\<forall>m. Seed ip m \<notin> set ops"
  shows "nt_lookup (nt_run (nt_seed t ip mac) ops) ip = Some mac"
proof -
  have "nt_pinned (nt_run (nt_seed t ip mac) ops) ip
    \<and> nt_lookup (nt_run (nt_seed t ip mac) ops) ip = Some mac"
    using assms
  proof (induction ops rule: rev_induct)
    case Nil
    then show ?case by (simp add: nt_run_def nt_defs)
  next
    case (snoc op ops)
    then show ?case using nt_apply_keeps_pinned [of "nt_run (nt_seed t ip mac) ops" ip op]
      by (auto simp: nt_run_def)
  qed
  then show ?thesis ..
qed

theorem static_entry_stable_witness:
  "nt_lookup (nt_run (nt_seed (neighbor_table 300000) 0x0100000a (MAC 2 0 0 0 0 3))
     [Learn 0x0100000a (MAC 2 0 0 0 0 9) 5, Expire 900000]) 0x0100000a = Some (MAC 2 0 0 0 0 3)"
  by (rule static_entry_stable) simp

text \<open>
  A learned entry resolves until its age reaches the timeout: an expiry pass at
  \<open>now\<close> keeps it exactly while \<open>now - seen\<close>, computed in 64-bit wrap-around
  arithmetic, is below the configured timeout.
\<close>

theorem learned_entry_lifetime:
  assumes "\<not> nt_pinned t ip"
  shows "nt_lookup (nt_expire (nt_learn t ip mac seen) now) ip =
     (if now - seen < nt_entry_timeout_ms t then Some mac else None)"
  using assms by (auto simp: nt_defs not_le split: option.splits)

theorem learned_entry_lifetime_witness:
  "nt_lookup (nt_expire (nt_learn (neighbor_table 300000) 0x0200000a (MAC 2 0 0 0 0 9) 1000)
     300999) 0x0200000a = Some (MAC 2 0 0 0 0 9) \<and>
   nt_lookup (nt_expire (nt_learn (neighbor_table 300000) 0x0200000a (MAC 2 0 0 0 0 9) 1000)
     301000) 0x0200000a = None"
proof -
  have free: "\<not> nt_pinned (neighbor_table 300000) 0x0200000a"
    by (simp add: nt_pinned_def neighbor_table_def)
  show ?thesis
    using learned_entry_lifetime [OF free, of "MAC 2 0 0 0 0 9" 1000 300999]
      learned_entry_lifetime [OF free, of "MAC 2 0 0 0 0 9" 1000 301000]
    by (simp add: neighbor_table_def)
qed

end
