(* ===== verification/Packet.thy ===== *)
theory Packet
  imports Neighbor
begin

text \<open>
  Packet parsing and checksum maintenance, \<open>src/src/packet.hpp\<close> and \<open>packet.cpp\<close>.
  Pointers into the frame are offsets from the data pointer; a null pointer is \<open>None\<close>.
  Output parameters are results: every call in the repository passes the address of a local,
  so the null checks on output pointers never fire. Sums of lengths are computed in \<open>int\<close>
  and then converted to the 16-bit parameter of \<open>headers_fit\<close>, which wraps; the model keeps
  that conversion.
\<close>

section \<open>Parsing\<close>

datatype ParseStatus =
  ok | too_short | not_ipv4 | not_udp | fragmented | bad_ip_checksum | bad_udp_checksum

record PacketView =
  pv_eth :: "nat option"
  pv_ip :: "nat option"
  pv_udp :: "nat option"
  pv_payload :: "nat option"
  pv_payload_len :: u16

definition null_view :: PacketView where
  "null_view = \<lparr>pv_eth = None, pv_ip = None, pv_udp = None, pv_payload = None, pv_payload_len = 0\<rparr>"

definition src_ip :: "rte_mbuf \<Rightarrow> PacketView \<Rightarrow> u32 option" where
  "src_ip m v = (case pv_ip v of None \<Rightarrow> Some 0 | Some ip \<Rightarrow> ld32 (mb_buf m) (ip + ip_src_addr))"

definition dst_ip :: "rte_mbuf \<Rightarrow> PacketView \<Rightarrow> u32 option" where
  "dst_ip m v = (case pv_ip v of None \<Rightarrow> Some 0 | Some ip \<Rightarrow> ld32 (mb_buf m) (ip + ip_dst_addr))"

definition src_port :: "rte_mbuf \<Rightarrow> PacketView \<Rightarrow> u16 option" where
  "src_port m v = (case pv_udp v of None \<Rightarrow> Some 0
     | Some u \<Rightarrow> map_option rte_be_to_cpu_16 (ld16 (mb_buf m) (u + udp_src_port)))"

definition dst_port :: "rte_mbuf \<Rightarrow> PacketView \<Rightarrow> u16 option" where
  "dst_port m v = (case pv_udp v of None \<Rightarrow> Some 0
     | Some u \<Rightarrow> map_option rte_be_to_cpu_16 (ld16 (mb_buf m) (u + udp_dst_port)))"

fun headers_fit :: "rte_mbuf option \<Rightarrow> u16 \<Rightarrow> bool" where
  "headers_fit None need = False"
| "headers_fit (Some m) need = (mb_data_len m \<ge> need)"

text \<open>The \<open>int\<close> sum of 16-bit lengths, converted to \<open>uint16_t\<close>.\<close>

definition as_u16 :: "nat \<Rightarrow> u16" where
  "as_u16 n = word_of_nat n"

lemma unat_as_u16 [simp]: "unat (as_u16 n) = n mod 65536"
  by (simp add: as_u16_def unat_of_nat take_bit_nat_def)

lemma headers_fit_mod [simp]:
  "headers_fit (Some m) (as_u16 n) \<longleftrightarrow> n mod 65536 \<le> unat (mb_data_len m)"
  by (simp add: word_le_nat_alt)

declare headers_fit.simps(2) [simp del]

definition udp_checksum_ok :: "cksum_fns \<Rightarrow> bytes \<Rightarrow> nat \<Rightarrow> nat \<Rightarrow> (bool \<times> bytes) option" where
  "udp_checksum_ok ck b ip udp = do {
     cksum \<leftarrow> ld16 b (udp + udp_dgram_cksum);
     if cksum = 0 then Some (True, b)
     else do {
       let saved = cksum;
       b1 \<leftarrow> st16 b (udp + udp_dgram_cksum) 0;
       calc \<leftarrow> call_udptcp_cksum ck b1 ip udp;
       b2 \<leftarrow> st16 b1 (udp + udp_dgram_cksum) saved;
       if saved = calc then Some (True, b2)
       else Some ((saved = 0xffff \<and> calc = 0) \<or> (saved = 0 \<and> calc = 0xffff), b2)
     }
   }"

definition ethertype :: "rte_mbuf option \<Rightarrow> u16 option" where
  "ethertype m =
     (if \<not> headers_fit m (as_u16 ETH_HDR_LEN) then Some 0
      else do {
        t \<leftarrow> ld16 (mb_buf (the m)) eth_ether_type;
        Some (rte_be_to_cpu_16 t)
      })"

definition parse_arp :: "rte_mbuf option \<Rightarrow> (ParseStatus \<times> nat option \<times> nat option) option" where
  "parse_arp mo = (case mo of None \<Rightarrow> Some (too_short, None, None)
   | Some m \<Rightarrow>
     if \<not> headers_fit mo (as_u16 (ETH_HDR_LEN + ARP_HDR_LEN)) then Some (too_short, None, None)
     else do {
       let b = mb_buf m;
       t \<leftarrow> ld16 b eth_ether_type;
       if rte_be_to_cpu_16 t \<noteq> RTE_ETHER_TYPE_ARP then Some (not_ipv4, None, None)
       else do {
         let arp = ETH_HDR_LEN;
         hrd \<leftarrow> ld16 b (arp + arp_hardware);
         pro \<leftarrow> ld16 b (arp + arp_protocol);
         hln \<leftarrow> ld8 b (arp + arp_hlen);
         pln \<leftarrow> ld8 b (arp + arp_plen);
         if rte_be_to_cpu_16 hrd \<noteq> RTE_ARP_HRD_ETHER \<or> rte_be_to_cpu_16 pro \<noteq> RTE_ETHER_TYPE_IPV4
            \<or> hln \<noteq> RTE_ETHER_ADDR_LEN \<or> pln \<noteq> 4
         then Some (too_short, None, None)
         else Some (ok, Some 0, Some arp)
       }
     })"

definition passive_learn_ipv4 ::
    "rte_mbuf option \<Rightarrow> NeighborTable option \<Rightarrow> u64 \<Rightarrow> NeighborTable option option" where
  "passive_learn_ipv4 mo neighbors now =
     (case (mo, neighbors) of
        (Some m, Some nt) \<Rightarrow>
          if \<not> headers_fit mo (as_u16 (ETH_HDR_LEN + IPV4_HDR_LEN)) then Some neighbors
          else do {
            let b = mb_buf m;
            t \<leftarrow> ld16 b eth_ether_type;
            if rte_be_to_cpu_16 t \<noteq> RTE_ETHER_TYPE_IPV4 then Some neighbors
            else do {
              src_ip_be \<leftarrow> ld32 b (ETH_HDR_LEN + ip_src_addr);
              if src_ip_be = 0 then Some neighbors
              else do {
                let first_octet = (ucast (drop_bit 24 (rte_be_to_cpu_32 src_ip_be) AND 0xff) :: u8);
                if first_octet \<ge> 224 then Some neighbors
                else do {
                  mac \<leftarrow> ld_mac b eth_src_addr;
                  Some (Some (nt_learn nt src_ip_be mac now))
                }
              }
            }
          }
      | _ \<Rightarrow> Some neighbors)"

definition parse_udp_ipv4 ::
    "cksum_fns \<Rightarrow> rte_mbuf option \<Rightarrow> bool \<Rightarrow> (ParseStatus \<times> PacketView \<times> rte_mbuf option) option" where
  "parse_udp_ipv4 ck mo verify_cksum = (case mo of None \<Rightarrow> Some (too_short, null_view, mo)
   | Some m \<Rightarrow>
     if \<not> headers_fit mo (as_u16 (ETH_HDR_LEN + IPV4_HDR_LEN + UDP_HDR_LEN))
     then Some (too_short, null_view, mo)
     else do {
       let b = mb_buf m;
       t \<leftarrow> ld16 b eth_ether_type;
       if rte_be_to_cpu_16 t \<noteq> RTE_ETHER_TYPE_IPV4 then Some (not_ipv4, null_view, mo)
       else do {
         let ip = ETH_HDR_LEN;
         vihl \<leftarrow> ld8 b (ip + ip_version_ihl);
         let ihl = unat (vihl AND 0x0f) * 4;
         if drop_bit 4 vihl \<noteq> 4 \<or> ihl < IPV4_HDR_LEN then Some (not_ipv4, null_view, mo)
         else if \<not> headers_fit mo (as_u16 (ETH_HDR_LEN + ihl + UDP_HDR_LEN))
         then Some (too_short, null_view, mo)
         else do {
           frag_be \<leftarrow> ld16 b (ip + ip_fragment_offset);
           let frag = rte_be_to_cpu_16 frag_be;
           if frag AND RTE_IPV4_HDR_MF_FLAG \<noteq> 0 \<or> frag AND RTE_IPV4_HDR_OFFSET_MASK \<noteq> 0
           then Some (fragmented, null_view, mo)
           else do {
             proto \<leftarrow> ld8 b (ip + ip_next_proto_id);
             if proto \<noteq> IPPROTO_UDP then Some (not_udp, null_view, mo)
             else do {
               let udp = ETH_HDR_LEN + ihl;
               len_be \<leftarrow> ld16 b (udp + udp_dgram_len);
               let udp_len = rte_be_to_cpu_16 len_be;
               if unat udp_len < UDP_HDR_LEN then Some (too_short, null_view, mo)
               else if \<not> headers_fit mo (as_u16 (ETH_HDR_LEN + ihl + unat udp_len))
               then Some (too_short, null_view, mo)
               else do {
                 let view = \<lparr>pv_eth = Some 0, pv_ip = Some ip, pv_udp = Some udp,
                   pv_payload = Some (udp + UDP_HDR_LEN), pv_payload_len = udp_len - 8\<rparr>;
                 if \<not> verify_cksum then Some (ok, view, mo)
                 else do {
                   saved_ip \<leftarrow> ld16 b (ip + ip_hdr_checksum);
                   b1 \<leftarrow> st16 b (ip + ip_hdr_checksum) 0;
                   calc_ip \<leftarrow> call_ipv4_cksum ck b1 ip;
                   b2 \<leftarrow> st16 b1 (ip + ip_hdr_checksum) saved_ip;
                   if saved_ip \<noteq> calc_ip
                   then Some (bad_ip_checksum, null_view, Some (m\<lparr>mb_buf := b2\<rparr>))
                   else do {
                     (good, b3) \<leftarrow> udp_checksum_ok ck b2 ip udp;
                     if \<not> good then Some (bad_udp_checksum, null_view, Some (m\<lparr>mb_buf := b3\<rparr>))
                     else Some (ok, view, Some (m\<lparr>mb_buf := b3\<rparr>))
                   }
                 }
               }
             }
           }
         }
       }
     })"

section \<open>Checksum maintenance\<close>

definition refresh_ipv4_checksum :: "cksum_fns \<Rightarrow> bytes \<Rightarrow> nat \<Rightarrow> bytes option" where
  "refresh_ipv4_checksum ck b ip = do {
     b1 \<leftarrow> st16 b (ip + ip_hdr_checksum) 0;
     c \<leftarrow> call_ipv4_cksum ck b1 ip;
     st16 b1 (ip + ip_hdr_checksum) c
   }"

definition refresh_udp_checksum :: "cksum_fns \<Rightarrow> bytes \<Rightarrow> nat \<Rightarrow> nat \<Rightarrow> bytes option" where
  "refresh_udp_checksum ck b ip udp = do {
     b1 \<leftarrow> st16 b (udp + udp_dgram_cksum) 0;
     calc \<leftarrow> call_udptcp_cksum ck b1 ip udp;
     b2 \<leftarrow> st16 b1 (udp + udp_dgram_cksum) calc;
     c \<leftarrow> ld16 b2 (udp + udp_dgram_cksum);
     if c = 0 then st16 b2 (udp + udp_dgram_cksum) 0xffff else Some b2
   }"

definition clear_udp_checksum :: "bytes \<Rightarrow> nat \<Rightarrow> bytes option" where
  "clear_udp_checksum b udp = st16 b (udp + udp_dgram_cksum) 0"

section \<open>What parsing accepts\<close>

text \<open>
  \<open>udp_frame m udp len\<close> says, in terms of the wire format, that the buffer holds an
  unfragmented IPv4 packet carrying UDP whose header is at offset \<open>udp\<close> and whose UDP
  length field is \<open>len\<close>. Its last conjunct keeps the 16-bit wrap-around of the code.
\<close>

definition be16 :: "bytes \<Rightarrow> nat \<Rightarrow> u16 option" where
  "be16 b i = map_option rte_be_to_cpu_16 (ld16 b i)"

definition udp_view :: "nat \<Rightarrow> u16 \<Rightarrow> PacketView" where
  "udp_view udp len = \<lparr>pv_eth = Some 0, pv_ip = Some 14, pv_udp = Some udp,
     pv_payload = Some (udp + 8), pv_payload_len = len - 8\<rparr>"

definition udp_frame :: "rte_mbuf \<Rightarrow> nat \<Rightarrow> u16 \<Rightarrow> bool" where
  "udp_frame m udp len \<longleftrightarrow> (let b = mb_buf m; n = unat (mb_data_len m) in
     be16 b 12 = Some RTE_ETHER_TYPE_IPV4 \<and>
     (\<exists>vi. ld8 b 14 = Some vi \<and> drop_bit 4 vi = 4 \<and> udp = 14 + unat (vi AND 0x0f) * 4) \<and>
     34 \<le> udp \<and> udp + 8 \<le> n \<and>
     (\<exists>fr. be16 b 20 = Some fr \<and> fr AND 0x2000 = 0 \<and> fr AND 0x1fff = 0) \<and>
     ld8 b 23 = Some IPPROTO_UDP \<and>
     be16 b (udp + 4) = Some len \<and> 8 \<le> unat len \<and>
     (udp + unat len) mod 65536 \<le> n)"

definition ip_cksum_ok :: "cksum_fns \<Rightarrow> bytes \<Rightarrow> bool" where
  "ip_cksum_ok ck b \<longleftrightarrow> (\<exists>c. ld16 b 24 = Some c \<and> call_ipv4_cksum ck (put b 24 (enc16 0)) 14 = Some c)"

definition cksums_ok :: "cksum_fns \<Rightarrow> bytes \<Rightarrow> nat \<Rightarrow> bool" where
  "cksums_ok ck b udp \<longleftrightarrow> ip_cksum_ok ck b \<and> udp_checksum_ok ck b 14 udp = Some (True, b)"

text \<open>
  The packet whose length the IPv4 header announces ends inside the buffer. The code never
  checks this field; the checksum over the datagram reads as far as it says.
\<close>

definition ip_in_room :: "bytes \<Rightarrow> bool" where
  "ip_in_room b \<longleftrightarrow> (\<exists>t. be16 b 16 = Some t \<and> 14 + unat t \<le> length b)"

lemma low_nibble_le: "unat (v AND 0x0f :: u8) * 4 \<le> 60"
proof -
  have "unat (v AND 0x0f) \<le> unat (0x0f :: u8)"
    by (rule word_and_le1 [THEN word_le_nat_alt [THEN iffD1]])
  then show ?thesis by simp
qed

lemma call_ipv4_cksum_defined:
  "ip_hdr_len b ip = Some n \<Longrightarrow> ip + n \<le> length b \<Longrightarrow>
     call_ipv4_cksum ck b ip = Some (rte_ipv4_cksum ck (take n (drop ip b)))"
  by (simp add: call_ipv4_cksum_def ld_bytes_def)

lemma call_udptcp_cksum_defined:
  assumes "ip_hdr_len b 14 = Some (udp - 14)" "14 \<le> udp" "udp + 8 \<le> length b"
  shows "call_udptcp_cksum ck b 14 udp \<noteq> None \<longleftrightarrow> ip_in_room b"
proof -
  obtain t where t: "ld16 b 16 = Some t" using assms(2,3) by (auto simp: ld_in_bounds)
  have "udp + (unat (bswap16 t) - (udp - 14)) \<le> length b \<longleftrightarrow> 14 + unat (bswap16 t) \<le> length b"
    using assms(2,3) by linarith
  then show ?thesis
    using assms by (auto simp: call_udptcp_cksum_def ip_in_room_def be16_def t ld_bytes_def)
qed

text \<open>Fields behind the first four bytes of the header do not move what the routines read.\<close>

lemma header_put [simp]:
  assumes "18 \<le> i" "i + length xs \<le> length b"
  shows "ip_hdr_len (put b i xs) 14 = ip_hdr_len b 14" "ip_in_room (put b i xs) = ip_in_room b"
  using assms by (simp_all add: ip_hdr_len_def ip_in_room_def be16_def mem_simps)

lemma udp_checksum_ok_result:
  assumes "ip_hdr_len b 14 = Some (udp - 14)" "14 \<le> udp" "udp + 8 \<le> length b" "ld16 b (udp + 6) = Some c"
  shows "udp_checksum_ok ck b 14 udp = None \<longleftrightarrow> c \<noteq> 0 \<and> \<not> ip_in_room b"
    "udp_checksum_ok ck b 14 udp = Some (good, b') \<Longrightarrow> b' = b"
proof -
  have "call_udptcp_cksum ck (put b (udp + 6) (enc16 0)) 14 udp \<noteq> None \<longleftrightarrow> ip_in_room b"
    using call_udptcp_cksum_defined [of "put b (udp + 6) (enc16 0)" udp ck] assms(1-3) by simp
  then show "udp_checksum_ok ck b 14 udp = None \<longleftrightarrow> c \<noteq> 0 \<and> \<not> ip_in_room b"
    using assms by (auto simp: udp_checksum_ok_def st_in_bounds bind_eq_None_conv)
  show "udp_checksum_ok ck b 14 udp = Some (good, b') \<Longrightarrow> b' = b"
    using assms by (auto simp: udp_checksum_ok_def st_in_bounds mem_simps bind_eq_Some_conv split: if_splits)
qed

lemma fits_bound:
  assumes "mbuf_ok m" and "headers_fit (Some m) (as_u16 n)" and "n < 65536"
  shows "n \<le> length (mb_buf m)"
  using assms by (auto simp: mbuf_ok_def)

text \<open>
  Everything about \<open>parse_udp_ipv4\<close> at once: when it reads outside the buffer, what it accepts, and
  that it leaves the buffer as it was.
\<close>

lemma parse_udp_ipv4_result:
  assumes wf: "mbuf_ok m"
  shows "parse_udp_ipv4 ck (Some m) vf = None \<longleftrightarrow> vf \<and> \<not> ip_in_room (mb_buf m) \<and> ip_cksum_ok ck (mb_buf m) \<and>
      (\<exists>udp len c. udp_frame m udp len \<and> ld16 (mb_buf m) (udp + 6) = Some c \<and> c \<noteq> 0)"
    "parse_udp_ipv4 ck (Some m) vf = Some (ok, v, mo) \<longleftrightarrow>
      mo = Some m \<and> (\<exists>udp len. udp_frame m udp len \<and> v = udp_view udp len \<and> (vf \<longrightarrow> cksums_ok ck (mb_buf m) udp))"
    "parse_udp_ipv4 ck (Some m) vf = Some (st, v, mo) \<Longrightarrow> mo = Some m"
proof -
  let ?b = "mb_buf m" and ?A = "parse_udp_ipv4 ck (Some m) vf = None \<longleftrightarrow> vf \<and> \<not> ip_in_room (mb_buf m) \<and> ip_cksum_ok ck (mb_buf m) \<and>
      (\<exists>udp len c. udp_frame m udp len \<and> ld16 (mb_buf m) (udp + 6) = Some c \<and> c \<noteq> 0)"
    and ?B = "parse_udp_ipv4 ck (Some m) vf = Some (ok, v, mo) \<longleftrightarrow>
      mo = Some m \<and> (\<exists>udp len. udp_frame m udp len \<and> v = udp_view udp len \<and> (vf \<longrightarrow> cksums_ok ck (mb_buf m) udp))"
    and ?C = "parse_udp_ipv4 ck (Some m) vf = Some (st, v, mo) \<longrightarrow> mo = Some m"
  have "?A \<and> ?B \<and> ?C"
  proof (cases "headers_fit (Some m) (as_u16 (14 + 20 + 8))")
    case False
    then show ?thesis
      by (auto simp: parse_udp_ipv4_def udp_frame_def be16_def Let_def)
  next
    case fit: True
    have b42: "42 \<le> length ?b"
      using fits_bound [OF wf fit] by simp
    obtain t vi fr pr ci where lds: "ld16 ?b 12 = Some t" "ld8 ?b 14 = Some vi" "ld16 ?b 20 = Some fr"
       "ld8 ?b 23 = Some pr" "ld16 ?b 24 = Some ci"
      using b42 by (auto simp: ld_in_bounds)
    let ?ihl = "unat (vi AND 15) * 4"
    have hl: "ip_hdr_len ?b 14 = Some ?ihl" by (simp add: ip_hdr_len_def lds)
    show ?thesis
    proof (cases "headers_fit (Some m) (as_u16 (14 + ?ihl + 8))")
      case False
      then show ?thesis using fit low_nibble_le [of vi]
        by (auto simp: parse_udp_ipv4_def lds Let_def udp_frame_def be16_def)
    next
      case fit2: True
      then have udp: "14 + ?ihl + 8 \<le> length ?b"
        using fits_bound [OF wf fit2] low_nibble_le [of vi] by simp
      obtain len c where len: "ld16 ?b (14 + ?ihl + 4) = Some len" "ld16 ?b (14 + ?ihl + 6) = Some c"
        using udp by (auto simp: ld_in_bounds)
      obtain ic where ic: "call_ipv4_cksum ck (put ?b 24 (enc16 0)) 14 = Some ic"
        using call_ipv4_cksum_defined [of "put ?b 24 (enc16 0)" 14 ?ihl ck] hl udp b42 by simp
      have hl': "ip_hdr_len ?b 14 = Some (14 + ?ihl - 14)" using hl by simp
      note r = udp_checksum_ok_result [OF hl' _ udp len(2), of ck, simplified]
      show ?thesis
      proof (cases "udp_checksum_ok ck ?b 14 (14 + ?ihl)")
        case None
        then show ?thesis using fit fit2 b42 udp len low_nibble_le [of vi] r(1) ic
          by (auto simp: parse_udp_ipv4_def lds st_in_bounds mem_simps Let_def udp_frame_def cksums_ok_def ip_cksum_ok_def udp_view_def be16_def)
      next
        case (Some p)
        then obtain good where "udp_checksum_ok ck ?b 14 (14 + ?ihl) = Some (good, ?b)" using r(2) by (cases p) auto
        then show ?thesis using fit fit2 b42 udp len low_nibble_le [of vi] r(1) ic
          by (auto simp: parse_udp_ipv4_def lds st_in_bounds mem_simps Let_def udp_frame_def cksums_ok_def ip_cksum_ok_def udp_view_def be16_def)
      qed
    qed
  qed
  then show ?A ?B "parse_udp_ipv4 ck (Some m) vf = Some (st, v, mo) \<Longrightarrow> mo = Some m" by blast+
qed

lemmas parse_udp_ipv4_iff = parse_udp_ipv4_result(2)

lemma parse_udp_ipv4_defined:
  assumes "mbuf_ok m" "vf \<Longrightarrow> ip_in_room (mb_buf m)"
  shows "\<exists>st v. parse_udp_ipv4 ck (Some m) vf = Some (st, v, Some m)"
proof -
  have "parse_udp_ipv4 ck (Some m) vf \<noteq> None" using parse_udp_ipv4_result(1) [OF assms(1)] assms(2) by blast
  then show ?thesis using parse_udp_ipv4_result(3) [OF assms(1)] by (metis option.exhaust_sel prod_cases3)
qed

lemma ethertype_eq:
  assumes "mbuf_ok m"
  shows "ethertype (Some m) =
    (if 14 \<le> unat (mb_data_len m) then be16 (mb_buf m) 12 else Some 0)"
    and "ethertype (Some m) \<noteq> None"
  using assms by (auto simp: ethertype_def be16_def mbuf_ok_def ld16_def)

lemma parse_arp_defined:
  assumes "mbuf_ok m"
  shows "parse_arp (Some m) \<noteq> None"
proof (cases "42 \<le> unat (mb_data_len m)")
  case True
  with assms have "42 \<le> length (mb_buf m)" by (simp add: mbuf_ok_def)
  with True show ?thesis by (auto simp: parse_arp_def ub_free Let_def)
next
  case False
  then show ?thesis by (simp add: parse_arp_def)
qed

lemma passive_learn_defined:
  assumes "mbuf_ok m"
  shows "passive_learn_ipv4 (Some m) nt now \<noteq> None"
proof (cases "34 \<le> unat (mb_data_len m)")
  case True
  with assms have "34 \<le> length (mb_buf m)" by (simp add: mbuf_ok_def)
  with True show ?thesis
    by (auto simp: passive_learn_ipv4_def ub_free Let_def split: option.split)
next
  case False
  then show ?thesis by (auto simp: passive_learn_ipv4_def split: option.split)
qed

section \<open>Checksum round trip\<close>

lemma refresh_ipv4_checksum_ok:
  assumes "ip_hdr_len b 14 = Some n" "14 + n \<le> length b" "26 \<le> length b"
  shows "\<exists>c. refresh_ipv4_checksum ck b 14 = Some (put b 24 (enc16 c)) \<and>
    call_ipv4_cksum ck (put b 24 (enc16 0)) 14 = Some c"
  using assms call_ipv4_cksum_defined [of "put b 24 (enc16 0)" 14 n ck]
  by (simp add: refresh_ipv4_checksum_def ub_free put_put_same)

lemma refresh_udp_checksum_ok:
  assumes "ip_hdr_len b 14 = Some (udp - 14)" "14 \<le> udp" "udp + 8 \<le> length b" "ip_in_room b"
  shows "\<exists>c. refresh_udp_checksum ck b 14 udp = Some (put b (udp + 6) (enc16 c)) \<and>
    udp_checksum_ok ck (put b (udp + 6) (enc16 c)) 14 udp = Some (True, put b (udp + 6) (enc16 c))"
proof -
  obtain calc where calc: "call_udptcp_cksum ck (put b (udp + 6) (enc16 0)) 14 udp = Some calc"
    using call_udptcp_cksum_defined [of "put b (udp + 6) (enc16 0)" udp ck] assms by auto
  define c where "c = (if calc = 0 then 0xffff else calc)"
  have c: "c \<noteq> 0" "c = calc \<or> c = 0xffff \<and> calc = 0"
    by (auto simp: c_def)
  have "refresh_udp_checksum ck b 14 udp = Some (put b (udp + 6) (enc16 c))"
    using assms calc by (simp add: refresh_udp_checksum_def st_in_bounds mem_simps put_put_same c_def)
  moreover have "udp_checksum_ok ck (put b (udp + 6) (enc16 c)) 14 udp
      = Some (True, put b (udp + 6) (enc16 c))"
    using assms c calc by (auto simp: udp_checksum_ok_def st_in_bounds mem_simps put_put_same Let_def)
  ultimately show ?thesis by blast
qed

lemma clear_udp_checksum_ok:
  assumes "udp + 8 \<le> length b"
  shows "clear_udp_checksum b udp = Some (put b (udp + 6) (enc16 0)) \<and>
    udp_checksum_ok ck (put b (udp + 6) (enc16 0)) ip udp = Some (True, put b (udp + 6) (enc16 0))"
  using assms by (simp add: clear_udp_checksum_def udp_checksum_ok_def st_in_bounds mem_simps)

section \<open>Properties\<close>

lemmas [eval_simps] = parse_udp_ipv4_def Let_def headers_fit.simps as_u16_def udp_view_def
  null_view_def frame_mbuf_def be16_def

text \<open>A client datagram to the virtual address, with the given UDP length field.\<close>

definition client_frame :: "u8 \<Rightarrow> u8 \<Rightarrow> bytes" where
  "client_frame hi lo =
     [2,0,0,0,0,1, 2,0,0,0,0,9, 0x08,0x00,
      0x45,0,0,28, 0,0,0,0, 64,17,0,0, 10,0,0,9, 192,168,1,100,
      0x13,0x88, 0,53, hi,lo, 0,0]"

text \<open>
  C18: where the parsers read. On every well-formed buffer, whatever its contents, \<open>parse_arp\<close>,
  \<open>ethertype\<close> and \<open>passive_learn_ipv4\<close> stay inside the buffer, and so does \<open>parse_udp_ipv4\<close> without
  checksum verification, as the gateway uses it. With verification it leaves the buffer exactly
  for UDP frames with a good header checksum and a UDP checksum to verify whose announced total
  length goes beyond the buffer: that field is never checked. When it returns, the temporary
  zeroing of the checksum fields has left the buffer as it was.
\<close>

theorem parsers_memory_safe:
  assumes "mbuf_ok m"
  shows "(parse_udp_ipv4 ck (Some m) vf = None \<longleftrightarrow> vf \<and> \<not> ip_in_room (mb_buf m) \<and> ip_cksum_ok ck (mb_buf m) \<and>
      (\<exists>udp len c. udp_frame m udp len \<and> ld16 (mb_buf m) (udp + 6) = Some c \<and> c \<noteq> 0)) \<and>
    (\<forall>st v mo. parse_udp_ipv4 ck (Some m) vf = Some (st, v, mo) \<longrightarrow> mo = Some m) \<and>
    parse_arp (Some m) \<noteq> None \<and> ethertype (Some m) \<noteq> None \<and>
    passive_learn_ipv4 (Some m) nt now \<noteq> None"
proof (intro conjI allI impI)
  show "mo = Some m" if "parse_udp_ipv4 ck (Some m) vf = Some (st, v, mo)" for st v mo
    using parse_udp_ipv4_result(3) [OF assms that] .
qed (rule parse_udp_ipv4_result(1) [OF assms] parse_arp_defined [OF assms] ethertype_eq(2) [OF assms] passive_learn_defined [OF assms])+

text \<open>A datagram of 28 announced bytes is verified inside its buffer; one that announces 65535 is not.\<close>

theorem parsers_memory_safe_witness:
  "parse_udp_ipv4 \<lparr>rte_ipv4_cksum = (\<lambda>_. 0), rte_ipv4_udptcp_cksum = (\<lambda>_ _. 9)\<rparr>
      (Some (frame_mbuf 1 (put (client_frame 0 8) 40 [9, 0]))) True \<noteq> None \<and>
   parse_udp_ipv4 \<lparr>rte_ipv4_cksum = (\<lambda>_. 0), rte_ipv4_udptcp_cksum = (\<lambda>_ _. 9)\<rparr>
      (Some (frame_mbuf 1 (put (put (client_frame 0 8) 40 [9, 0]) 16 [255, 255]))) True = None"
proof -
  let ?ck = "\<lparr>rte_ipv4_cksum = (\<lambda>_. 0), rte_ipv4_udptcp_cksum = (\<lambda>_ _. 9)\<rparr>"
  let ?m = "frame_mbuf 1 (put (client_frame 0 8) 40 [9, 0])"
  let ?n = "frame_mbuf 1 (put (put (client_frame 0 8) 40 [9, 0]) 16 [255, 255])"
  have "mbuf_ok ?m" "mbuf_ok ?n" by (simp_all add: frame_mbuf_ok client_frame_def put_def)
  moreover have "ip_in_room (mb_buf ?m)" "\<not> ip_in_room (mb_buf ?n)"
    by (simp_all add: ip_in_room_def client_frame_def eval_simps)
  moreover have "ip_cksum_ok ?ck (mb_buf ?n)" "udp_frame ?n 34 8" "ld16 (mb_buf ?n) (34 + 6) = Some 9"
    by (simp_all add: ip_cksum_ok_def call_ipv4_cksum_def ip_hdr_len_def ld_bytes_def udp_frame_def client_frame_def eval_simps)
  moreover have "(9 :: u16) \<noteq> 0" by simp
  ultimately show ?thesis
    using parsers_memory_safe [of ?m ?ck True] parsers_memory_safe [of ?n ?ck True] by blast
qed

text \<open>
  C19: \<open>parse_udp_ipv4\<close> answers \<open>ok\<close> exactly for the frames that are unfragmented IPv4
  carrying UDP in the sense of the wire format (and whose checksums agree, when verification
  is on), and then the view points at the Ethernet, IPv4 and UDP headers and the payload.
\<close>

theorem parse_udp_ipv4_accepts:
  assumes "mbuf_ok m"
  shows "parse_udp_ipv4 ck (Some m) vf = Some (ok, v, mo) \<longleftrightarrow>
    mo = Some m \<and> (\<exists>udp len. udp_frame m udp len \<and> v = udp_view udp len \<and>
      (vf \<longrightarrow> cksums_ok ck (mb_buf m) udp))"
  using assms by (rule parse_udp_ipv4_iff)

theorem parse_udp_ipv4_accepts_witness:
  "\<exists>udp len. udp_frame (frame_mbuf 1 (client_frame 0 8)) udp len \<and>
    udp_view 34 8 = udp_view udp len"
proof -
  have wf: "mbuf_ok (frame_mbuf 1 (client_frame 0 8))"
    by (simp add: frame_mbuf_ok client_frame_def)
  have "parse_udp_ipv4 undefined (Some (frame_mbuf 1 (client_frame 0 8))) False
     = Some (ok, udp_view 34 8, Some (frame_mbuf 1 (client_frame 0 8)))"
    by (simp add: eval_simps client_frame_def)
  then show ?thesis
    using parse_udp_ipv4_accepts [OF wf, of undefined False "udp_view 34 8"
        "Some (frame_mbuf 1 (client_frame 0 8))"] by simp
qed

text \<open>
  C31: the payload of an accepted datagram lies inside the received data exactly when the
  offset of the UDP header plus the UDP length field fits 16 bits. The length check compares
  a sum converted to \<open>uint16_t\<close>, so a larger length field passes it after wrapping.
\<close>

theorem payload_in_frame_iff_no_wrap:
  assumes "mbuf_ok m" and "parse_udp_ipv4 ck (Some m) vf = Some (ok, v, mo)"
  shows "\<exists>udp len. v = udp_view udp len \<and> be16 (mb_buf m) (udp + 4) = Some len \<and>
    (udp + 8 + unat (pv_payload_len v) \<le> unat (mb_data_len m) \<longleftrightarrow> udp + unat len < 65536)"
proof -
  obtain udp len where f: "udp_frame m udp len" and v: "v = udp_view udp len"
    using assms parse_udp_ipv4_iff by blast
  from f have len: "8 \<le> unat len" and fit: "(udp + unat len) mod 65536 \<le> unat (mb_data_len m)"
    by (auto simp: udp_frame_def Let_def)
  from len have "unat (len - 8) = unat len - 8"
    by (simp add: unat_sub word_le_nat_alt)
  then have "udp + 8 + unat (pv_payload_len v) = udp + unat len"
    using len by (simp add: v udp_view_def)
  moreover have "unat (mb_data_len m) < 65536"
    by (rule unat_u16_less)
  ultimately have "udp + 8 + unat (pv_payload_len v) \<le> unat (mb_data_len m) \<longleftrightarrow> udp + unat len < 65536"
    using fit by (cases "udp + unat len < 65536") auto
  moreover have "be16 (mb_buf m) (udp + 4) = Some len"
    using f by (simp add: udp_frame_def Let_def)
  ultimately show ?thesis
    using v by blast
qed

theorem payload_in_frame_iff_no_wrap_witness:
  "\<exists>udp len. udp_view 34 0xffff = udp_view udp len \<and>
    be16 (client_frame 0xff 0xff) (udp + 4) = Some len \<and>
    (udp + 8 + 65527 \<le> 42 \<longleftrightarrow> udp + unat len < 65536)"
proof -
  have wf: "mbuf_ok (frame_mbuf 1 (client_frame 0xff 0xff))"
    by (simp add: frame_mbuf_ok client_frame_def)
  have "parse_udp_ipv4 undefined (Some (frame_mbuf 1 (client_frame 0xff 0xff))) False
     = Some (ok, udp_view 34 0xffff, Some (frame_mbuf 1 (client_frame 0xff 0xff)))"
    by (simp add: eval_simps client_frame_def)
  from payload_in_frame_iff_no_wrap [OF wf this] show ?thesis
    by (simp add: udp_view_def frame_mbuf_def client_frame_def)
qed

text \<open>
  The wrap-around is reachable: a 42-byte frame whose UDP length field is 65535 is
  accepted, and its view claims 65527 payload bytes in a buffer that ends at the payload.
\<close>

theorem wrapped_length_accepted:
  "parse_udp_ipv4 ck (Some (frame_mbuf 1 (client_frame 0xff 0xff))) False
     = Some (ok, udp_view 34 0xffff, Some (frame_mbuf 1 (client_frame 0xff 0xff))) \<and>
   unat (pv_payload_len (udp_view 34 0xffff)) = 65527 \<and>
   length (client_frame 0xff 0xff) = 42"
  by (simp add: eval_simps client_frame_def)

end
