(* ===== verification/Forward.thy ===== *)
theory Forward
  imports Packet Session
begin

text \<open>
  The UDP forwarding pipeline of \<open>src/src/forward.hpp\<close> and \<open>forward.cpp\<close>: classification
  of a frame, destination and source translation, checksum repair and the Ethernet rewrite.
  Writes through the packet view are writes to the bytes of the buffer; a write through a null
  view pointer is undefined behaviour (\<open>None\<close>). The upstream picker is a \<open>std::function\<close>
  that may be empty: \<open>None\<close>, or a function of its own state \<open>'u\<close> and the flow. A null
  neighbor table is \<open>None\<close>. Debug logging does not change state and is left out.
\<close>

section \<open>Types\<close>

record FwdUpstream =
  up_ip_be :: u32
  up_port :: u16

type_synonym 'u UpstreamPicker = "('u \<Rightarrow> FlowKey \<Rightarrow> FwdUpstream option \<times> 'u) option"

record VipEndpoint =
  vip_ip_be :: u32
  vip_ep_port :: u16

record ForwardConfig =
  fc_vip :: VipEndpoint
  fc_gateway_ip_be :: u32
  fc_gateway_mac :: rte_ether_addr
  fc_upstream_mac :: rte_ether_addr
  fc_client_side_mac :: rte_ether_addr
  fc_verify_checksum :: bool
  fc_recompute_udp_checksum :: bool

datatype HandleResult = hr_drop | tx_forward | tx_reverse | tx_arp | pending_arp

record HandleOutcome =
  ho_result :: HandleResult
  ho_arp_wait_ip_be :: u32
  ho_learned_ip_be :: u32

definition outcome :: "HandleResult \<Rightarrow> HandleOutcome" where
  "outcome r = \<lparr>ho_result = r, ho_arp_wait_ip_be = 0, ho_learned_ip_be = 0\<rparr>"

section \<open>Operations\<close>

definition pending_for :: "u32 \<Rightarrow> HandleOutcome" where
  "pending_for next_hop_ip_be = (outcome pending_arp)\<lparr>ho_arp_wait_ip_be := next_hop_ip_be\<rparr>"

definition lookup_next_hop_mac ::
    "NeighborTable option \<Rightarrow> u32 \<Rightarrow> rte_ether_addr \<Rightarrow> rte_ether_addr option" where
  "lookup_next_hop_mac neighbors ip_be fallback =
     (case neighbors of
        Some nt \<Rightarrow> (case nt_lookup nt ip_be of Some mac \<Rightarrow> Some mac | None \<Rightarrow> None)
      | None \<Rightarrow> Some fallback)"

definition flow_key_from_view :: "rte_mbuf \<Rightarrow> PacketView \<Rightarrow> FlowKey option" where
  "flow_key_from_view m v = do {
     sip \<leftarrow> src_ip m v;
     dip \<leftarrow> dst_ip m v;
     sp \<leftarrow> src_port m v;
     dp \<leftarrow> dst_port m v;
     Some \<lparr>fk_src_ip = sip, fk_dst_ip = dip, fk_src_port = sp, fk_dst_port = dp, fk_proto = IPPROTO_UDP\<rparr>
   }"

definition set_l2 :: "bytes \<Rightarrow> PacketView \<Rightarrow> rte_ether_addr \<Rightarrow> rte_ether_addr \<Rightarrow> bytes option" where
  "set_l2 b v src dst = (case pv_eth v of None \<Rightarrow> Some b
     | Some eth \<Rightarrow> do {
         b1 \<leftarrow> st_mac b (eth + eth_src_addr) src;
         st_mac b1 (eth + eth_dst_addr) dst
       })"

definition finish_l4_checksum :: "cksum_fns \<Rightarrow> bytes \<Rightarrow> PacketView \<Rightarrow> bool \<Rightarrow> bytes option" where
  "finish_l4_checksum ck b v recompute_udp = do {
     ip \<leftarrow> pv_ip v;
     b1 \<leftarrow> refresh_ipv4_checksum ck b ip;
     udp \<leftarrow> pv_udp v;
     if recompute_udp then refresh_udp_checksum ck b1 ip udp
     else clear_udp_checksum b1 udp
   }"

definition apply_forward_nat ::
    "cksum_fns \<Rightarrow> bytes \<Rightarrow> PacketView \<Rightarrow> Session \<Rightarrow> u32 \<Rightarrow> bool \<Rightarrow> bytes option" where
  "apply_forward_nat ck b v s gateway_ip_be recompute_udp_checksum = do {
     ip \<leftarrow> pv_ip v;
     b1 \<leftarrow> st32 b (ip + ip_src_addr) gateway_ip_be;
     b2 \<leftarrow> st32 b1 (ip + ip_dst_addr) (s_upstream_ip s);
     udp \<leftarrow> pv_udp v;
     b3 \<leftarrow> st16 b2 (udp + udp_src_port) (rte_cpu_to_be_16 (s_snat_port s));
     b4 \<leftarrow> st16 b3 (udp + udp_dst_port) (rte_cpu_to_be_16 (s_upstream_port s));
     finish_l4_checksum ck b4 v recompute_udp_checksum
   }"

definition apply_reverse_nat ::
    "cksum_fns \<Rightarrow> bytes \<Rightarrow> PacketView \<Rightarrow> Session \<Rightarrow> bool \<Rightarrow> bytes option" where
  "apply_reverse_nat ck b v s recompute_udp_checksum = do {
     ip \<leftarrow> pv_ip v;
     b1 \<leftarrow> st32 b (ip + ip_src_addr) (s_vip_ip s);
     b2 \<leftarrow> st32 b1 (ip + ip_dst_addr) (s_client_ip s);
     udp \<leftarrow> pv_udp v;
     b3 \<leftarrow> st16 b2 (udp + udp_src_port) (rte_cpu_to_be_16 (s_vip_port s));
     b4 \<leftarrow> st16 b3 (udp + udp_dst_port) (rte_cpu_to_be_16 (s_client_port s));
     finish_l4_checksum ck b4 v recompute_udp_checksum
   }"

definition finish_l2 ::
    "cksum_fns \<Rightarrow> ForwardConfig \<Rightarrow> NeighborTable option \<Rightarrow> rte_mbuf option \<Rightarrow> u32 \<Rightarrow> (bool \<times> rte_mbuf option) option" where
  "finish_l2 ck cfg neighbors mo next_hop_ip_be = do {
     (status, view, mo1) \<leftarrow> parse_udp_ipv4 ck mo False;
     case mo1 of
       Some m \<Rightarrow>
         if status \<noteq> ok then Some (False, mo1)
         else (case lookup_next_hop_mac neighbors next_hop_ip_be (fc_upstream_mac cfg) of
             None \<Rightarrow> Some (False, mo1)
           | Some dst_mac \<Rightarrow> do {
               b \<leftarrow> set_l2 (mb_buf m) view (fc_gateway_mac cfg) dst_mac;
               Some (True, Some (m\<lparr>mb_buf := b\<rparr>))
             })
     | None \<Rightarrow> Some (False, mo1)
   }"

text \<open>
  The first half of \<open>handle_forward\<close>: the session of the flow, found and touched or
  created for an upstream the picker chose; a null result drops the packet.
\<close>

definition flow_session ::
    "'u UpstreamPicker \<Rightarrow> SessionTable \<Rightarrow> 'u \<Rightarrow> FlowKey \<Rightarrow> u64 \<Rightarrow> (sptr option \<times> SessionTable \<times> 'u) option" where
  "flow_session picker st u key now =
     (case lookup_forward st key of
        None \<Rightarrow> (case picker of
            None \<Rightarrow> Some (None, st, u)
          | Some pick \<Rightarrow> (case pick u key of
                (None, u1) \<Rightarrow> Some (None, st, u1)
              | (Some up, u1) \<Rightarrow>
                  if up_ip_be up = 0 then Some (None, st, u1)
                  else (case create st key (up_ip_be up) (up_port up) now of
                          (r, st1) \<Rightarrow> Some (r, st1, u1))))
      | Some p \<Rightarrow> do { st1 \<leftarrow> touch st (Some p) now; Some (Some p, st1, u) })"

definition handle_forward ::
    "cksum_fns \<Rightarrow> ForwardConfig \<Rightarrow> 'u UpstreamPicker \<Rightarrow> NeighborTable option \<Rightarrow> rte_mbuf \<Rightarrow> PacketView \<Rightarrow>
     u64 \<Rightarrow> SessionTable \<Rightarrow> 'u \<Rightarrow> (HandleOutcome \<times> rte_mbuf \<times> SessionTable \<times> 'u) option" where
  "handle_forward ck cfg picker neighbors m v now st u = do {
     key \<leftarrow> flow_key_from_view m v;
     (sp, st1, u1) \<leftarrow> flow_session picker st u key now;
     case sp of
       None \<Rightarrow> Some (outcome hr_drop, m, st1, u1)
     | Some p \<Rightarrow> do {
         s \<leftarrow> st_heap st1 p;
         b \<leftarrow> apply_forward_nat ck (mb_buf m) v s (fc_gateway_ip_be cfg) (fc_recompute_udp_checksum cfg);
         case lookup_next_hop_mac neighbors (s_upstream_ip s) (fc_upstream_mac cfg) of
           None \<Rightarrow> Some (pending_for (s_upstream_ip s), m\<lparr>mb_buf := b\<rparr>, st1, u1)
         | Some dst_mac \<Rightarrow> do {
             b1 \<leftarrow> set_l2 b v (fc_gateway_mac cfg) dst_mac;
             Some (outcome tx_forward, m\<lparr>mb_buf := b1\<rparr>, st1, u1)
           }
       }
   }"

definition handle_reverse ::
    "cksum_fns \<Rightarrow> ForwardConfig \<Rightarrow> NeighborTable option \<Rightarrow> rte_mbuf \<Rightarrow> PacketView \<Rightarrow>
     u64 \<Rightarrow> SessionTable \<Rightarrow> (HandleOutcome \<times> rte_mbuf \<times> SessionTable) option" where
  "handle_reverse ck cfg neighbors m v now st = do {
     key \<leftarrow> flow_key_from_view m v;
     case lookup_reverse st key of
       None \<Rightarrow> Some (outcome hr_drop, m, st)
     | Some p \<Rightarrow> do {
         st1 \<leftarrow> touch st (Some p) now;
         s \<leftarrow> st_heap st1 p;
         b \<leftarrow> apply_reverse_nat ck (mb_buf m) v s (fc_recompute_udp_checksum cfg);
         case lookup_next_hop_mac neighbors (s_client_ip s) (fc_client_side_mac cfg) of
           None \<Rightarrow> Some (pending_for (s_client_ip s), m\<lparr>mb_buf := b\<rparr>, st1)
         | Some dst_mac \<Rightarrow> do {
             b1 \<leftarrow> set_l2 b v (fc_gateway_mac cfg) dst_mac;
             Some (outcome tx_reverse, m\<lparr>mb_buf := b1\<rparr>, st1)
           }
       }
   }"

definition fwd_handle ::
    "cksum_fns \<Rightarrow> ForwardConfig \<Rightarrow> 'u UpstreamPicker \<Rightarrow> NeighborTable option \<Rightarrow> rte_mbuf option \<Rightarrow>
     u64 \<Rightarrow> SessionTable \<Rightarrow> 'u \<Rightarrow> (HandleOutcome \<times> rte_mbuf option \<times> SessionTable \<times> 'u) option" where
  "fwd_handle ck cfg picker neighbors mo now st u = do {
     (status, view, mo1) \<leftarrow> parse_udp_ipv4 ck mo (fc_verify_checksum cfg);
     case mo1 of
       None \<Rightarrow> Some (outcome hr_drop, mo1, st, u)
     | Some m \<Rightarrow>
         if status \<noteq> ok then Some (outcome hr_drop, mo1, st, u)
         else do {
           dst \<leftarrow> dst_ip m view;
           dport \<leftarrow> dst_port m view;
           if dst = vip_ip_be (fc_vip cfg) \<and> dport = vip_ep_port (fc_vip cfg) then do {
             (o', m1, st1, u1) \<leftarrow> handle_forward ck cfg picker neighbors m view now st u;
             Some (o', Some m1, st1, u1)
           }
           else if dst = fc_gateway_ip_be cfg then do {
             (o', m1, st1) \<leftarrow> handle_reverse ck cfg neighbors m view now st;
             Some (o', Some m1, st1, u)
           }
           else Some (outcome hr_drop, mo1, st, u)
         }
   }"

definition set_gateway_mac :: "ForwardConfig \<Rightarrow> rte_ether_addr \<Rightarrow> ForwardConfig" where
  "set_gateway_mac cfg mac = cfg\<lparr>fc_gateway_mac := mac\<rparr>"

section \<open>Frames and their flows\<close>

text \<open>The flow a UDP frame belongs to, read off the wire.\<close>

definition frame_flow :: "bytes \<Rightarrow> nat \<Rightarrow> FlowKey option" where
  "frame_flow b udp = do {
     sip \<leftarrow> ld32 b 26;
     dip \<leftarrow> ld32 b 30;
     sp \<leftarrow> be16 b udp;
     dp \<leftarrow> be16 b (udp + 2);
     Some \<lparr>fk_src_ip = sip, fk_dst_ip = dip, fk_src_port = sp, fk_dst_port = dp, fk_proto = IPPROTO_UDP\<rparr>
   }"

lemma udp_frame_bounds:
  assumes "mbuf_ok m" "udp_frame m udp len"
  shows "34 \<le> udp" "udp + 8 \<le> length (mb_buf m)"
  using assms by (auto simp: mbuf_ok_def udp_frame_def Let_def)

lemma flow_key_of_frame: "flow_key_from_view m (udp_view udp len) = frame_flow (mb_buf m) udp"
  by (simp add: flow_key_from_view_def frame_flow_def udp_view_def src_ip_def dst_ip_def src_port_def
      dst_port_def be16_def)

lemma frame_flow_defined:
  assumes "34 \<le> udp" "udp + 8 \<le> length b"
  obtains k where "frame_flow b udp = Some k" "ld32 b 26 = Some (fk_src_ip k)" "ld32 b 30 = Some (fk_dst_ip k)"
    "be16 b udp = Some (fk_src_port k)" "be16 b (udp + 2) = Some (fk_dst_port k)" "fk_proto k = 17"
proof -
  obtain sip dip sp dp where "ld32 b 26 = Some sip" "ld32 b 30 = Some dip" "ld16 b udp = Some sp"
    "ld16 b (udp + 2) = Some dp"
    using assms by (auto simp: ld_in_bounds)
  then show ?thesis
    using that [of "\<lparr>fk_src_ip = sip, fk_dst_ip = dip, fk_src_port = bswap16 sp,
        fk_dst_port = bswap16 dp, fk_proto = 17\<rparr>"] by (simp add: frame_flow_def be16_def)
qed

section \<open>The translation rewrites only addresses, ports and checksums\<close>

text \<open>
  \<open>rewritten ck b udp k b'\<close>: \<open>b'\<close> is \<open>b\<close> with the flow \<open>k\<close> written into it: the two
  addresses, the two ports and the two checksums changed, no other byte.
\<close>

definition nat_bytes :: "nat \<Rightarrow> nat set" where
  "nat_bytes udp = {24..<34} \<union> {udp..<udp + 4} \<union> {udp + 6, udp + 7}"

definition rewritten :: "bytes \<Rightarrow> nat \<Rightarrow> FlowKey \<Rightarrow> bytes \<Rightarrow> bool" where
  "rewritten b udp k b' \<longleftrightarrow> length b' = length b \<and> frame_flow b' udp = Some k \<and>
     (\<forall>i < length b. i \<notin> nat_bytes udp \<longrightarrow> b' ! i = b ! i)"

definition put_addrs :: "bytes \<Rightarrow> nat \<Rightarrow> FlowKey \<Rightarrow> bytes" where
  "put_addrs b udp k =
     put (put (put (put b 26 (enc32 (fk_src_ip k))) 30 (enc32 (fk_dst_ip k)))
       udp (enc16 (bswap16 (fk_src_port k)))) (udp + 2) (enc16 (bswap16 (fk_dst_port k)))"

definition put_flow :: "bytes \<Rightarrow> nat \<Rightarrow> FlowKey \<Rightarrow> u16 \<Rightarrow> u16 \<Rightarrow> bytes" where
  "put_flow b udp k ipc uc = put (put (put_addrs b udp k) 24 (enc16 ipc)) (udp + 6) (enc16 uc)"

lemma put_flow_rewritten:
  assumes "34 \<le> udp" "udp + 8 \<le> length b" "fk_proto k = 17"
  shows "rewritten b udp k (put_flow b udp k ipc uc)"
proof -
  have "frame_flow (put_flow b udp k ipc uc) udp = Some k"
    using assms by (cases k) (simp add: frame_flow_def be16_def put_flow_def put_addrs_def mem_simps)
  moreover have "put_flow b udp k ipc uc ! i = b ! i" if "i < length b" "i \<notin> nat_bytes udp" for i
  proof -
    have "i < 24 \<or> 34 \<le> i" "i < udp \<or> udp + 4 \<le> i" "i < udp + 6 \<or> udp + 8 \<le> i"
      using that(2) by (auto simp: nat_bytes_def)
    then show ?thesis
      using that(1) assms by (elim disjE) (simp_all add: put_flow_def put_addrs_def mem_simps)
  qed
  ultimately show ?thesis
    using assms by (simp add: rewritten_def put_flow_def put_addrs_def)
qed

text \<open>
  Both translations and the flow they write: the forward one to the upstream, the reverse one
  back to the client.
\<close>

definition forward_flow :: "u32 \<Rightarrow> Session \<Rightarrow> FlowKey" where
  "forward_flow gw s = \<lparr>fk_src_ip = gw, fk_dst_ip = s_upstream_ip s, fk_src_port = s_snat_port s,
     fk_dst_port = s_upstream_port s, fk_proto = 17\<rparr>"

definition reverse_flow :: "Session \<Rightarrow> FlowKey" where
  "reverse_flow s = \<lparr>fk_src_ip = s_vip_ip s, fk_dst_ip = s_client_ip s, fk_src_port = s_vip_port s,
     fk_dst_port = s_client_port s, fk_proto = 17\<rparr>"

definition rewrite_flow :: "cksum_fns \<Rightarrow> bytes \<Rightarrow> nat \<Rightarrow> FlowKey \<Rightarrow> bool \<Rightarrow> bytes option" where
  "rewrite_flow ck b udp k re = do {
     b1 \<leftarrow> st32 b 26 (fk_src_ip k);
     b2 \<leftarrow> st32 b1 30 (fk_dst_ip k);
     b3 \<leftarrow> st16 b2 udp (bswap16 (fk_src_port k));
     b4 \<leftarrow> st16 b3 (udp + 2) (bswap16 (fk_dst_port k));
     finish_l4_checksum ck b4 (udp_view udp 0) re
   }"

lemma nat_is_rewrite:
  "apply_forward_nat ck b (udp_view udp len) s gw re = rewrite_flow ck b udp (forward_flow gw s) re"
  "apply_reverse_nat ck b (udp_view udp len) s re = rewrite_flow ck b udp (reverse_flow s) re"
  by (simp_all add: apply_forward_nat_def apply_reverse_nat_def rewrite_flow_def forward_flow_def
      reverse_flow_def finish_l4_checksum_def udp_view_def)

lemma frame_hdr_len:
  assumes "udp_frame m udp len"
  shows "ip_hdr_len (mb_buf m) 14 = Some (udp - 14)"
  using assms by (auto simp: udp_frame_def ip_hdr_len_def Let_def)

lemma rewrite_flow_ok:
  assumes hl: "ip_hdr_len b 14 = Some (udp - 14)" and bd: "34 \<le> udp" "udp + 8 \<le> length b" and re: "re \<Longrightarrow> ip_in_room b"
  shows "\<exists>ipc uc. rewrite_flow ck b udp k re = Some (put_flow b udp k ipc uc) \<and>
    call_ipv4_cksum ck (put (put_addrs b udp k) 24 (enc16 0)) 14 = Some ipc \<and>
    udp_checksum_ok ck (put_flow b udp k ipc uc) 14 udp = Some (True, put_flow b udp k ipc uc)"
proof -
  let ?b4 = "put_addrs b udp k"
  have b4: "length ?b4 = length b" "ip_hdr_len ?b4 14 = Some (udp - 14)" "ip_in_room ?b4 = ip_in_room b"
    using bd hl by (simp_all add: put_addrs_def)
  obtain ipc where ipc: "refresh_ipv4_checksum ck ?b4 14 = Some (put ?b4 24 (enc16 ipc))"
      "call_ipv4_cksum ck (put ?b4 24 (enc16 0)) 14 = Some ipc"
    using refresh_ipv4_checksum_ok [of ?b4 "udp - 14" ck] bd b4 by auto
  let ?b5 = "put ?b4 24 (enc16 ipc)"
  have b5: "ip_hdr_len ?b5 14 = Some (udp - 14)" "14 \<le> udp" "udp + 8 \<le> length ?b5" "ip_in_room ?b5 = ip_in_room b"
    using bd b4 by simp_all
  obtain uc where uc: "(if re then refresh_udp_checksum ck ?b5 14 udp else clear_udp_checksum ?b5 udp) =
      Some (put ?b5 (udp + 6) (enc16 uc))"
    "udp_checksum_ok ck (put ?b5 (udp + 6) (enc16 uc)) 14 udp = Some (True, put ?b5 (udp + 6) (enc16 uc))"
    using refresh_udp_checksum_ok [OF b5(1-3), of ck] clear_udp_checksum_ok [OF b5(3), of ck 14] re b5(4) by (cases re) auto
  have "rewrite_flow ck b udp k re = finish_l4_checksum ck ?b4 (udp_view udp 0) re"
    using bd by (simp add: rewrite_flow_def st_in_bounds put_addrs_def)
  also have "\<dots> = Some (put_flow b udp k ipc uc)"
    using ipc(1) uc(1) by (simp add: finish_l4_checksum_def udp_view_def put_flow_def)
  finally show ?thesis
    using ipc(2) uc(2) by (auto simp: put_flow_def)
qed

text \<open>The checksum of the header does not depend on the UDP checksum that is written after it.\<close>

lemma rewrite_flow_cksums:
  assumes f: "mbuf_ok m" "udp_frame m udp len" and re: "re \<Longrightarrow> ip_in_room (mb_buf m)"
    and r: "rewrite_flow ck (mb_buf m) udp k re = Some b'"
  shows "cksums_ok ck b' udp"
proof -
  note bd = udp_frame_bounds [OF f] and hl = frame_hdr_len [OF f(2)]
  obtain ipc uc where b': "b' = put_flow (mb_buf m) udp k ipc uc"
    and ipc: "call_ipv4_cksum ck (put (put_addrs (mb_buf m) udp k) 24 (enc16 0)) 14 = Some ipc"
    and u: "udp_checksum_ok ck b' 14 udp = Some (True, b')"
    using rewrite_flow_ok [where ck = ck and k = k and re = re, OF hl bd re] r by auto
  let ?x = "put (put_addrs (mb_buf m) udp k) 24 (enc16 0)" and ?y = "put b' 24 (enc16 0)"
  have len: "length (put_addrs (mb_buf m) udp k) = length (mb_buf m)" "length b' = length (mb_buf m)"
    using bd by (simp_all add: put_addrs_def b' put_flow_def)
  have "ip_hdr_len ?x 14 = Some (udp - 14)" using bd len hl by (simp add: put_addrs_def)
  then have "call_ipv4_cksum ck ?y 14 = call_ipv4_cksum ck ?x 14"
    by (rule call_ipv4_cksum_cong [rotated]) (use bd len in \<open>auto simp: nth_put b' put_flow_def\<close>)
  moreover have "ld16 b' 24 = Some ipc"
    using bd len by (simp add: b' put_flow_def mem_simps)
  ultimately show ?thesis
    using u ipc by (simp add: cksums_ok_def ip_cksum_ok_def)
qed

section \<open>The Ethernet rewrite\<close>

lemma set_l2_ok:
  assumes "12 \<le> length b"
  shows "set_l2 b (udp_view udp len) src dst = Some (put (put b 6 (addr_bytes src)) 0 (addr_bytes dst))"
  using assms by (simp add: set_l2_def udp_view_def st_mac_in_bounds)

text \<open>The checksums of a frame depend only on what follows the Ethernet header.\<close>

lemma udp_checksum_ok_eq:
  assumes "udp + 8 \<le> length b"
  shows "udp_checksum_ok ck b ip udp = Some (True, b) \<longleftrightarrow> (\<exists>c. ld16 b (udp + 6) = Some c \<and>
    (c = 0 \<or> (\<exists>calc. call_udptcp_cksum ck (put b (udp + 6) (enc16 0)) ip udp = Some calc \<and>
      (c = calc \<or> c = 0xffff \<and> calc = 0))))"
proof -
  obtain c where "ld16 b (udp + 6) = Some c"
    using assms by (auto simp: ld_in_bounds)
  then show ?thesis
    using assms by (auto simp: udp_checksum_ok_def st_in_bounds mem_simps Let_def bind_eq_Some_conv)
qed

lemma cksums_ok_cong:
  assumes hl: "ip_hdr_len b 14 = Some n" "0 < n" and bd: "34 \<le> udp" "udp + 8 \<le> length b" "length b' = length b"
    and same: "\<And>i. 14 \<le> i \<Longrightarrow> i < length b \<Longrightarrow> b' ! i = b ! i"
  shows "cksums_ok ck b' udp \<longleftrightarrow> cksums_ok ck b udp"
proof -
  have put: "put b' i xs ! j = put b i xs ! j" if "14 \<le> i" "i + length xs \<le> length b" "14 \<le> j" "j < length b" for i j xs
    using that same bd(3) by (simp add: nth_put)
  have "ip_hdr_len (put b 24 (enc16 0)) 14 = Some n" "ip_hdr_len (put b (udp + 6) (enc16 0)) 14 = Some n"
    using hl(1) bd by simp_all
  then have "call_udptcp_cksum ck (put b' (udp + 6) (enc16 0)) 14 udp = call_udptcp_cksum ck (put b (udp + 6) (enc16 0)) 14 udp"
    "call_ipv4_cksum ck (put b' 24 (enc16 0)) 14 = call_ipv4_cksum ck (put b 24 (enc16 0)) 14"
    using bd put hl(2) by (auto intro!: call_udptcp_cksum_cong call_ipv4_cksum_cong)
  moreover have "ld16 b' 24 = ld16 b 24" "ld16 b' (udp + 6) = ld16 b (udp + 6)"
    using bd same by (simp_all add: ld16_def)
  ultimately show ?thesis
    using bd by (simp add: cksums_ok_def ip_cksum_ok_def udp_checksum_ok_eq)
qed

lemma udp_frame_cong:
  assumes "mbuf_ok m" "udp_frame m udp len" "length b' = length (mb_buf m)"
    and "\<And>i. i \<in> {12..<24} \<union> {udp + 4, udp + 5} \<Longrightarrow> b' ! i = mb_buf m ! i"
  shows "udp_frame (m\<lparr>mb_buf := b'\<rparr>) udp len"
proof -
  have "ld16 b' 12 = ld16 (mb_buf m) 12" "ld8 b' 14 = ld8 (mb_buf m) 14" "ld16 b' 20 = ld16 (mb_buf m) 20"
    "ld8 b' 23 = ld8 (mb_buf m) 23" "ld16 b' (udp + 4) = ld16 (mb_buf m) (udp + 4)"
    using assms(3) assms(4) [of 12] assms(4) [of 13] assms(4) [of 14] assms(4) [of 20] assms(4) [of 21]
      assms(4) [of 23] assms(4) [of "udp + 4"] assms(4) [of "5 + udp"]
    by (simp_all add: ld8_def ld16_def)
  then show ?thesis
    using assms(2) by (simp add: udp_frame_def be16_def Let_def)
qed

section \<open>A translated frame\<close>

text \<open>
  \<open>translated ck m udp k m'\<close>: \<open>m'\<close> is the same buffer with the flow \<open>k\<close> written into
  it. It is still a UDP frame with its header and length where they were, every byte outside
  the Ethernet addresses, the IP addresses, the ports and the checksums is unchanged, and the
  checksums verify.
\<close>

definition translated :: "cksum_fns \<Rightarrow> rte_mbuf \<Rightarrow> nat \<Rightarrow> u16 \<Rightarrow> FlowKey \<Rightarrow> rte_mbuf \<Rightarrow> bool" where
  "translated ck m udp len k m' \<longleftrightarrow> m' = m\<lparr>mb_buf := mb_buf m'\<rparr> \<and> mbuf_ok m' \<and>
     length (mb_buf m') = length (mb_buf m) \<and> udp_frame m' udp len \<and>
     frame_flow (mb_buf m') udp = Some k \<and>
     (\<forall>i < length (mb_buf m). 12 \<le> i \<and> i \<notin> nat_bytes udp \<longrightarrow> mb_buf m' ! i = mb_buf m ! i) \<and>
     cksums_ok ck (mb_buf m') udp"

lemma rewrite_translated:
  assumes f: "mbuf_ok m" "udp_frame m udp len" and k: "fk_proto k = 17" and re: "re \<Longrightarrow> ip_in_room (mb_buf m)"
  obtains b where "rewrite_flow ck (mb_buf m) udp k re = Some b" "length b = length (mb_buf m)"
    "translated ck m udp len k (m\<lparr>mb_buf := b\<rparr>)"
proof -
  note bd = udp_frame_bounds [OF f]
  obtain ipc uc where r: "rewrite_flow ck (mb_buf m) udp k re = Some (put_flow (mb_buf m) udp k ipc uc)"
    using rewrite_flow_ok [OF frame_hdr_len [OF f(2)] bd re] by blast
  let ?b = "put_flow (mb_buf m) udp k ipc uc"
  have rw: "rewritten (mb_buf m) udp k ?b" using put_flow_rewritten [OF bd k] .
  then have same: "?b ! i = mb_buf m ! i" if "i < length (mb_buf m)" "i \<notin> nat_bytes udp" for i
    using that by (simp add: rewritten_def)
  have "udp_frame (m\<lparr>mb_buf := ?b\<rparr>) udp len"
    by (rule udp_frame_cong [OF f]) (use rw bd same in \<open>auto simp: rewritten_def nat_bytes_def\<close>)
  then have "translated ck m udp len k (m\<lparr>mb_buf := ?b\<rparr>)"
    using rw rewrite_flow_cksums [OF f re r] f(1) by (simp add: translated_def rewritten_def mbuf_ok_def)
  with r rw that show ?thesis by (simp add: rewritten_def)
qed

lemma l2_translated:
  assumes t: "translated ck m udp len k m1" and bd: "34 \<le> udp" "udp + 8 \<le> length (mb_buf m1)"
  shows "\<exists>b. set_l2 (mb_buf m1) (udp_view udp len) src dst = Some b \<and>
    translated ck m udp len k (m\<lparr>mb_buf := b\<rparr>) \<and> ld_mac b eth_src_addr = Some src \<and> ld_mac b eth_dst_addr = Some dst"
proof -
  let ?b = "put (put (mb_buf m1) 6 (addr_bytes src)) 0 (addr_bytes dst)"
  have m1: "m1 = m\<lparr>mb_buf := mb_buf m1\<rparr>" "mbuf_ok m1" "udp_frame m1 udp len" "length (mb_buf m1) = length (mb_buf m)"
    using t by (auto simp: translated_def)
  have len: "length ?b = length (mb_buf m1)" using bd by simp
  have same: "?b ! i = mb_buf m1 ! i" if "12 \<le> i" "i < length (mb_buf m1)" for i
    using that bd by (simp add: mem_simps)
  have "udp_frame (m1\<lparr>mb_buf := ?b\<rparr>) udp len"
    by (rule udp_frame_cong [OF m1(2,3) len]) (use bd same in auto)
  then have "udp_frame (m\<lparr>mb_buf := ?b\<rparr>) udp len"
    by (subst (asm) m1(1)) simp
  moreover have "frame_flow ?b udp = frame_flow (mb_buf m1) udp"
    using bd by (simp add: frame_flow_def be16_def mem_simps)
  moreover have "cksums_ok ck ?b udp \<longleftrightarrow> cksums_ok ck (mb_buf m1) udp"
    by (rule cksums_ok_cong [OF frame_hdr_len [OF m1(3)] _ bd len]) (use bd same in simp_all)
  moreover have "mbuf_ok (m\<lparr>mb_buf := ?b\<rparr>)"
    using m1(2,4) len m1(1) by (metis mbuf_ok_def rte_mbuf.select_convs(2,3) rte_mbuf.surjective rte_mbuf.update_convs(2))
  ultimately have "translated ck m udp len k (m\<lparr>mb_buf := ?b\<rparr>)"
    using t same len m1(4) by (simp add: translated_def)
  moreover have "set_l2 (mb_buf m1) (udp_view udp len) src dst = Some ?b"
    using bd by (intro set_l2_ok) simp
  moreover have "ld_mac ?b 6 = Some src" "ld_mac ?b 0 = Some dst"
    using bd by (simp_all add: mem_simps)
  ultimately show ?thesis by auto
qed

text \<open>
  What both handlers promise of an accepted packet: the translated frame, sent with the
  gateway's source address to the resolved next hop, or held for the address that has to be
  resolved.
\<close>

definition delivered ::
    "cksum_fns \<Rightarrow> ForwardConfig \<Rightarrow> NeighborTable option \<Rightarrow> rte_mbuf \<Rightarrow> nat \<Rightarrow> u16 \<Rightarrow> FlowKey \<Rightarrow>
     HandleResult \<Rightarrow> rte_ether_addr \<Rightarrow> HandleOutcome \<Rightarrow> rte_mbuf \<Rightarrow> bool" where
  "delivered ck cfg nbrs m udp len k res fallback o' m' \<longleftrightarrow> translated ck m udp len k m' \<and>
     (case lookup_next_hop_mac nbrs (fk_dst_ip k) fallback of
        None \<Rightarrow> o' = pending_for (fk_dst_ip k)
      | Some mac \<Rightarrow> o' = outcome res \<and> ld_mac (mb_buf m') eth_src_addr = Some (fc_gateway_mac cfg) \<and>
                    ld_mac (mb_buf m') eth_dst_addr = Some mac)"

text \<open>
  Both handlers end alike: translate, look the next hop up, and either hold the packet or write
  the hardware addresses. \<open>k\<close> is the translated flow.
\<close>

lemma deliver:
  assumes f: "mbuf_ok m" "udp_frame m udp len" and k: "fk_proto k = 17" "fk_dst_ip k = hop"
    and re: "re \<Longrightarrow> ip_in_room (mb_buf m)"
  obtains b o' m' where "rewrite_flow ck (mb_buf m) udp k re = Some b" "delivered ck cfg nbrs m udp len k res fb o' m'"
    "case lookup_next_hop_mac nbrs hop fb of
        None \<Rightarrow> o' = pending_for hop \<and> m' = m\<lparr>mb_buf := b\<rparr>
      | Some mac \<Rightarrow> \<exists>b1. set_l2 b (udp_view udp len) (fc_gateway_mac cfg) mac = Some b1 \<and> o' = outcome res \<and> m' = m\<lparr>mb_buf := b1\<rparr>"
proof -
  obtain b where b: "rewrite_flow ck (mb_buf m) udp k re = Some b" "length b = length (mb_buf m)"
    "translated ck m udp len k (m\<lparr>mb_buf := b\<rparr>)"
    using rewrite_translated [OF f k(1) re] by blast
  show thesis
  proof (cases "lookup_next_hop_mac nbrs hop fb")
    case None
    then show ?thesis using that [OF b(1), of "pending_for hop"] b(3) k(2) by (simp add: delivered_def)
  next
    case (Some mac)
    obtain b1 where "set_l2 b (udp_view udp len) (fc_gateway_mac cfg) mac = Some b1"
      "translated ck m udp len k (m\<lparr>mb_buf := b1\<rparr>)"
      "ld_mac b1 eth_src_addr = Some (fc_gateway_mac cfg)" "ld_mac b1 eth_dst_addr = Some mac"
      using l2_translated [OF b(3)] udp_frame_bounds [OF f] b(2) by auto
    then show ?thesis
      using that [OF b(1), of "outcome res" "m\<lparr>mb_buf := b1\<rparr>"] Some k(2) by (simp add: delivered_def)
  qed
qed

section \<open>The session of a flow\<close>

text \<open>A flow without a session: nothing happens, or one is created for the upstream that was picked.\<close>

lemma flow_session_miss:
  assumes "lookup_forward st key = None"
  obtains u1 where "flow_session picker st u key now = Some (None, st, u1)"
  | up :: FwdUpstream and sp st1 u1 where "create st key (up_ip_be up) (up_port up) now = (sp, st1)"
      "flow_session picker st u key now = Some (sp, st1, u1)"
proof (cases picker)
  case None
  then show ?thesis using assms that(1) by (simp add: flow_session_def)
next
  case (Some pick)
  obtain r u1 where pk: "pick u key = (r, u1)" by fastforce
  show ?thesis
  proof (cases "r = None \<or> up_ip_be (the r) = 0")
    case True
    then show ?thesis using that(1) assms Some pk by (cases r) (auto simp: flow_session_def)
  next
    case False
    then obtain up where up: "r = Some up" "up_ip_be up \<noteq> 0" by auto
    obtain sp st1 where "create st key (up_ip_be up) (up_port up) now = (sp, st1)" by fastforce
    then show ?thesis using that(2) [of up sp st1 u1] assms Some pk up by (simp add: flow_session_def)
  qed
qed

lemma flow_session_spec:
  assumes inv: "st_inv st"
  obtains sp st1 u1 where "flow_session picker st u key now = Some (sp, st1, u1)" "st_inv st1" "same_config st st1"
    "sp = None \<Longrightarrow> lookup_forward st key = None \<and> st_heap st1 = st_heap st"
    "\<And>p. sp = Some p \<Longrightarrow> \<exists>s. st_heap st1 p = Some s \<and> s_forward_key s = key \<and> s_last_active_ms s = now \<and>
       session_ok (st_gateway_ip st) s \<and>
       (\<forall>p0. lookup_forward st key = Some p0 \<longrightarrow> p0 = p \<and> map_option s_snat_port (st_heap st p) = Some (s_snat_port s))"
proof (cases "lookup_forward st key")
  case (Some p)
  then obtain s where s: "st_heap st p = Some s" "s_forward_key s = key"
    using snat.fwd_hit [OF inv] by blast
  let ?s = "s\<lparr>s_last_active_ms := now\<rparr>"
  let ?st1 = "st\<lparr>st_heap := (st_heap st)(p \<mapsto> ?s)\<rparr>"
  have t: "touch st (Some p) now = Some ?st1" by (rule touch_eq [OF s(1)])
  have "session_ok (st_gateway_ip st) ?s"
    using st_inv_session [OF inv s(1)] by simp
  then show ?thesis
    using that [of "Some p" ?st1 u] t touch_inv [OF inv t] touch_config [OF t] s Some
    by (simp add: flow_session_def)
next
  case None
  note result = that
  from None show ?thesis
  proof (cases rule: flow_session_miss [of st key picker u now])
    case (1 u1)
    then show ?thesis using result [OF 1 inv] None by (simp add: same_config_def)
  next
    case (2 up sp st1 u1)
    have new: "\<exists>s. st_heap st1 p = Some s \<and> s_forward_key s = key \<and> s_last_active_ms s = now \<and>
        session_ok (st_gateway_ip st) s" if "sp = Some p" for p
      using snat.mk_new [OF inv None, of "up_ip_be up" "up_port up" now p st1] 2(1) that by auto
    show ?thesis
      by (rule result [OF 2(2) create_inv [OF inv None 2(1)] create_config [OF inv 2(1)]])
         (use None new snat.mk_full [OF inv None] 2(1) in auto)
  qed
qed

section \<open>The handlers\<close>

text \<open>
  What the checksum code needs of a frame: if checksums are verified or recomputed, the packet
  the IPv4 header announces ends inside the buffer. Both are off in the gateway.
\<close>

definition cksum_safe :: "ForwardConfig \<Rightarrow> rte_mbuf \<Rightarrow> bool" where
  "cksum_safe cfg m \<longleftrightarrow> (fc_verify_checksum cfg \<or> fc_recompute_udp_checksum cfg \<longrightarrow> ip_in_room (mb_buf m))"

lemma cksum_safe_off: "\<not> fc_verify_checksum cfg \<Longrightarrow> \<not> fc_recompute_udp_checksum cfg \<Longrightarrow> cksum_safe cfg m"
  by (simp add: cksum_safe_def)

text \<open>
  \<open>forwarded\<close>: the packet of flow \<open>key\<close> goes out on the translation of its session, which
  is in the table afterwards and carries the time of the packet.
\<close>

definition forwarded ::
    "cksum_fns \<Rightarrow> ForwardConfig \<Rightarrow> NeighborTable option \<Rightarrow> rte_mbuf \<Rightarrow> nat \<Rightarrow> u16 \<Rightarrow> FlowKey \<Rightarrow> u64 \<Rightarrow>
     SessionTable \<Rightarrow> HandleOutcome \<Rightarrow> rte_mbuf \<Rightarrow> bool" where
  "forwarded ck cfg nbrs m udp len key now st' o' m' \<longleftrightarrow>
     (\<exists>p s. lookup_forward st' key = Some p \<and> st_heap st' p = Some s \<and> s_forward_key s = key \<and>
        s_last_active_ms s = now \<and>
        delivered ck cfg nbrs m udp len (forward_flow (fc_gateway_ip_be cfg) s) tx_forward
          (fc_upstream_mac cfg) o' m')"

lemma handle_forward_spec:
  assumes inv: "st_inv st" and f: "mbuf_ok m" "udp_frame m udp len" and key: "frame_flow (mb_buf m) udp = Some key"
    and cs: "cksum_safe cfg m"
  obtains o' m' st' u' where
    "handle_forward ck cfg picker nbrs m (udp_view udp len) now st u = Some (o', m', st', u')"
    "st_inv st'" "same_config st st'"
    "(o', m') = (outcome hr_drop, m) \<and> lookup_forward st key = None \<and> st_heap st' = st_heap st \<or>
     forwarded ck cfg nbrs m udp len key now st' o' m'"
proof -
  obtain sp st1 u1 where fs: "flow_session picker st u key now = Some (sp, st1, u1)" "st_inv st1" "same_config st st1"
    "sp = None \<Longrightarrow> lookup_forward st key = None \<and> st_heap st1 = st_heap st"
    "\<And>p. sp = Some p \<Longrightarrow> \<exists>s. st_heap st1 p = Some s \<and> s_forward_key s = key \<and> s_last_active_ms s = now"
    using flow_session_spec [OF inv, of picker u key now thesis] by blast
  note h = handle_forward_def flow_key_of_frame key fs(1) nat_is_rewrite
  show ?thesis
  proof (cases sp)
    case None
    then show ?thesis using that [OF _ fs(2,3)] fs(4) by (simp add: h)
  next
    case (Some p)
    then obtain s where s: "st_heap st1 p = Some s" "s_forward_key s = key" "s_last_active_ms s = now"
      using fs(5) by blast
    let ?k = "forward_flow (fc_gateway_ip_be cfg) s"
    have k: "fk_proto ?k = 17" "fk_dst_ip ?k = s_upstream_ip s" by (simp_all add: forward_flow_def)
    obtain b o' m' where b: "rewrite_flow ck (mb_buf m) udp ?k (fc_recompute_udp_checksum cfg) = Some b"
      and d: "delivered ck cfg nbrs m udp len ?k tx_forward (fc_upstream_mac cfg) o' m'"
      and r: "case lookup_next_hop_mac nbrs (s_upstream_ip s) (fc_upstream_mac cfg) of
          None \<Rightarrow> o' = pending_for (s_upstream_ip s) \<and> m' = m\<lparr>mb_buf := b\<rparr>
        | Some mac \<Rightarrow> \<exists>b1. set_l2 b (udp_view udp len) (fc_gateway_mac cfg) mac = Some b1 \<and> o' = outcome tx_forward \<and> m' = m\<lparr>mb_buf := b1\<rparr>"
      by (rule deliver [OF f k _, where ck = ck and re = "fc_recompute_udp_checksum cfg" and nbrs = nbrs and cfg = cfg
          and fb = "fc_upstream_mac cfg" and res = tx_forward]) (use cs in \<open>simp add: cksum_safe_def\<close>, rule that)
    have "forwarded ck cfg nbrs m udp len key now st1 o' m'"
      using d s snat.live [OF fs(2) s(1)] unfolding forwarded_def by blast
    then show ?thesis
      using that [of o' m' st1 u1] fs(2,3) b Some s r by (auto simp: h split: option.splits)
  qed
qed

definition returned ::
    "cksum_fns \<Rightarrow> ForwardConfig \<Rightarrow> NeighborTable option \<Rightarrow> rte_mbuf \<Rightarrow> nat \<Rightarrow> u16 \<Rightarrow> FlowKey \<Rightarrow> u64 \<Rightarrow>
     SessionTable \<Rightarrow> HandleOutcome \<Rightarrow> rte_mbuf \<Rightarrow> bool" where
  "returned ck cfg nbrs m udp len key now st' o' m' \<longleftrightarrow>
     (\<exists>p s. lookup_reverse st' key = Some p \<and> st_heap st' p = Some s \<and> s_reverse_key s = key \<and>
        s_last_active_ms s = now \<and>
        delivered ck cfg nbrs m udp len (reverse_flow s) tx_reverse (fc_client_side_mac cfg) o' m')"

lemma handle_reverse_spec:
  assumes inv: "st_inv st" and f: "mbuf_ok m" "udp_frame m udp len" and key: "frame_flow (mb_buf m) udp = Some key"
    and cs: "cksum_safe cfg m"
  obtains (miss) "lookup_reverse st key = None"
      "handle_reverse ck cfg nbrs m (udp_view udp len) now st = Some (outcome hr_drop, m, st)"
    | (hit) p s o' m' st' where "lookup_reverse st key = Some p" "st_heap st p = Some s"
      "handle_reverse ck cfg nbrs m (udp_view udp len) now st = Some (o', m', st')"
      "st_inv st'" "same_config st st'" "returned ck cfg nbrs m udp len key now st' o' m'"
      "delivered ck cfg nbrs m udp len (reverse_flow s) tx_reverse (fc_client_side_mac cfg) o' m'"
proof (cases "lookup_reverse st key")
  case None
  then show ?thesis using miss by (simp add: handle_reverse_def flow_key_of_frame key)
next
  case (Some p)
  then obtain s where s: "st_heap st p = Some s" "s_reverse_key s = key"
    using snat.rev_hit [OF inv] by blast
  let ?s = "s\<lparr>s_last_active_ms := now\<rparr>" and ?st1 = "st\<lparr>st_heap := (st_heap st)(p \<mapsto> s\<lparr>s_last_active_ms := now\<rparr>)\<rparr>"
  have t: "touch st (Some p) now = Some ?st1" by (rule touch_eq [OF s(1)])
  note inv1 = touch_inv [OF inv t]
  note h = handle_reverse_def flow_key_of_frame key Some t nat_is_rewrite
  let ?k = "reverse_flow s"
  have k: "fk_proto ?k = 17" "fk_dst_ip ?k = s_client_ip s" "reverse_flow ?s = ?k" by (simp_all add: reverse_flow_def)
  obtain b o' m' where b: "rewrite_flow ck (mb_buf m) udp ?k (fc_recompute_udp_checksum cfg) = Some b"
    and d: "delivered ck cfg nbrs m udp len ?k tx_reverse (fc_client_side_mac cfg) o' m'"
    and r: "case lookup_next_hop_mac nbrs (s_client_ip s) (fc_client_side_mac cfg) of
          None \<Rightarrow> o' = pending_for (s_client_ip s) \<and> m' = m\<lparr>mb_buf := b\<rparr>
        | Some mac \<Rightarrow> \<exists>b1. set_l2 b (udp_view udp len) (fc_gateway_mac cfg) mac = Some b1 \<and> o' = outcome tx_reverse \<and> m' = m\<lparr>mb_buf := b1\<rparr>"
    by (rule deliver [OF f k(1,2) _, where ck = ck and re = "fc_recompute_udp_checksum cfg" and nbrs = nbrs and cfg = cfg
          and fb = "fc_client_side_mac cfg" and res = tx_reverse]) (use cs in \<open>simp add: cksum_safe_def\<close>, rule that)
  have heap1: "st_heap ?st1 p = Some ?s" by simp
  have "returned ck cfg nbrs m udp len key now ?st1 o' m'"
    unfolding returned_def using snat.live [OF inv1 heap1] heap1 s(2) d k(3)
    by (intro exI [of _ p] exI [of _ ?s]) simp
  then show ?thesis
    using hit [OF Some s(1) _ inv1 touch_config [OF t], of o' m'] b d r by (auto simp: h k(3) split: option.splits)
qed

section \<open>Classification\<close>

definition to_vip :: "ForwardConfig \<Rightarrow> FlowKey \<Rightarrow> bool" where
  "to_vip cfg k \<longleftrightarrow> fk_dst_ip k = vip_ip_be (fc_vip cfg) \<and> fk_dst_port k = vip_ep_port (fc_vip cfg)"

definition acceptable :: "cksum_fns \<Rightarrow> ForwardConfig \<Rightarrow> rte_mbuf \<Rightarrow> nat \<Rightarrow> u16 \<Rightarrow> bool" where
  "acceptable ck cfg m udp len \<longleftrightarrow> udp_frame m udp len \<and> (fc_verify_checksum cfg \<longrightarrow> cksums_ok ck (mb_buf m) udp)"

lemma fwd_handle_rejects:
  assumes wf: "mbuf_ok m" and cs: "cksum_safe cfg m" and no: "\<nexists>udp len. acceptable ck cfg m udp len"
  shows "fwd_handle ck cfg picker nbrs (Some m) now st u = Some (outcome hr_drop, Some m, st, u)"
proof -
  obtain status v where p: "parse_udp_ipv4 ck (Some m) (fc_verify_checksum cfg) = Some (status, v, Some m)"
    using parse_udp_ipv4_defined [OF wf, of "fc_verify_checksum cfg" ck] cs unfolding cksum_safe_def by blast
  with no have "status \<noteq> ok"
    using parse_udp_ipv4_iff [OF wf, of ck "fc_verify_checksum cfg" v "Some m"] p
    unfolding acceptable_def by blast
  with p show ?thesis by (simp add: fwd_handle_def)
qed

lemma fwd_handle_accepted:
  assumes wf: "mbuf_ok m" and f: "acceptable ck cfg m udp len" and key: "frame_flow (mb_buf m) udp = Some key"
  shows "fwd_handle ck cfg picker nbrs (Some m) now st u =
    (if to_vip cfg key then map_option (\<lambda>(o', m1, st1, u1). (o', Some m1, st1, u1))
        (handle_forward ck cfg picker nbrs m (udp_view udp len) now st u)
     else if fk_dst_ip key = fc_gateway_ip_be cfg then map_option (\<lambda>(o', m1, st1). (o', Some m1, st1, u))
        (handle_reverse ck cfg nbrs m (udp_view udp len) now st)
     else Some (outcome hr_drop, Some m, st, u))"
proof -
  have uf: "udp_frame m udp len" using f by (simp add: acceptable_def)
  have "parse_udp_ipv4 ck (Some m) (fc_verify_checksum cfg) = Some (ok, udp_view udp len, Some m)"
    using f by (auto simp: parse_udp_ipv4_iff [OF wf] acceptable_def)
  moreover have "dst_ip m (udp_view udp len) = Some (fk_dst_ip key)" "dst_port m (udp_view udp len) = Some (fk_dst_port key)"
    using frame_flow_defined [OF udp_frame_bounds [OF wf uf]] key
    by (auto simp: dst_ip_def dst_port_def udp_view_def be16_def)
  ultimately show ?thesis
    by (auto simp: fwd_handle_def to_vip_def map_option_case split: option.splits)
qed

lemma acceptable_flow:
  assumes "mbuf_ok m" "acceptable ck cfg m udp len"
  obtains key where "frame_flow (mb_buf m) udp = Some key" "udp_frame m udp len"
  using assms frame_flow_defined [of udp "mb_buf m"] udp_frame_bounds [of m udp len] by (auto simp: acceptable_def)

text \<open>One packet: the outcome, the buffer and the table afterwards.\<close>

lemma fwd_handle_spec:
  assumes wf: "mbuf_ok m" and inv: "st_inv st" and cs: "cksum_safe cfg m"
  obtains o' m' st' u' where "fwd_handle ck cfg picker nbrs (Some m) now st u = Some (o', Some m', st', u')"
    "st_inv st'" "same_config st st'"
    "o' = outcome hr_drop \<and> m' = m \<and> st_heap st' = st_heap st \<or>
     (\<exists>udp len key. acceptable ck cfg m udp len \<and> frame_flow (mb_buf m) udp = Some key \<and>
       (to_vip cfg key \<and> forwarded ck cfg nbrs m udp len key now st' o' m' \<or>
        \<not> to_vip cfg key \<and> fk_dst_ip key = fc_gateway_ip_be cfg \<and> u' = u \<and>
          returned ck cfg nbrs m udp len key now st' o' m'))"
proof (cases "\<exists>udp len. acceptable ck cfg m udp len")
  case False
  then show ?thesis
    using that [OF fwd_handle_rejects [OF wf cs] inv] by (simp add: same_config_def)
next
  case True
  then obtain udp len key where a: "acceptable ck cfg m udp len" and key: "frame_flow (mb_buf m) udp = Some key"
    and f: "udp_frame m udp len" using acceptable_flow [OF wf] by metis
  note h = fwd_handle_accepted [OF wf a key]
  consider "to_vip cfg key" | "\<not> to_vip cfg key" "fk_dst_ip key = fc_gateway_ip_be cfg"
    | "\<not> to_vip cfg key" "fk_dst_ip key \<noteq> fc_gateway_ip_be cfg" by blast
  then show ?thesis
  proof cases
    case 1
    from handle_forward_spec [OF inv wf f key cs, of ck picker nbrs now u] obtain o' m' st' u' where
      hf: "handle_forward ck cfg picker nbrs m (udp_view udp len) now st u = Some (o', m', st', u')"
      "st_inv st'" "same_config st st'"
      "(o', m') = (outcome hr_drop, m) \<and> lookup_forward st key = None \<and> st_heap st' = st_heap st \<or>
       forwarded ck cfg nbrs m udp len key now st' o' m'" by metis
    show ?thesis
      by (rule that [OF _ hf(2,3), of o' m' u']) (use hf 1 a key in \<open>auto simp: h\<close>)
  next
    case 2
    from inv wf f key cs show ?thesis
    proof (cases rule: handle_reverse_spec [of st m udp len key cfg ck nbrs now])
      case miss
      then show ?thesis using that [OF _ inv, of _ m u] 2 by (simp add: h same_config_def)
    next
      case (hit p s o' m' st')
      show ?thesis
        by (rule that [OF _ hit(4,5), of o' m' u]) (use hit 2 a key in \<open>auto simp: h\<close>)
    qed
  next
    case 3
    then show ?thesis using that [OF _ inv, of _ m u] by (simp add: h same_config_def)
  qed
qed

lemma forwarded_ok: "forwarded ck cfg nbrs m udp len key now st' o' m' \<Longrightarrow>
    mbuf_ok m' \<and> m' = m\<lparr>mb_buf := mb_buf m'\<rparr> \<and> length (mb_buf m') = length (mb_buf m)"
  "returned ck cfg nbrs m udp len key now st' o' m' \<Longrightarrow>
    mbuf_ok m' \<and> m' = m\<lparr>mb_buf := mb_buf m'\<rparr> \<and> length (mb_buf m') = length (mb_buf m)"
  by (auto simp: forwarded_def returned_def delivered_def translated_def)

lemma delivered_not_drop: "delivered ck cfg nbrs m udp len k res fb o' m' \<Longrightarrow> res \<noteq> hr_drop \<Longrightarrow>
    ho_result o' = res \<or> ho_result o' = pending_arp"
  by (auto simp: delivered_def outcome_def pending_for_def split: option.splits)

section \<open>When a packet is dropped\<close>

definition no_session :: "'u UpstreamPicker \<Rightarrow> SessionTable \<Rightarrow> 'u \<Rightarrow> FlowKey \<Rightarrow> bool" where
  "no_session picker st u key \<longleftrightarrow> lookup_forward st key = None \<and>
     (case picker of None \<Rightarrow> True
      | Some pick \<Rightarrow> (case fst (pick u key) of None \<Rightarrow> True
          | Some up \<Rightarrow> up_ip_be up = 0 \<or> (\<forall>q. in_pool st q \<longrightarrow> st_port_in_use st q)))"

lemma flow_session_none:
  assumes inv: "st_inv st" and fs: "flow_session picker st u key now = Some (sp, st1, u1)"
  shows "sp = None \<longleftrightarrow> no_session picker st u key"
proof -
  have "r = None \<longleftrightarrow> (\<forall>q. in_pool st q \<longrightarrow> st_port_in_use st q)"
    if "create st key ip po now = (r, st1)" for ip po r
    using inv that by (cases rule: create_cases) auto
  then have "lookup_forward st key = None \<Longrightarrow> ?thesis"
    using fs unfolding flow_session_def no_session_def
    by (auto split: option.splits prod.splits if_splits)
  moreover have "sp = Some p" if "lookup_forward st key = Some p" for p
    using fs that by (auto simp: flow_session_def bind_eq_Some_conv)
  ultimately show ?thesis
    by (cases "lookup_forward st key") (auto simp: no_session_def)
qed

lemma handle_forward_drop:
  assumes inv: "st_inv st" and f: "mbuf_ok m" "udp_frame m udp len" and key: "frame_flow (mb_buf m) udp = Some key"
    and h: "handle_forward ck cfg picker nbrs m (udp_view udp len) now st u = Some (o', m', st', u')"
  shows "ho_result o' = hr_drop \<longleftrightarrow> no_session picker st u key"
proof -
  obtain sp st1 u1 where fs: "flow_session picker st u key now = Some (sp, st1, u1)"
    using flow_session_spec [OF inv] by metis
  have "sp = None \<longleftrightarrow> ho_result o' = hr_drop"
    using h unfolding handle_forward_def flow_key_of_frame key
    by (auto simp: fs outcome_def pending_for_def split: option.splits Option.bind_splits)
  with flow_session_none [OF inv fs] show ?thesis by simp
qed

lemma finish_l2_ok:
  assumes "mbuf_ok m1" "udp_frame m1 udp len" "lookup_next_hop_mac nbrs ip (fc_upstream_mac cfg) = Some mac"
  shows "\<exists>b. finish_l2 ck cfg nbrs (Some m1) ip = Some (True, Some (m1\<lparr>mb_buf := b\<rparr>)) \<and>
    set_l2 (mb_buf m1) (udp_view udp len) (fc_gateway_mac cfg) mac = Some b \<and> length b = length (mb_buf m1)"
proof -
  have "parse_udp_ipv4 ck (Some m1) False = Some (ok, udp_view udp len, Some m1)"
    using assms(1,2) by (auto simp: parse_udp_ipv4_iff)
  then show ?thesis
    using assms(3) udp_frame_bounds [OF assms(1,2)] by (simp add: finish_l2_def set_l2_ok)
qed

lemma finish_l2_defined:
  assumes "mbuf_ok m1"
  shows "\<exists>r b. finish_l2 ck cfg nbrs (Some m1) ip = Some (r, Some (m1\<lparr>mb_buf := b\<rparr>)) \<and>
    length b = length (mb_buf m1) \<and> (\<not> r \<longrightarrow> b = mb_buf m1)"
proof -
  obtain status v where p: "parse_udp_ipv4 ck (Some m1) False = Some (status, v, Some m1)"
    using parse_udp_ipv4_defined [OF assms, of False] by blast
  show ?thesis
  proof (cases "status = ok \<and> lookup_next_hop_mac nbrs ip (fc_upstream_mac cfg) \<noteq> None")
    case True
    then obtain udp len mac where "udp_frame m1 udp len" "lookup_next_hop_mac nbrs ip (fc_upstream_mac cfg) = Some mac"
      using p parse_udp_ipv4_iff [OF assms] by blast
    then show ?thesis using finish_l2_ok [OF assms] by blast
  next
    case False
    then have "finish_l2 ck cfg nbrs (Some m1) ip = Some (False, Some (m1\<lparr>mb_buf := mb_buf m1\<rparr>))"
      using p by (auto simp: finish_l2_def split: option.splits)
    then show ?thesis by blast
  qed
qed

section \<open>Properties\<close>

definition flip :: "FlowKey \<Rightarrow> FlowKey" where
  "flip k = \<lparr>fk_src_ip = fk_dst_ip k, fk_dst_ip = fk_src_ip k, fk_src_port = fk_dst_port k,
     fk_dst_port = fk_src_port k, fk_proto = fk_proto k\<rparr>"

lemma session_flows:
  assumes "session_ok gw s" "fk_proto (s_forward_key s) = 17"
  shows "flip (forward_flow gw s) = s_reverse_key s" "reverse_flow s = flip (s_forward_key s)"
proof -
  obtain k ip po sn t where s: "s = new_session gw k ip po sn t" "fk_proto k = 17"
    using assms by (auto simp: session_ok_def)
  show "flip (forward_flow gw s) = s_reverse_key s" "reverse_flow s = flip (s_forward_key s)"
    using s(2) unfolding s(1) by (simp_all add: flip_def forward_flow_def reverse_flow_def new_session_def)
qed

lemma frame_flow_proto: "frame_flow b udp = Some k \<Longrightarrow> fk_proto k = 17"
  by (auto simp: frame_flow_def split: Option.bind_splits)

lemma forwarded_reply:
  assumes inv: "st_inv st'" and gw: "fc_gateway_ip_be cfg = st_gateway_ip st'"
    and f: "forwarded ck cfg nbrs m udp len key now st' o' m'" and p: "fk_proto key = 17"
  obtains k1 p s where "frame_flow (mb_buf m') udp = Some k1" "lookup_reverse st' (flip k1) = Some p"
    "st_heap st' p = Some s" "reverse_flow s = flip key" "fk_dst_ip (flip k1) = fc_gateway_ip_be cfg"
proof -
  obtain p s where s: "st_heap st' p = Some s" "s_forward_key s = key"
    and fl: "frame_flow (mb_buf m') udp = Some (forward_flow (fc_gateway_ip_be cfg) s)"
    using f by (auto simp: forwarded_def delivered_def translated_def)
  have ok: "session_ok (fc_gateway_ip_be cfg) s"
    using st_inv_session [OF inv s(1)] gw by simp
  note fls = session_flows [OF ok] s(2) p
  have "lookup_reverse st' (flip (forward_flow (fc_gateway_ip_be cfg) s)) = Some p"
    using snat.live [OF inv s(1)] fls by simp
  moreover have "fk_dst_ip (flip (forward_flow (fc_gateway_ip_be cfg) s)) = fc_gateway_ip_be cfg"
    by (simp add: flip_def forward_flow_def)
  ultimately show ?thesis using that [OF fl] s(1) fls by simp
qed

text \<open>A gateway for 192.168.1.100:53 with fixed next hops, and an upstream at 10.0.0.2:53.\<close>

definition ex_cfg :: ForwardConfig where
  "ex_cfg = \<lparr>fc_vip = \<lparr>vip_ip_be = 0x6401a8c0, vip_ep_port = 53\<rparr>, fc_gateway_ip_be = 0x0100000a,
     fc_gateway_mac = MAC 2 0 0 0 0 1, fc_upstream_mac = MAC 2 0 0 0 0 3,
     fc_client_side_mac = MAC 2 0 0 0 0 4, fc_verify_checksum = False,
     fc_recompute_udp_checksum = False\<rparr>"

definition ex_picker :: "nat UpstreamPicker" where
  "ex_picker = Some (\<lambda>u _. (Some \<lparr>up_ip_be = 0x0200000a, up_port = 53\<rparr>, u + 1))"

definition ex_cksum :: cksum_fns where
  "ex_cksum = \<lparr>rte_ipv4_cksum = (\<lambda>_. 0), rte_ipv4_udptcp_cksum = (\<lambda>_ _. 0)\<rparr>"

definition ex_request :: rte_mbuf where
  "ex_request = frame_mbuf 1 (client_frame 0 8)"

lemma ex_request_ok: "mbuf_ok ex_request"
  by (simp add: ex_request_def frame_mbuf_ok client_frame_def)

lemma ex_request_frame:
  "udp_frame ex_request 34 8" "frame_flow (mb_buf ex_request) 34 = Some (ex_flow 5000)"
  by (simp_all add: ex_request_def udp_frame_def frame_flow_def client_frame_def ex_flow_def eval_simps)

text \<open>
  C11: the forwarding pipeline is memory safe: on every well-formed buffer and every consistent
  session table, whatever the picker and the neighbor table do and whatever values the checksum
  routines compute, the handler stays inside the buffer, keeps the session table consistent, and
  hands back the same buffer with a well-formed frame of the same length. Where checksums are
  verified or recomputed this needs the packet that the IPv4 header announces to end inside the
  buffer, which the code does not check; with both off, as in the gateway, it needs nothing.
\<close>

theorem forwarder_safe:
  assumes "mbuf_ok m" and "st_inv st"
    and "fc_verify_checksum cfg \<or> fc_recompute_udp_checksum cfg \<longrightarrow> ip_in_room (mb_buf m)"
  shows "\<exists>o' m' st' u'. fwd_handle ck cfg picker nbrs (Some m) now st u = Some (o', Some m', st', u') \<and>
    st_inv st' \<and> same_config st st' \<and> mbuf_ok m' \<and> m' = m\<lparr>mb_buf := mb_buf m'\<rparr> \<and>
    length (mb_buf m') = length (mb_buf m)"
proof -
  have cs: "cksum_safe cfg m" using assms(3) by (simp add: cksum_safe_def)
  obtain o' m' st' u' where h: "fwd_handle ck cfg picker nbrs (Some m) now st u = Some (o', Some m', st', u')"
    "st_inv st'" "same_config st st'"
    "o' = outcome hr_drop \<and> m' = m \<and> st_heap st' = st_heap st \<or>
     (\<exists>udp len key. acceptable ck cfg m udp len \<and> frame_flow (mb_buf m) udp = Some key \<and>
       (to_vip cfg key \<and> forwarded ck cfg nbrs m udp len key now st' o' m' \<or>
        \<not> to_vip cfg key \<and> fk_dst_ip key = fc_gateway_ip_be cfg \<and> u' = u \<and>
          returned ck cfg nbrs m udp len key now st' o' m'))"
    using fwd_handle_spec [OF assms(1,2) cs, of ck picker nbrs now u] by metis
  have "mbuf_ok m' \<and> m' = m\<lparr>mb_buf := mb_buf m'\<rparr> \<and> length (mb_buf m') = length (mb_buf m)"
    using h(4) assms(1) by (elim disjE) (auto dest!: forwarded_ok)
  with h show ?thesis by blast
qed

theorem forwarder_safe_witness:
  "\<exists>o' m' st' u'. fwd_handle ex_cksum (ex_cfg\<lparr>fc_verify_checksum := True\<rparr>) ex_picker None (Some ex_request) 7 ex_table 0 = Some (o', Some m', st', u') \<and>
    st_inv st' \<and> length (mb_buf m') = 42"
proof -
  have "ip_in_room (mb_buf ex_request)"
    by (simp add: ip_in_room_def ex_request_def client_frame_def eval_simps)
  then show ?thesis
    using forwarder_safe [OF ex_request_ok ex_table_inv, of "ex_cfg\<lparr>fc_verify_checksum := True\<rparr>" ex_cksum ex_picker None 7 0]
    by (auto simp: ex_request_def frame_mbuf_def client_frame_def)
qed

text \<open>
  C4: a client datagram for the virtual service is never dropped for a reason other than the
  documented ones: it is dropped exactly when its flow has no session and no upstream is
  available or every SNAT port is taken. Otherwise it leaves translated: from the gateway and
  the session's port to the session's upstream, payload untouched, checksums valid, addressed
  to the next hop, or held for the next hop's address.
\<close>

theorem vip_datagram_forwarded:
  assumes "mbuf_ok m" "st_inv st" and "acceptable ck cfg m udp len" "frame_flow (mb_buf m) udp = Some key" "to_vip cfg key"
    and "cksum_safe cfg m"
  shows "\<exists>o' m' st' u'. fwd_handle ck cfg picker nbrs (Some m) now st u = Some (o', Some m', st', u') \<and>
    (if no_session picker st u key then o' = outcome hr_drop \<and> m' = m
     else forwarded ck cfg nbrs m udp len key now st' o' m')"
proof -
  have f: "udp_frame m udp len" using assms(3) by (simp add: acceptable_def)
  obtain o' m' st' u' where hf:
    "handle_forward ck cfg picker nbrs m (udp_view udp len) now st u = Some (o', m', st', u')"
    "(o', m') = (outcome hr_drop, m) \<and> lookup_forward st key = None \<and> st_heap st' = st_heap st \<or>
     forwarded ck cfg nbrs m udp len key now st' o' m'"
    using handle_forward_spec [OF assms(2,1) f assms(4,6), of ck picker nbrs now u] by metis
  have "fwd_handle ck cfg picker nbrs (Some m) now st u = Some (o', Some m', st', u')"
    using hf(1) assms(5) by (simp add: fwd_handle_accepted [OF assms(1,3,4)])
  moreover have "ho_result o' = hr_drop \<longleftrightarrow> no_session picker st u key"
    by (rule handle_forward_drop [OF assms(2,1) f assms(4) hf(1)])
  moreover have "ho_result o' \<noteq> hr_drop" if "forwarded ck cfg nbrs m udp len key now st' o' m'"
    using that delivered_not_drop by (fastforce simp: forwarded_def)
  ultimately show ?thesis
    using hf(2) by (auto simp: outcome_def)
qed

theorem vip_datagram_forwarded_witness:
  "\<exists>o' m' st' u'. fwd_handle ex_cksum ex_cfg ex_picker None (Some ex_request) 7 ex_table 0 = Some (o', Some m', st', u') \<and>
    forwarded ex_cksum ex_cfg None ex_request 34 8 (ex_flow 5000) 7 st' o' m'"
proof -
  have "acceptable ex_cksum ex_cfg ex_request 34 8" "to_vip ex_cfg (ex_flow 5000)"
    using ex_request_frame by (simp_all add: acceptable_def ex_cfg_def to_vip_def ex_flow_def)
  moreover have "cksum_safe ex_cfg ex_request" by (simp add: cksum_safe_def ex_cfg_def)
  moreover have "in_pool ex_table 10000" "\<not> st_port_in_use ex_table 10000"
    by (simp_all add: in_pool_def ex_table_def session_table_def)
  then have "\<not> no_session ex_picker ex_table 0 (ex_flow 5000)"
    by (auto simp: no_session_def ex_picker_def)
  ultimately show ?thesis
    using vip_datagram_forwarded [OF ex_request_ok ex_table_inv _ ex_request_frame(2), of ex_cksum ex_cfg 8 ex_picker None 7 0]
    by auto
qed

lemmas fwd_eval = fwd_handle_def handle_forward_def flow_session_def flow_key_from_view_def src_ip_def dst_ip_def
  src_port_def dst_port_def apply_forward_nat_def finish_l4_checksum_def refresh_ipv4_checksum_def
  call_ipv4_cksum_def ip_hdr_len_def ld_bytes_def clear_udp_checksum_def lookup_next_hop_mac_def set_l2_def ex_cfg_def ex_picker_def ex_cksum_def
  ex_request_def client_frame_def outcome_def

text \<open>The request as it leaves, and the answer of the upstream.\<close>

definition ex_forwarded :: bytes where
  "ex_forwarded =
     [2,0,0,0,0,3, 2,0,0,0,0,1, 0x08,0x00,
      0x45,0,0,28, 0,0,0,0, 64,17,0,0, 10,0,0,1, 10,0,0,2,
      0x27,0x10, 0,53, 0,8, 0,0]"

definition ex_reply :: rte_mbuf where
  "ex_reply = frame_mbuf 2
     [2,0,0,0,0,1, 2,0,0,0,0,3, 0x08,0x00,
      0x45,0,0,28, 0,0,0,0, 64,17,0,0, 10,0,0,2, 10,0,0,1,
      0,53, 0x27,0x10, 0,8, 0,0]"

lemma ex_request_forwarded:
  "\<exists>st1. fwd_handle ex_cksum ex_cfg ex_picker None (Some ex_request) 7 ex_table 0 =
     Some (outcome tx_forward, Some (ex_request\<lparr>mb_buf := ex_forwarded\<rparr>), st1, 1)"
  by (simp add: fwd_eval eval_simps ex_forwarded_def)

text \<open>
  C5: replies find their way back. If a request was forwarded, then a datagram from its
  upstream back to the translated source is classified as return traffic, finds the session,
  and is delivered to the client as coming from the address and port the client had
  addressed, whatever the neighbor table holds by then.
\<close>

theorem reply_reaches_client:
  assumes cfg: "fc_gateway_ip_be cfg = st_gateway_ip st" "vip_ip_be (fc_vip cfg) \<noteq> fc_gateway_ip_be cfg"
    and req: "mbuf_ok m" "st_inv st" "acceptable ck cfg m udp len" "frame_flow (mb_buf m) udp = Some key"
      "fwd_handle ck cfg picker nbrs (Some m) now st u = Some (o1, Some m1, st1, u1)"
      "to_vip cfg key" "ho_result o1 \<noteq> hr_drop"
    and rep: "frame_flow (mb_buf m1) udp = Some k1" "mbuf_ok m2" "acceptable ck cfg m2 udp2 len2"
      "frame_flow (mb_buf m2) udp2 = Some (flip k1)"
    and cs: "cksum_safe cfg m" "cksum_safe cfg m2"
  shows "\<exists>o2 m2' st2. fwd_handle ck cfg picker nbrs2 (Some m2) now2 st1 u1 = Some (o2, Some m2', st2, u1) \<and>
    delivered ck cfg nbrs2 m2 udp2 len2 (flip key) tx_reverse (fc_client_side_mac cfg) o2 m2'"
proof -
  have f: "udp_frame m udp len" "udp_frame m2 udp2 len2" using req(3) rep(3) by (auto simp: acceptable_def)
  have hf: "handle_forward ck cfg picker nbrs m (udp_view udp len) now st u = Some (o1, m1, st1, u1)"
    using req(5,6) by (auto simp: fwd_handle_accepted [OF req(1,3,4)])
  obtain o' m' st' u' where
    "handle_forward ck cfg picker nbrs m (udp_view udp len) now st u = Some (o', m', st', u')" "st_inv st'" "same_config st st'"
    "(o', m') = (outcome hr_drop, m) \<and> lookup_forward st key = None \<and> st_heap st' = st_heap st \<or>
     forwarded ck cfg nbrs m udp len key now st' o' m'"
    using handle_forward_spec [OF req(2,1) f(1) req(4) cs(1), of ck picker nbrs now u] by metis
  with hf req(7) have st1: "st_inv st1" "same_config st st1" and fwd: "forwarded ck cfg nbrs m udp len key now st1 o1 m1"
    by (auto simp: outcome_def)
  have gw: "fc_gateway_ip_be cfg = st_gateway_ip st1" using cfg(1) st1(2) by (simp add: same_config_def)
  obtain p s where s: "lookup_reverse st1 (flip k1) = Some p" "st_heap st1 p = Some s"
    "reverse_flow s = flip key" "fk_dst_ip (flip k1) = fc_gateway_ip_be cfg"
    using forwarded_reply [OF st1(1) gw fwd frame_flow_proto [OF req(4)]] rep(1) by (metis option.inject)
  have "\<not> to_vip cfg (flip k1)" using s(4) cfg(2) by (simp add: to_vip_def)
  then have "fwd_handle ck cfg picker nbrs2 (Some m2) now2 st1 u1 =
      map_option (\<lambda>(o', m1, st1). (o', Some m1, st1, u1)) (handle_reverse ck cfg nbrs2 m2 (udp_view udp2 len2) now2 st1)"
    using s(4) by (simp add: fwd_handle_accepted [OF rep(2,3,4)])
  with st1(1) rep(2) f(2) rep(4) cs(2) show ?thesis
  proof (cases rule: handle_reverse_spec [of st1 m2 udp2 len2 "flip k1" cfg ck nbrs2 now2])
    case miss
    then show ?thesis using s(1) by simp
  next
    case (hit p' s' o2 m2' st2)
    then show ?thesis using s \<open>fwd_handle ck cfg picker nbrs2 (Some m2) now2 st1 u1 = _\<close> by auto
  qed
qed

theorem reply_reaches_client_witness:
  "\<exists>st1 o2 m2' st2. fwd_handle ex_cksum ex_cfg ex_picker None (Some ex_request) 7 ex_table 0 =
      Some (outcome tx_forward, Some (ex_request\<lparr>mb_buf := ex_forwarded\<rparr>), st1, 1) \<and>
    fwd_handle ex_cksum ex_cfg ex_picker None (Some ex_reply) 9 st1 1 = Some (o2, Some m2', st2, 1) \<and>
    delivered ex_cksum ex_cfg None ex_reply 34 8 (flip (ex_flow 5000)) tx_reverse (MAC 2 0 0 0 0 4) o2 m2'"
proof -
  let ?k1 = "\<lparr>fk_src_ip = 0x0100000a, fk_dst_ip = 0x0200000a, fk_src_port = 10000, fk_dst_port = 53, fk_proto = 17\<rparr>"
  obtain st1 where req: "fwd_handle ex_cksum ex_cfg ex_picker None (Some ex_request) 7 ex_table 0 =
      Some (outcome tx_forward, Some (ex_request\<lparr>mb_buf := ex_forwarded\<rparr>), st1, 1)"
    using ex_request_forwarded by blast
  have "acceptable ex_cksum ex_cfg ex_request 34 8" "acceptable ex_cksum ex_cfg ex_reply 34 8"
    using ex_request_frame by (simp_all add: acceptable_def ex_cfg_def)
      (simp add: ex_reply_def udp_frame_def eval_simps)
  moreover have "frame_flow (mb_buf (ex_request\<lparr>mb_buf := ex_forwarded\<rparr>)) 34 = Some ?k1"
    "frame_flow (mb_buf ex_reply) 34 = Some (flip ?k1)" "mbuf_ok ex_reply"
    by (simp_all add: ex_forwarded_def ex_reply_def frame_flow_def flip_def frame_mbuf_ok eval_simps)
      (simp add: mbuf_ok_def)
  moreover have "cksum_safe ex_cfg ex_request" "cksum_safe ex_cfg ex_reply" by (simp_all add: cksum_safe_def ex_cfg_def)
  moreover have "fc_gateway_ip_be ex_cfg = st_gateway_ip ex_table" "vip_ip_be (fc_vip ex_cfg) \<noteq> fc_gateway_ip_be ex_cfg"
    "to_vip ex_cfg (ex_flow 5000)" "ho_result (outcome tx_forward) \<noteq> hr_drop" "fc_client_side_mac ex_cfg = MAC 2 0 0 0 0 4"
    by (simp_all add: ex_cfg_def ex_table_def session_table_def to_vip_def ex_flow_def outcome_def)
  ultimately show ?thesis
    using reply_reaches_client [OF _ _ ex_request_ok ex_table_inv _ ex_request_frame(2) req] req by metis
qed

text \<open>
  C32: traffic that is neither for the virtual service nor for the gateway's address, or that
  is no acceptable UDP frame, is dropped and changes nothing at all: neither the buffer, nor
  the session table, nor the picker's state.
\<close>

theorem other_traffic_untouched:
  assumes "mbuf_ok m" "cksum_safe cfg m"
    and "\<forall>udp len key. acceptable ck cfg m udp len \<and> frame_flow (mb_buf m) udp = Some key \<longrightarrow>
      \<not> to_vip cfg key \<and> fk_dst_ip key \<noteq> fc_gateway_ip_be cfg"
  shows "fwd_handle ck cfg picker nbrs (Some m) now st u = Some (outcome hr_drop, Some m, st, u)"
proof (cases "\<exists>udp len. acceptable ck cfg m udp len")
  case True
  then obtain udp len key where "acceptable ck cfg m udp len" "frame_flow (mb_buf m) udp = Some key"
    using acceptable_flow [OF assms(1)] by metis
  with assms(3) show ?thesis by (auto simp: fwd_handle_accepted [OF assms(1)])
next
  case False
  then show ?thesis by (rule fwd_handle_rejects [OF assms(1,2)])
qed


theorem other_traffic_untouched_witness:
  "fwd_handle ex_cksum (ex_cfg\<lparr>fc_vip := \<lparr>vip_ip_be = 5, vip_ep_port = 53\<rparr>\<rparr>) ex_picker None (Some ex_request) 7 ex_table 0
    = Some (outcome hr_drop, Some ex_request, ex_table, 0)"
proof (rule other_traffic_untouched [OF ex_request_ok], goal_cases)
  case 1
  then show ?case by (simp add: cksum_safe_def ex_cfg_def)
next
  let ?cfg = "ex_cfg\<lparr>fc_vip := \<lparr>vip_ip_be = 5, vip_ep_port = 53\<rparr>\<rparr>"
  case 2
  show ?case
  proof (intro allI impI)
  fix udp len key
  assume "acceptable ex_cksum ?cfg ex_request udp len \<and> frame_flow (mb_buf ex_request) udp = Some key"
  then have "ld32 (mb_buf ex_request) 30 = Some (fk_dst_ip key)"
    by (auto simp: frame_flow_def split: Option.bind_splits)
  then have "fk_dst_ip key = 0x6401a8c0"
    by (simp add: ex_request_def client_frame_def eval_simps)
  then show "\<not> to_vip ?cfg key \<and> fk_dst_ip key \<noteq> fc_gateway_ip_be ?cfg"
    by (simp add: to_vip_def ex_cfg_def)
  qed
qed

end
