(* ===== verification/Arp.thy ===== *)
theory Arp
  imports Forward
begin

text \<open>
  The ARP handler of \<open>src/src/arp.hpp\<close> and \<open>arp.cpp\<close>: answering requests for the gateway
  and the virtual address, learning from replies, and building probes. The buffer a probe is
  built in comes from the DPDK allocator, which is not part of the repository: the result of
  \<open>rte_pktmbuf_alloc\<close> is an argument (\<open>None\<close> when the pool is empty), and
  \<open>rte_pktmbuf_append\<close> fails when the data room is too short, as its documentation says.
\<close>

section \<open>State and operations\<close>

record ArpConfig =
  ac_gateway_ip_be :: u32
  ac_vip_ip_be :: u32
  ac_gateway_mac :: rte_ether_addr

record ArpOutcome =
  ao_result :: HandleResult
  ao_learned_ip_be :: u32

abbreviation (input) "kArpFrameLen \<equiv> (42::nat)"

definition zero_mac :: rte_ether_addr where
  "zero_mac = MAC 0 0 0 0 0 0"

definition is_zero_mac :: "rte_ether_addr \<Rightarrow> bool" where
  "is_zero_mac mac \<longleftrightarrow> (\<forall>i < 6. addr_bytes mac ! i = 0)"

definition fill_arp_hdr :: "bytes \<Rightarrow> nat \<Rightarrow> bytes option" where
  "fill_arp_hdr b arp = do {
     b1 \<leftarrow> st16 b (arp + arp_hardware) (rte_cpu_to_be_16 RTE_ARP_HRD_ETHER);
     b2 \<leftarrow> st16 b1 (arp + arp_protocol) (rte_cpu_to_be_16 RTE_ETHER_TYPE_IPV4);
     b3 \<leftarrow> st8 b2 (arp + arp_hlen) RTE_ETHER_ADDR_LEN;
     st8 b3 (arp + arp_plen) 4
   }"

definition is_proxy_target :: "ArpConfig \<Rightarrow> u32 \<Rightarrow> bool" where
  "is_proxy_target cfg ip_be \<longleftrightarrow> ip_be = ac_gateway_ip_be cfg \<or> ip_be = ac_vip_ip_be cfg"

definition make_reply ::
    "ArpConfig \<Rightarrow> rte_mbuf \<Rightarrow> nat \<Rightarrow> nat \<Rightarrow> u32 \<Rightarrow> (HandleResult \<times> rte_mbuf) option" where
  "make_reply cfg req eth arp reply_ip_be = do {
     let b = mb_buf req;
     requester \<leftarrow> ld_mac b (eth + eth_src_addr);
     b1 \<leftarrow> st_mac b (eth + eth_dst_addr) requester;
     b2 \<leftarrow> st_mac b1 (eth + eth_src_addr) (ac_gateway_mac cfg);
     b3 \<leftarrow> st16 b2 (arp + arp_opcode) (rte_cpu_to_be_16 RTE_ARP_OP_REPLY);
     sha \<leftarrow> ld_mac b3 (arp + arp_sha);
     b4 \<leftarrow> st_mac b3 (arp + arp_tha) sha;
     b5 \<leftarrow> st_mac b4 (arp + arp_sha) (ac_gateway_mac cfg);
     sender_ip \<leftarrow> ld32 b5 (arp + arp_sip);
     b6 \<leftarrow> st32 b5 (arp + arp_sip) reply_ip_be;
     b7 \<leftarrow> st32 b6 (arp + arp_tip) sender_ip;
     Some (tx_arp, req\<lparr>mb_buf := b7, mb_pkt_len := 42, mb_data_len := 42\<rparr>)
   }"

definition handle_request :: "ArpConfig \<Rightarrow> rte_mbuf \<Rightarrow> nat \<Rightarrow> nat \<Rightarrow> (HandleResult \<times> rte_mbuf) option" where
  "handle_request cfg m eth arp = do {
     target_ip_be \<leftarrow> ld32 (mb_buf m) (arp + arp_tip);
     if \<not> is_proxy_target cfg target_ip_be then Some (hr_drop, m)
     else make_reply cfg m eth arp target_ip_be
   }"

definition handle_reply ::
    "NeighborTable option \<Rightarrow> bytes \<Rightarrow> nat \<Rightarrow> u64 \<Rightarrow> (HandleResult \<times> u32 \<times> NeighborTable option) option" where
  "handle_reply neighbors b arp now =
     (case neighbors of None \<Rightarrow> Some (hr_drop, 0, None)
      | Some nt \<Rightarrow> do {
          ip_be \<leftarrow> ld32 b (arp + arp_sip);
          sha \<leftarrow> ld_mac b (arp + arp_sha);
          if ip_be = 0 \<or> is_zero_mac sha then Some (hr_drop, 0, Some nt)
          else Some (hr_drop, ip_be, Some (nt_learn nt ip_be sha now))
        })"

definition arp_handle ::
    "ArpConfig \<Rightarrow> rte_mbuf option \<Rightarrow> NeighborTable option \<Rightarrow> u64 \<Rightarrow>
     (ArpOutcome \<times> rte_mbuf option \<times> NeighborTable option) option" where
  "arp_handle cfg mo neighbors now = do {
     (status, eth_out, arp_out) \<leftarrow> parse_arp mo;
     case mo of
       None \<Rightarrow> Some (\<lparr>ao_result = hr_drop, ao_learned_ip_be = 0\<rparr>, mo, neighbors)
     | Some m \<Rightarrow>
         if status \<noteq> ok then Some (\<lparr>ao_result = hr_drop, ao_learned_ip_be = 0\<rparr>, mo, neighbors)
         else do {
           arp \<leftarrow> arp_out;
           op_be \<leftarrow> ld16 (mb_buf m) (arp + arp_opcode);
           let opcode = rte_be_to_cpu_16 op_be;
           if opcode = RTE_ARP_OP_REQUEST then do {
             eth \<leftarrow> eth_out;
             (r, m1) \<leftarrow> handle_request cfg m eth arp;
             Some (\<lparr>ao_result = r, ao_learned_ip_be = 0\<rparr>, Some m1, neighbors)
           }
           else if opcode = RTE_ARP_OP_REPLY then do {
             (r, learned, nt1) \<leftarrow> handle_reply neighbors (mb_buf m) arp now;
             Some (\<lparr>ao_result = r, ao_learned_ip_be = learned\<rparr>, mo, nt1)
           }
           else Some (\<lparr>ao_result = hr_drop, ao_learned_ip_be = 0\<rparr>, mo, neighbors)
         }
   }"

text \<open>
  The request is written over the appended bytes; the result carries the buffer, or the
  address of the buffer that was freed because it has no room for the frame.
\<close>

definition make_request :: "ArpConfig \<Rightarrow> rte_mbuf option \<Rightarrow> u32 \<Rightarrow> (rte_mbuf option \<times> nat list) option" where
  "make_request cfg alloc target_ip_be = (case alloc of None \<Rightarrow> Some (None, [])
   | Some m \<Rightarrow>
     if length (mb_buf m) < unat (mb_data_len m) + kArpFrameLen then Some (None, [mb_addr m])
     else do {
       let eth = 0;
       b1 \<leftarrow> st_bytes (mb_buf m) eth (replicate ETH_HDR_LEN 0);
       b2 \<leftarrow> st_mac b1 (eth + eth_src_addr) (ac_gateway_mac cfg);
       b3 \<leftarrow> st_bytes b2 (eth + eth_dst_addr) (replicate 6 0xff);
       b4 \<leftarrow> st16 b3 (eth + eth_ether_type) (rte_cpu_to_be_16 RTE_ETHER_TYPE_ARP);
       let arp = ETH_HDR_LEN;
       b5 \<leftarrow> st_bytes b4 arp (replicate ARP_HDR_LEN 0);
       b6 \<leftarrow> fill_arp_hdr b5 arp;
       b7 \<leftarrow> st16 b6 (arp + arp_opcode) (rte_cpu_to_be_16 RTE_ARP_OP_REQUEST);
       b8 \<leftarrow> st_mac b7 (arp + arp_sha) (ac_gateway_mac cfg);
       b9 \<leftarrow> st32 b8 (arp + arp_sip) (ac_gateway_ip_be cfg);
       b10 \<leftarrow> st_mac b9 (arp + arp_tha) zero_mac;
       b11 \<leftarrow> st32 b10 (arp + arp_tip) target_ip_be;
       Some (Some (m\<lparr>mb_buf := b11, mb_pkt_len := 42, mb_data_len := 42\<rparr>), [])
     })"

definition arp_set_gateway_mac :: "ArpConfig \<Rightarrow> rte_ether_addr \<Rightarrow> ArpConfig" where
  "arp_set_gateway_mac cfg mac = cfg\<lparr>ac_gateway_mac := mac\<rparr>"

section \<open>ARP frames\<close>

text \<open>The fields of an Ethernet/IPv4 ARP packet on the wire.\<close>

record arp_fields =
  af_eth_dst :: rte_ether_addr
  af_eth_src :: rte_ether_addr
  af_op :: u16
  af_sha :: rte_ether_addr
  af_sip :: u32
  af_tha :: rte_ether_addr
  af_tip :: u32

definition arp_frame :: "rte_mbuf \<Rightarrow> arp_fields \<Rightarrow> bool" where
  "arp_frame m a \<longleftrightarrow> (let b = mb_buf m in
     42 \<le> unat (mb_data_len m) \<and> mbuf_ok m \<and>
     be16 b 12 = Some RTE_ETHER_TYPE_ARP \<and> be16 b 14 = Some 1 \<and> be16 b 16 = Some RTE_ETHER_TYPE_IPV4 \<and>
     ld8 b 18 = Some 6 \<and> ld8 b 19 = Some 4 \<and>
     ld_mac b 0 = Some (af_eth_dst a) \<and> ld_mac b 6 = Some (af_eth_src a) \<and>
     be16 b 20 = Some (af_op a) \<and> ld_mac b 22 = Some (af_sha a) \<and> ld32 b 28 = Some (af_sip a) \<and>
     ld_mac b 32 = Some (af_tha a) \<and> ld32 b 38 = Some (af_tip a))"

lemma arp_frame_parses: "arp_frame m a \<Longrightarrow> parse_arp (Some m) = Some (ok, Some 0, Some 14)"
  by (auto simp: arp_frame_def parse_arp_def be16_def Let_def)

lemma parse_arp_ok:
  assumes "mbuf_ok m" "parse_arp (Some m) = Some (ok, e, p)"
  obtains a where "arp_frame m a" "e = Some 0" "p = Some 14"
proof -
  have n: "42 \<le> unat (mb_data_len m)"
    using assms(2) by (auto simp: parse_arp_def split: if_splits)
  then have "42 \<le> length (mb_buf m)" using assms(1) by (simp add: mbuf_ok_def)
  then obtain t h pr hl pl ed es op sha sip tha tip where ld: "ld16 (mb_buf m) 12 = Some t" "ld16 (mb_buf m) 14 = Some h"
    "ld16 (mb_buf m) 16 = Some pr" "ld8 (mb_buf m) 18 = Some hl" "ld8 (mb_buf m) 19 = Some pl" "ld_mac (mb_buf m) 0 = Some ed"
    "ld_mac (mb_buf m) 6 = Some es" "ld16 (mb_buf m) 20 = Some op" "ld_mac (mb_buf m) 22 = Some sha" "ld32 (mb_buf m) 28 = Some sip"
    "ld_mac (mb_buf m) 32 = Some tha" "ld32 (mb_buf m) 38 = Some tip"
    by (simp add: ld_in_bounds ld_mac_in_bounds)
  then have "arp_frame m \<lparr>af_eth_dst = ed, af_eth_src = es, af_op = bswap16 op, af_sha = sha, af_sip = sip, af_tha = tha, af_tip = tip\<rparr>"
    using n assms by (auto simp: arp_frame_def parse_arp_def be16_def Let_def split: if_splits)
  moreover have "e = Some 0" "p = Some 14"
    using assms(2) ld n by (auto simp: parse_arp_def Let_def split: if_splits)
  ultimately show ?thesis by (rule that)
qed

definition reply_to :: "ArpConfig \<Rightarrow> arp_fields \<Rightarrow> arp_fields" where
  "reply_to cfg a = \<lparr>af_eth_dst = af_eth_src a, af_eth_src = ac_gateway_mac cfg, af_op = RTE_ARP_OP_REPLY,
     af_sha = ac_gateway_mac cfg, af_sip = af_tip a, af_tha = af_sha a, af_tip = af_sip a\<rparr>"

lemma arp_frame_len: "arp_frame m a \<Longrightarrow> 42 \<le> length (mb_buf m)"
  by (auto simp: arp_frame_def mbuf_ok_def Let_def)

lemma make_reply_ok:
  assumes "arp_frame m a"
  shows "\<exists>m'. make_reply cfg m 0 14 (af_tip a) = Some (tx_arp, m') \<and> arp_frame m' (reply_to cfg a) \<and>
    mb_addr m' = mb_addr m \<and> mb_data_len m' = 42 \<and> length (mb_buf m') = length (mb_buf m)"
proof -
  let ?g = "addr_bytes (ac_gateway_mac cfg)"
  define b' where "b' = put (put (put (put (put (put (put (mb_buf m) 0 (addr_bytes (af_eth_src a))) 6 ?g) 20 (enc16 (bswap16 2)))
    32 (addr_bytes (af_sha a))) 22 ?g) 28 (enc32 (af_tip a))) 38 (enc32 (af_sip a))"
  note len = arp_frame_len [OF assms]
  have ld: "ld_mac (mb_buf m) 6 = Some (af_eth_src a)" "ld_mac (mb_buf m) 22 = Some (af_sha a)" "ld32 (mb_buf m) 28 = Some (af_sip a)"
    and hdr: "be16 (mb_buf m) 12 = Some 0x0806" "be16 (mb_buf m) 14 = Some 1" "be16 (mb_buf m) 16 = Some 0x0800"
      "ld8 (mb_buf m) 18 = Some 6" "ld8 (mb_buf m) 19 = Some 4"
    using assms by (simp_all add: arp_frame_def Let_def)
  have "make_reply cfg m 0 14 (af_tip a) = Some (tx_arp, m\<lparr>mb_buf := b', mb_pkt_len := 42, mb_data_len := 42\<rparr>)"
    using len ld by (simp add: make_reply_def st_in_bounds st_mac_in_bounds mem_simps b'_def Let_def)
  moreover have len': "length b' = length (mb_buf m)"
    using len by (simp add: b'_def)
  moreover have "be16 b' 12 = Some 0x0806" "be16 b' 14 = Some 1" "be16 b' 16 = Some 0x0800" "ld8 b' 18 = Some 6" "ld8 b' 19 = Some 4"
    using len hdr by (simp_all add: b'_def be16_def mem_simps)
  moreover have "ld_mac b' 0 = Some (af_eth_src a)" "ld_mac b' 6 = Some (ac_gateway_mac cfg)" "be16 b' 20 = Some 2"
    "ld_mac b' 22 = Some (ac_gateway_mac cfg)" "ld32 b' 28 = Some (af_tip a)" "ld_mac b' 32 = Some (af_sha a)" "ld32 b' 38 = Some (af_sip a)"
    using len by (simp_all add: b'_def be16_def mem_simps)
  ultimately show ?thesis
    using len by (intro exI [of _ "m\<lparr>mb_buf := b', mb_pkt_len := 42, mb_data_len := 42\<rparr>"])
      (simp add: arp_frame_def reply_to_def mbuf_ok_def Let_def)
qed

lemma make_request_ok:
  assumes "unat (mb_data_len m) + 42 \<le> length (mb_buf m)"
  shows "\<exists>m'. make_request cfg (Some m) ip = Some (Some m', []) \<and> mb_addr m' = mb_addr m \<and>
    arp_frame m' \<lparr>af_eth_dst = MAC 255 255 255 255 255 255, af_eth_src = ac_gateway_mac cfg, af_op = RTE_ARP_OP_REQUEST,
      af_sha = ac_gateway_mac cfg, af_sip = ac_gateway_ip_be cfg, af_tha = zero_mac, af_tip = ip\<rparr>"
proof -
  have room: "42 \<le> length (mb_buf m)" using assms by simp
  let ?g = "addr_bytes (ac_gateway_mac cfg)" and ?bc = "MAC 255 255 255 255 255 255"
  have bc: "replicate 6 (255 :: u8) = addr_bytes ?bc"
    by (simp add: numeral_eq_Suc)
  define b4 where "b4 = put (put (put (put (mb_buf m) 0 (replicate 14 0)) 6 ?g) 0 (addr_bytes ?bc)) 12 (enc16 (bswap16 0x0806))"
  define b6 where "b6 = put (put (put (put (put b4 14 (replicate 28 0)) 14 (enc16 (bswap16 1))) 16 (enc16 (bswap16 0x0800))) 18 [6]) 19 [4]"
  define b' where "b' = put (put (put (put (put b6 20 (enc16 (bswap16 1))) 22 ?g) 28 (enc32 (ac_gateway_ip_be cfg)))
    32 (addr_bytes zero_mac)) 38 (enc32 ip)"
  have l4: "length b4 = length (mb_buf m)" using room by (simp add: b4_def)
  have l6: "length b6 = length (mb_buf m)" using room l4 by (simp add: b6_def)
  have len: "length b' = length (mb_buf m)" using room l6 by (simp add: b'_def)
  have "fill_arp_hdr (put b4 14 (replicate 28 0)) 14 = Some b6"
    using room l4 by (simp add: fill_arp_hdr_def st_in_bounds b6_def)
  then have "make_request cfg (Some m) ip = Some (Some (m\<lparr>mb_buf := b', mb_pkt_len := 42, mb_data_len := 42\<rparr>), [])"
    using assms l4 l6 by (simp add: make_request_def st_in_bounds st_mac_in_bounds bc b'_def b4_def Let_def)
  moreover have "ld_mac b4 0 = Some ?bc" "ld_mac b4 6 = Some (ac_gateway_mac cfg)" "be16 b4 12 = Some 0x0806"
    using room by (simp_all add: b4_def be16_def mem_simps del: addr_bytes.simps)
  then have "ld_mac b' 0 = Some ?bc" "ld_mac b' 6 = Some (ac_gateway_mac cfg)" "be16 b' 12 = Some 0x0806"
    using room l4 l6 by (simp_all add: b'_def b6_def be16_def mem_simps)
  moreover have "be16 b6 14 = Some 1" "be16 b6 16 = Some 0x0800" "ld8 b6 18 = Some 6" "ld8 b6 19 = Some 4"
    using room l4 by (simp_all add: b6_def be16_def mem_simps)
  then have "be16 b' 14 = Some 1" "be16 b' 16 = Some 0x0800" "ld8 b' 18 = Some 6" "ld8 b' 19 = Some 4"
    using room l6 by (simp_all add: b'_def be16_def mem_simps)
  moreover have "be16 b' 20 = Some 1" "ld_mac b' 22 = Some (ac_gateway_mac cfg)" "ld32 b' 28 = Some (ac_gateway_ip_be cfg)"
    "ld_mac b' 32 = Some zero_mac" "ld32 b' 38 = Some ip"
    using room l6 by (simp_all add: b'_def be16_def mem_simps)
  ultimately show ?thesis
    using room len by (intro exI [of _ "m\<lparr>mb_buf := b', mb_pkt_len := 42, mb_data_len := 42\<rparr>"])
      (simp add: arp_frame_def mbuf_ok_def Let_def)
qed

section \<open>The handler on each kind of frame\<close>

lemma arp_handle_request:
  assumes "arp_frame m a" "af_op a = RTE_ARP_OP_REQUEST"
  obtains (answered) m' where "is_proxy_target cfg (af_tip a)"
      "arp_handle cfg (Some m) nbrs now = Some (\<lparr>ao_result = tx_arp, ao_learned_ip_be = 0\<rparr>, Some m', nbrs)"
      "arp_frame m' (reply_to cfg a)" "mb_addr m' = mb_addr m" "mb_data_len m' = 42" "length (mb_buf m') = length (mb_buf m)"
    | (ignored) "\<not> is_proxy_target cfg (af_tip a)"
      "arp_handle cfg (Some m) nbrs now = Some (\<lparr>ao_result = hr_drop, ao_learned_ip_be = 0\<rparr>, Some m, nbrs)"
proof -
  obtain m' where m': "make_reply cfg m 0 14 (af_tip a) = Some (tx_arp, m')" "arp_frame m' (reply_to cfg a)"
    "mb_addr m' = mb_addr m" "mb_data_len m' = 42" "length (mb_buf m') = length (mb_buf m)"
    using make_reply_ok [OF assms(1)] by blast
  have "be16 (mb_buf m) 20 = Some 1" "ld32 (mb_buf m) 38 = Some (af_tip a)"
    using assms by (simp_all add: arp_frame_def Let_def)
  then have "arp_handle cfg (Some m) nbrs now =
      (if is_proxy_target cfg (af_tip a) then Some (\<lparr>ao_result = tx_arp, ao_learned_ip_be = 0\<rparr>, Some m', nbrs)
       else Some (\<lparr>ao_result = hr_drop, ao_learned_ip_be = 0\<rparr>, Some m, nbrs))"
    using m'(1) by (auto simp: arp_handle_def arp_frame_parses [OF assms(1)] handle_request_def be16_def)
  then show ?thesis
    using m' answered ignored by (cases "is_proxy_target cfg (af_tip a)") simp_all
qed

lemma arp_handle_reply:
  assumes "arp_frame m a" "af_op a = RTE_ARP_OP_REPLY"
  shows "arp_handle cfg (Some m) (Some nt) now =
    (if af_sip a = 0 \<or> is_zero_mac (af_sha a) then Some (\<lparr>ao_result = hr_drop, ao_learned_ip_be = 0\<rparr>, Some m, Some nt)
     else Some (\<lparr>ao_result = hr_drop, ao_learned_ip_be = af_sip a\<rparr>, Some m, Some (nt_learn nt (af_sip a) (af_sha a) now)))"
proof -
  have "be16 (mb_buf m) 20 = Some 2" "ld32 (mb_buf m) 28 = Some (af_sip a)" "ld_mac (mb_buf m) 22 = Some (af_sha a)"
    using assms by (simp_all add: arp_frame_def Let_def)
  then show ?thesis
    by (auto simp: arp_handle_def arp_frame_parses [OF assms(1)] handle_reply_def be16_def)
qed

lemma arp_handle_other:
  assumes "mbuf_ok m" and "\<And>a. arp_frame m a \<Longrightarrow> af_op a \<noteq> RTE_ARP_OP_REQUEST \<and> af_op a \<noteq> RTE_ARP_OP_REPLY"
  shows "arp_handle cfg (Some m) nbrs now = Some (\<lparr>ao_result = hr_drop, ao_learned_ip_be = 0\<rparr>, Some m, nbrs)"
proof -
  obtain status e p where pa: "parse_arp (Some m) = Some (status, e, p)"
    using parse_arp_defined [OF assms(1)] by (cases "parse_arp (Some m)") auto
  show ?thesis
  proof (cases "status = ok")
    case True
    with pa obtain a where a: "arp_frame m a" "p = Some 14"
      using parse_arp_ok [OF assms(1)] by metis
    then have "be16 (mb_buf m) 20 = Some (af_op a)" by (simp add: arp_frame_def Let_def)
    with assms(2) [OF a(1)] a(2) pa show ?thesis by (auto simp: arp_handle_def be16_def)
  qed (simp add: arp_handle_def pa)
qed

text \<open>The handler never leaves the frame, and hands the same buffer back.\<close>

lemma arp_handle_defined:
  assumes wf: "mbuf_ok m"
  shows "\<exists>ao m' nbrs'. arp_handle cfg (Some m) nbrs now = Some (ao, Some m', nbrs') \<and> mb_addr m' = mb_addr m \<and>
    mbuf_ok m' \<and> length (mb_buf m') = length (mb_buf m) \<and> (ao_result ao = tx_arp \<or> ao_result ao = hr_drop) \<and>
    (nbrs = None \<longleftrightarrow> nbrs' = None)"
proof (cases "\<exists>a. arp_frame m a \<and> (af_op a = RTE_ARP_OP_REQUEST \<or> af_op a = RTE_ARP_OP_REPLY)")
  case False
  then show ?thesis using arp_handle_other [OF wf] wf by auto
next
  case True
  then obtain a where a: "arp_frame m a" and op: "af_op a = RTE_ARP_OP_REQUEST \<or> af_op a = RTE_ARP_OP_REPLY" by blast
  show ?thesis
  proof (cases "af_op a = RTE_ARP_OP_REQUEST")
    case True
    from a True show ?thesis
    proof (cases rule: arp_handle_request [of m a cfg nbrs now])
      case (answered m')
      then have "mbuf_ok m'" by (simp add: arp_frame_def Let_def)
      with answered show ?thesis by auto
    qed (use wf in auto)
  next
    case False
    with op have "af_op a = RTE_ARP_OP_REPLY" by blast
    moreover have "be16 (mb_buf m) 20 = Some (af_op a)" using a by (simp add: arp_frame_def Let_def)
    ultimately show ?thesis
      using wf arp_handle_reply [OF a] by (cases nbrs) (auto simp: arp_handle_def arp_frame_parses [OF a] handle_reply_def be16_def)
  qed
qed

section \<open>Properties\<close>

definition ex_arp_cfg :: ArpConfig where
  "ex_arp_cfg = \<lparr>ac_gateway_ip_be = 0x0100000a, ac_vip_ip_be = 0x6401a8c0, ac_gateway_mac = MAC 2 0 0 0 0 1\<rparr>"

definition ex_peer_cfg :: ArpConfig where
  "ex_peer_cfg = \<lparr>ac_gateway_ip_be = 0x0200000a, ac_vip_ip_be = 0, ac_gateway_mac = MAC 2 0 0 0 0 9\<rparr>"

definition ex_fresh_mbuf :: rte_mbuf where
  "ex_fresh_mbuf = \<lparr>mb_addr = 5, mb_buf = replicate 64 0, mb_data_len = 0, mb_pkt_len = 0\<rparr>"

text \<open>
  C24: an ARP request for the gateway's address or the virtual address is answered in place by
  a well-formed 42-byte reply: to the requester's hardware address, from the gateway's, with
  the requested address as sender and the requester as target; a request for any other address
  is dropped and changes nothing. Requests never change the neighbor table.
\<close>

theorem arp_request_answered:
  assumes "arp_frame m a" "af_op a = RTE_ARP_OP_REQUEST"
  shows "if is_proxy_target cfg (af_tip a)
    then \<exists>m'. arp_handle cfg (Some m) nbrs now = Some (\<lparr>ao_result = tx_arp, ao_learned_ip_be = 0\<rparr>, Some m', nbrs) \<and>
      arp_frame m' \<lparr>af_eth_dst = af_eth_src a, af_eth_src = ac_gateway_mac cfg, af_op = RTE_ARP_OP_REPLY,
        af_sha = ac_gateway_mac cfg, af_sip = af_tip a, af_tha = af_sha a, af_tip = af_sip a\<rparr> \<and>
      mb_addr m' = mb_addr m \<and> mb_data_len m' = 42
    else arp_handle cfg (Some m) nbrs now = Some (\<lparr>ao_result = hr_drop, ao_learned_ip_be = 0\<rparr>, Some m, nbrs)"
  using assms
proof (cases rule: arp_handle_request [of m a cfg nbrs now])
  case (answered m')
  then show ?thesis unfolding reply_to_def by simp
qed simp

theorem arp_request_answered_witness:
  "\<exists>m m'. arp_handle ex_peer_cfg (Some m) None 0 = Some (\<lparr>ao_result = tx_arp, ao_learned_ip_be = 0\<rparr>, Some m', None) \<and>
    mb_addr m' = 5"
proof -
  obtain m where m: "mb_addr m = 5" "arp_frame m \<lparr>af_eth_dst = MAC 255 255 255 255 255 255, af_eth_src = MAC 2 0 0 0 0 1, af_op = RTE_ARP_OP_REQUEST,
      af_sha = MAC 2 0 0 0 0 1, af_sip = 0x0100000a, af_tha = zero_mac, af_tip = 0x0200000a\<rparr>"
    using make_request_ok [of ex_fresh_mbuf ex_arp_cfg "0x0200000a"] by (auto simp: ex_fresh_mbuf_def ex_arp_cfg_def)
  show ?thesis
    using arp_request_answered [OF m(2), of ex_peer_cfg None 0] m(1) by (auto simp: is_proxy_target_def ex_peer_cfg_def)
qed

text \<open>
  C23: address resolution works end to end: a probe built for a peer's address, handled by a
  handler that owns that address, comes back as a reply that makes the prober's neighbor table
  resolve the address to the owner's hardware address (unless a static entry pins it), and
  the handler reports the address so that packets waiting for it are released.
\<close>

theorem arp_resolution_round_trip:
  assumes alloc: "mb_data_len m0 = 0" "42 \<le> length (mb_buf m0)"
    and owner: "ac_gateway_ip_be owner = ip" "ip \<noteq> 0" "\<not> is_zero_mac (ac_gateway_mac owner)"
    and free: "\<not> nt_pinned nt ip"
  shows "\<exists>probe reply nt'. make_request cfg (Some m0) ip = Some (Some probe, []) \<and>
    arp_handle owner (Some probe) nbrs t1 = Some (\<lparr>ao_result = tx_arp, ao_learned_ip_be = 0\<rparr>, Some reply, nbrs) \<and>
    arp_handle cfg (Some reply) (Some nt) t2 = Some (\<lparr>ao_result = hr_drop, ao_learned_ip_be = ip\<rparr>, Some reply, Some nt') \<and>
    nt_lookup nt' ip = Some (ac_gateway_mac owner)"
proof -
  let ?a = "\<lparr>af_eth_dst = MAC 255 255 255 255 255 255, af_eth_src = ac_gateway_mac cfg, af_op = RTE_ARP_OP_REQUEST,
      af_sha = ac_gateway_mac cfg, af_sip = ac_gateway_ip_be cfg, af_tha = zero_mac, af_tip = ip\<rparr>"
  obtain probe where p: "make_request cfg (Some m0) ip = Some (Some probe, [])" "arp_frame probe ?a"
    using make_request_ok [of m0 cfg ip] alloc by auto
  obtain reply where r: "arp_handle owner (Some probe) nbrs t1 = Some (\<lparr>ao_result = tx_arp, ao_learned_ip_be = 0\<rparr>, Some reply, nbrs)"
    "arp_frame reply (reply_to owner ?a)"
    using arp_handle_request [OF p(2), of owner nbrs t1 thesis] owner(1) by (auto simp: is_proxy_target_def)
  have "arp_handle cfg (Some reply) (Some nt) t2 =
      Some (\<lparr>ao_result = hr_drop, ao_learned_ip_be = ip\<rparr>, Some reply, Some (nt_learn nt ip (ac_gateway_mac owner) t2))"
    using arp_handle_reply [OF r(2), of cfg nt t2] owner by (simp add: reply_to_def)
  moreover have "nt_lookup (nt_learn nt ip (ac_gateway_mac owner) t2) ip = Some (ac_gateway_mac owner)"
    using free by (rule nt.learn_hit)
  ultimately show ?thesis using p(1) r(1) by blast
qed

theorem arp_resolution_round_trip_witness:
  "\<exists>reply nt'. arp_handle ex_arp_cfg (Some reply) (Some (neighbor_table 300000)) 2 =
      Some (\<lparr>ao_result = hr_drop, ao_learned_ip_be = 0x0200000a\<rparr>, Some reply, Some nt') \<and>
    nt_lookup nt' 0x0200000a = Some (MAC 2 0 0 0 0 9)"
proof -
  have "mb_data_len ex_fresh_mbuf = 0" "42 \<le> length (mb_buf ex_fresh_mbuf)"
    by (simp_all add: ex_fresh_mbuf_def)
  moreover have "ac_gateway_ip_be ex_peer_cfg = 0x0200000a" "(0x0200000a :: u32) \<noteq> 0" "\<not> is_zero_mac (ac_gateway_mac ex_peer_cfg)"
    "ac_gateway_mac ex_peer_cfg = MAC 2 0 0 0 0 9"
    by (auto simp: ex_peer_cfg_def is_zero_mac_def intro!: exI [of _ 0])
  moreover have "\<not> nt_pinned (neighbor_table 300000) 0x0200000a"
    by (simp add: nt_pinned_def neighbor_table_def)
  ultimately show ?thesis
    using arp_resolution_round_trip [of ex_fresh_mbuf ex_peer_cfg "0x0200000a" "neighbor_table 300000" ex_arp_cfg None 1 2] by auto
qed

end
