(* ===== verification/Datapath.thy ===== *)
theory Datapath
  imports Vgw_Prelude
begin

text \<open>
  The configuration of the datapath, \<open>src/src/dpdk/datapath_config.{hpp,cpp}\<close>,
  \<open>src/src/dpdk/datapath_flags.{hpp,cpp}\<close> and the constants of \<open>src/src/dpdk/config.hpp\<close> they
  use: the two I/O modes with their parameters, the separation of the command line into flags of
  the gateway and arguments of the DPDK environment, and the checks that turn flag values into a
  configuration. \<open>rte_exit\<close> ends the process: an operation that may call it returns the reason as
  a value of \<open>exit_reason\<close>. The parser of the gflags library is a parameter. Log messages are
  left out.
\<close>

section \<open>Constants\<close>

definition DPDK_mempool_block_num :: u16 where "DPDK_mempool_block_num = 8192"
definition DPDK_mempool_cache_size :: u32 where "DPDK_mempool_cache_size = 0"
definition DPDK_mempool_private_size :: u32 where "DPDK_mempool_private_size = 0"
definition DPDK_nb_rx_queue_desc :: u16 where "DPDK_nb_rx_queue_desc = 512"
definition DPDK_nb_tx_queue_desc :: u16 where "DPDK_nb_tx_queue_desc = 512"
definition DPDK_vaild_port_marks :: u32 where "DPDK_vaild_port_marks = 1"
definition DPDK_tx_config_default :: bool where "DPDK_tx_config_default = True"
definition DPDK_rx_config_default :: bool where "DPDK_rx_config_default = True"
definition DPDK_tx_queue_num :: nat where "DPDK_tx_queue_num = 1"
definition DPDK_rx_queue_num :: nat where "DPDK_rx_queue_num = 1"
definition IO_RX_BURST :: nat where "IO_RX_BURST = 32"
definition IO_TX_BURST :: nat where "IO_TX_BURST = 32"
definition IO_RING_SIZE :: u16 where "IO_RING_SIZE = 32"
definition IO_RING_FLAGS :: u16 where "IO_RING_FLAGS = 0"
definition IO_TX_RING_FULL_SLEEP_US :: "32 word" where "IO_TX_RING_FULL_SLEEP_US = 10"
definition IO_PORTS_PER_RXTX_LCORE_PAIR :: nat where "IO_PORTS_PER_RXTX_LCORE_PAIR = 2"

section \<open>The configuration\<close>

datatype DatapathMode = Pipeline | Rtc

datatype RtcSteer = SteerAuto | SteerHwRss | SteerSoftRr

datatype RtcResolvedPath = PathDirect | PathHwRss | PathSoftRr

record PipelineParams =
  pp_ring_size :: u16
  pp_launch_rx_lcore :: bool
  pp_launch_tx_lcore :: bool
  pp_tx_ring_full_sleep_us :: "32 word"

record RtcParams =
  rp_steer :: RtcSteer
  rp_workers :: u16
  rp_rx_queues :: u16
  rp_tx_queues :: u16
  rp_dist_ring_size :: u16

text \<open>The union member that was written last; reading the other one is undefined.\<close>

datatype DatapathUnion = u_pipeline PipelineParams | u_rtc RtcParams

record DatapathConfig =
  dc_mode :: DatapathMode
  dc_port_mask :: u32
  dc_worker_port :: u16
  dc_u :: DatapathUnion

definition pipeline_params :: PipelineParams where
  "pipeline_params = \<lparr>pp_ring_size = 0, pp_launch_rx_lcore = True, pp_launch_tx_lcore = True,
     pp_tx_ring_full_sleep_us = 10\<rparr>"

definition rtc_params :: RtcParams where
  "rtc_params = \<lparr>rp_steer = SteerAuto, rp_workers = 1, rp_rx_queues = 0, rp_tx_queues = 0,
     rp_dist_ring_size = 0\<rparr>"

definition datapath_config :: DatapathConfig where
  "datapath_config = \<lparr>dc_mode = Pipeline, dc_port_mask = 0, dc_worker_port = 0,
     dc_u = u_pipeline pipeline_params\<rparr>"

definition datapath_config_defaults :: DatapathConfig where
  "datapath_config_defaults = datapath_config\<lparr>dc_mode := Pipeline,
     dc_port_mask := DPDK_vaild_port_marks, dc_worker_port := 0,
     dc_u := u_pipeline \<lparr>pp_ring_size = 0, pp_launch_rx_lcore = DPDK_rx_config_default,
       pp_launch_tx_lcore = DPDK_tx_config_default,
       pp_tx_ring_full_sleep_us = IO_TX_RING_FULL_SLEEP_US\<rparr>\<rparr>"

definition resolve_rtc_path :: "RtcParams \<Rightarrow> bool \<Rightarrow> RtcResolvedPath" where
  "resolve_rtc_path rtc hw_rss_usable =
     (if rp_workers rtc \<le> 1 then PathDirect
      else if rp_steer rtc = SteerHwRss then PathHwRss
      else if rp_steer rtc = SteerSoftRr then PathSoftRr
      else if hw_rss_usable then PathHwRss else PathSoftRr)"

text \<open>
  A string pointer is an option; an output pointer is an option that holds the value behind it.
  \<open>strcmp\<close> sees a string up to its first NUL.
\<close>

definition c_str :: "string \<Rightarrow> string" where
  "c_str s = takeWhile (\<lambda>c. c \<noteq> CHR 0x00) s"

definition parse_datapath_mode :: "string option \<Rightarrow> DatapathMode option \<Rightarrow> bool \<times> DatapathMode option" where
  "parse_datapath_mode s out =
     (case (s, out) of
        (Some str, Some _) \<Rightarrow>
          if c_str str = ''pipeline'' then (True, Some Pipeline)
          else if c_str str = ''rtc'' then (True, Some Rtc)
          else (False, out)
      | _ \<Rightarrow> (False, out))"

definition parse_rtc_steer :: "string option \<Rightarrow> RtcSteer option \<Rightarrow> bool \<times> RtcSteer option" where
  "parse_rtc_steer s out =
     (case (s, out) of
        (Some str, Some _) \<Rightarrow>
          if c_str str = ''auto'' then (True, Some SteerAuto)
          else if c_str str = ''hw_rss'' then (True, Some SteerHwRss)
          else if c_str str = ''soft_rr'' then (True, Some SteerSoftRr)
          else (False, out)
      | _ \<Rightarrow> (False, out))"

section \<open>The command line\<close>

definition has_prefix :: "string \<Rightarrow> string \<Rightarrow> bool" where
  "has_prefix val pre \<longleftrightarrow> length val \<ge> length pre \<and> take (length pre) val = pre"

definition is_vgw_flag :: "string \<Rightarrow> bool" where
  "is_vgw_flag arg \<longleftrightarrow> has_prefix arg ''--datapath_'' \<or> has_prefix arg ''--io_'' \<or>
     has_prefix arg ''--noio_'' \<or> has_prefix arg ''--rtc_'' \<or> has_prefix arg ''--flagfile'' \<or>
     arg = ''--help'' \<or> arg = ''--helpfull'' \<or> arg = ''--helpshort'' \<or> arg = ''--helpxml'' \<or>
     arg = ''--version''"

definition flag_requires_value :: "string \<Rightarrow> bool" where
  "flag_requires_value arg =
     (let name = takeWhile (\<lambda>c. c \<noteq> CHR ''='') arg
      in name = ''--datapath_mode'' \<or> name = ''--datapath_port_mask'' \<or>
         name = ''--datapath_worker_port'' \<or> name = ''--io_ring_size'' \<or>
         name = ''--io_tx_ring_full_sleep_us'' \<or> name = ''--rtc_steer'' \<or>
         name = ''--rtc_workers'' \<or> name = ''--rtc_dist_ring_size'' \<or> name = ''--flagfile'')"

text \<open>
  The loop over \<open>argv[1]\<close>, \<open>argv[2]\<close>, ...: the arguments it appends to \<open>vgw_argv\<close> and those it
  appends to \<open>eal_argv\<close>.
\<close>

fun split_args :: "string list \<Rightarrow> string list \<times> string list" where
  "split_args [] = ([], [])"
| "split_args (arg # rest) =
     (if arg = ''--'' then ([], arg # rest)
      else if \<not> is_vgw_flag arg then (let (v, e) = split_args rest in (v, arg # e))
      else if flag_requires_value arg \<and> CHR ''='' \<notin> set arg \<and> rest \<noteq> [] then
        (case rest of [] \<Rightarrow> ([arg], [])
         | val # rest' \<Rightarrow> (let (v, e) = split_args rest' in (arg # val # v, e)))
      else (let (v, e) = split_args rest in (arg # v, e)))"

text \<open>\<open>parse_flags\<close> is \<open>gflags::ParseCommandLineFlags\<close>: it sets the flags or ends the process.\<close>

definition parse_vgw_command_line_flags ::
    "(string list \<Rightarrow> 'f \<Rightarrow> 'f option) \<Rightarrow> string \<Rightarrow> string list \<Rightarrow> 'f \<Rightarrow> ('f \<times> string list) option" where
  "parse_vgw_command_line_flags parse_flags argv0 args flags =
     (let (vgw_argv, eal_argv) = split_args args
      in case parse_flags (argv0 # vgw_argv) flags of
           None \<Rightarrow> None
         | Some flags' \<Rightarrow> Some (flags', argv0 # eal_argv))"

section \<open>From flags to a configuration\<close>

record Flags =
  FLAGS_datapath_mode :: string
  FLAGS_datapath_port_mask :: u64
  FLAGS_datapath_worker_port :: u32
  FLAGS_io_ring_size :: u32
  FLAGS_io_rx_lcore :: bool
  FLAGS_io_tx_lcore :: bool
  FLAGS_io_tx_ring_full_sleep_us :: "32 word"
  FLAGS_rtc_steer :: string
  FLAGS_rtc_workers :: u32
  FLAGS_rtc_dist_ring_size :: u32

definition flag_defaults :: Flags where
  "flag_defaults = \<lparr>FLAGS_datapath_mode = ''pipeline'', FLAGS_datapath_port_mask = 0,
     FLAGS_datapath_worker_port = 0, FLAGS_io_ring_size = 0, FLAGS_io_rx_lcore = True,
     FLAGS_io_tx_lcore = True, FLAGS_io_tx_ring_full_sleep_us = 10, FLAGS_rtc_steer = ''auto'',
     FLAGS_rtc_workers = 1, FLAGS_rtc_dist_ring_size = 0\<rparr>"

datatype exit_reason = bad_datapath_mode | port_mask_too_large | flag_too_large string
  | negative_sleep | bad_rtc_steer | ring_create_failed | rtc_multi_worker | eal_init_failed
  | pool_create_failed | no_eth_found | dev_info_failed | dev_configure_failed | desc_adjust_failed
  | rx_queue_failed | tx_queue_failed | dev_start_failed | link_check_failed

definition check_uint16_flag :: "string \<Rightarrow> u32 \<Rightarrow> exit_reason + unit" where
  "check_uint16_flag name v = (if v > 65535 then Inl (flag_too_large name) else Inr ())"

definition or_exit :: "'e + 'a \<Rightarrow> ('a \<Rightarrow> 'e + 'b) \<Rightarrow> 'e + 'b" where
  "or_exit r f = (case r of Inl e \<Rightarrow> Inl e | Inr x \<Rightarrow> f x)"

definition datapath_config_from_flags :: "Flags \<Rightarrow> exit_reason + DatapathConfig" where
  "datapath_config_from_flags f =
     (let c = datapath_config_defaults in
      case parse_datapath_mode (Some (FLAGS_datapath_mode f)) (Some Pipeline) of
        (True, Some mode) \<Rightarrow>
          (let c1 = c\<lparr>dc_mode := mode\<rparr> in
           if FLAGS_datapath_port_mask f > 0xffffffff then Inl port_mask_too_large
           else
             or_exit (check_uint16_flag ''datapath_worker_port'' (FLAGS_datapath_worker_port f)) (\<lambda>_.
             or_exit (check_uint16_flag ''io_ring_size'' (FLAGS_io_ring_size f)) (\<lambda>_.
             or_exit (check_uint16_flag ''rtc_dist_ring_size'' (FLAGS_rtc_dist_ring_size f)) (\<lambda>_.
             if sint (FLAGS_io_tx_ring_full_sleep_us f) < 0 then Inl negative_sleep
             else
               let c2 = (if FLAGS_datapath_port_mask f \<noteq> 0
                         then c1\<lparr>dc_port_mask := ucast (FLAGS_datapath_port_mask f)\<rparr> else c1);
                   c3 = c2\<lparr>dc_worker_port := ucast (FLAGS_datapath_worker_port f)\<rparr>
               in if mode = Pipeline
                  then Inr (c3\<lparr>dc_u := u_pipeline (pipeline_params\<lparr>
                         pp_ring_size := ucast (FLAGS_io_ring_size f),
                         pp_launch_rx_lcore := FLAGS_io_rx_lcore f,
                         pp_launch_tx_lcore := FLAGS_io_tx_lcore f,
                         pp_tx_ring_full_sleep_us := FLAGS_io_tx_ring_full_sleep_us f\<rparr>)\<rparr>)
                  else (case parse_rtc_steer (Some (FLAGS_rtc_steer f)) (Some SteerAuto) of
                      (True, Some steer) \<Rightarrow>
                        or_exit (check_uint16_flag ''rtc_workers'' (FLAGS_rtc_workers f)) (\<lambda>_.
                          let w = (ucast (FLAGS_rtc_workers f) :: u16)
                          in Inr (c3\<lparr>dc_u := u_rtc (rtc_params\<lparr>rp_steer := steer,
                               rp_workers := (if w = 0 then 1 else w),
                               rp_dist_ring_size := ucast (FLAGS_rtc_dist_ring_size f)\<rparr>)\<rparr>))
                    | _ \<Rightarrow> Inl bad_rtc_steer)))))
      | _ \<Rightarrow> Inl bad_datapath_mode)"


section \<open>The command line is separated exactly\<close>

text \<open>
  A reference reading of a command line: a sequence of arguments for the environment, flags that
  stand alone, and flags with their value in the next argument, followed by the separator and
  whatever comes after it, by a last flag whose value is missing, or by nothing.
\<close>

datatype cl_token = EalArg string | VgwFlag string | VgwPair string string

fun wf_token :: "cl_token \<Rightarrow> bool" where
  "wf_token (EalArg a) \<longleftrightarrow> a \<noteq> ''--'' \<and> \<not> is_vgw_flag a"
| "wf_token (VgwFlag a) \<longleftrightarrow> is_vgw_flag a \<and> (flag_requires_value a \<longrightarrow> CHR ''='' \<in> set a)"
| "wf_token (VgwPair a v) \<longleftrightarrow> is_vgw_flag a \<and> flag_requires_value a \<and> CHR ''='' \<notin> set a"

fun token_words :: "cl_token \<Rightarrow> string list" where
  "token_words (EalArg a) = [a]"
| "token_words (VgwFlag a) = [a]"
| "token_words (VgwPair a v) = [a, v]"

fun token_vgw :: "cl_token \<Rightarrow> string list" where
  "token_vgw (EalArg a) = []"
| "token_vgw t = token_words t"

fun token_eal :: "cl_token \<Rightarrow> string list" where
  "token_eal (EalArg a) = [a]"
| "token_eal _ = []"

definition cl_tail :: "string list \<Rightarrow> string list \<Rightarrow> string list \<Rightarrow> bool" where
  "cl_tail rest v e \<longleftrightarrow>
     rest = [] \<and> v = [] \<and> e = [] \<or>
     (\<exists>args. rest = ''--'' # args) \<and> v = [] \<and> e = rest \<or>
     (\<exists>a. rest = [a] \<and> is_vgw_flag a \<and> flag_requires_value a \<and> CHR ''='' \<notin> set a) \<and> v = rest \<and> e = []"

definition cl_reading :: "string list \<Rightarrow> cl_token list \<Rightarrow> string list \<Rightarrow> string list \<Rightarrow> bool" where
  "cl_reading args ts v e \<longleftrightarrow> (\<forall>t \<in> set ts. wf_token t) \<and>
     (\<exists>rest v' e'. args = concat (map token_words ts) @ rest \<and> cl_tail rest v' e' \<and>
        v = concat (map token_vgw ts) @ v' \<and> e = concat (map token_eal ts) @ e')"

lemma separator_is_no_flag [simp]: "\<not> is_vgw_flag ''--''"
  by (simp add: is_vgw_flag_def has_prefix_def)

lemma split_args_tail: "cl_tail rest v e \<Longrightarrow> split_args rest = (v, e)"
  by (auto simp: cl_tail_def)

lemma split_args_tokens:
  "\<forall>t \<in> set ts. wf_token t \<Longrightarrow> split_args rest = (v, e) \<Longrightarrow>
   split_args (concat (map token_words ts) @ rest) =
     (concat (map token_vgw ts) @ v, concat (map token_eal ts) @ e)"
proof (induction ts)
  case (Cons t ts)
  then show ?case by (cases t) auto
qed simp

lemma cl_reading_Cons:
  "wf_token t \<Longrightarrow> cl_reading args ts v e \<Longrightarrow>
   cl_reading (token_words t @ args) (t # ts) (token_vgw t @ v) (token_eal t @ e)"
  unfolding cl_reading_def by force

lemma cl_reading_tail: "cl_tail args v e \<Longrightarrow> cl_reading args [] v e"
  by (simp add: cl_reading_def)

lemma cl_reading_exists: "split_args args = (v, e) \<Longrightarrow> \<exists>ts. cl_reading args ts v e"
proof (induction args arbitrary: v e rule: split_args.induct)
  case 1
  then show ?case by (intro exI [of _ "[]"] cl_reading_tail) (simp add: cl_tail_def)
next
  case (2 arg rest)
  consider (separator) "arg = ''--''"
    | (eal) "arg \<noteq> ''--''" "\<not> is_vgw_flag arg"
    | (dangling) "is_vgw_flag arg" "flag_requires_value arg" "CHR ''='' \<notin> set arg" "rest = []"
    | (pair) val rest' where "is_vgw_flag arg" "flag_requires_value arg" "CHR ''='' \<notin> set arg"
        "rest = val # rest'"
    | (alone) "is_vgw_flag arg" "\<not> (flag_requires_value arg \<and> CHR ''='' \<notin> set arg)"
    by (cases rest) blast+
  then show ?case
  proof cases
    case separator
    then show ?thesis
      using 2(4) by (intro exI [of _ "[]"] cl_reading_tail) (auto simp: cl_tail_def)
  next
    case eal
    obtain v1 e1 where "split_args rest = (v1, e1)" by fastforce
    with 2(1) eal obtain ts where "cl_reading rest ts v1 e1" by blast
    with eal cl_reading_Cons [of "EalArg arg"] \<open>split_args rest = _\<close> 2(4) show ?thesis by fastforce
  next
    case dangling
    then show ?thesis
      using 2(4) by (intro exI [of _ "[]"] cl_reading_tail) (auto simp: cl_tail_def split: if_splits)
  next
    case pair
    obtain v1 e1 where sp: "split_args rest' = (v1, e1)" by fastforce
    moreover have ne: "arg \<noteq> ''--''" using pair(1) by auto
    ultimately obtain ts where "cl_reading rest' ts v1 e1"
      using 2(2) pair by blast
    with pair ne sp cl_reading_Cons [of "VgwPair arg val"] 2(4) show ?thesis by fastforce
  next
    case alone
    obtain v1 e1 where sp: "split_args rest = (v1, e1)" by fastforce
    moreover have ne: "arg \<noteq> ''--''" using alone(1) by auto
    ultimately obtain ts where "cl_reading rest ts v1 e1"
      using 2(3) alone by blast
    with alone ne sp cl_reading_Cons [of "VgwFlag arg"] 2(4) show ?thesis by fastforce
  qed
qed

text \<open>
  C30: the command line is separated exactly as the reference reading says: the flags of the
  gateway, each with the value that follows it when it needs one, go to the flag parser, every
  other argument goes to the environment, both in their order, and nothing is lost or invented.
  The separator and all that follows it, the separator included, go to the environment.
\<close>

theorem split_args_exact: "split_args args = (v, e) \<longleftrightarrow> (\<exists>ts. cl_reading args ts v e)"
proof
  assume "\<exists>ts. cl_reading args ts v e"
  then show "split_args args = (v, e)"
    by (auto simp: cl_reading_def split_args_tokens split_args_tail)
qed (rule cl_reading_exists)

section \<open>Accepted flags\<close>

definition flags_valid :: "Flags \<Rightarrow> bool" where
  "flags_valid f \<longleftrightarrow> c_str (FLAGS_datapath_mode f) \<in> {''pipeline'', ''rtc''} \<and>
     unat (FLAGS_datapath_port_mask f) < 2 ^ 32 \<and> unat (FLAGS_datapath_worker_port f) < 2 ^ 16 \<and>
     unat (FLAGS_io_ring_size f) < 2 ^ 16 \<and> unat (FLAGS_rtc_dist_ring_size f) < 2 ^ 16 \<and>
     0 \<le> sint (FLAGS_io_tx_ring_full_sleep_us f) \<and>
     (c_str (FLAGS_datapath_mode f) = ''rtc'' \<longrightarrow>
        c_str (FLAGS_rtc_steer f) \<in> {''auto'', ''hw_rss'', ''soft_rr''} \<and> unat (FLAGS_rtc_workers f) < 2 ^ 16)"

definition carries :: "Flags \<Rightarrow> DatapathConfig \<Rightarrow> bool" where
  "carries f c \<longleftrightarrow>
     unat (dc_worker_port c) = unat (FLAGS_datapath_worker_port f) \<and>
     unat (dc_port_mask c) =
       (if FLAGS_datapath_port_mask f = 0 then unat DPDK_vaild_port_marks else unat (FLAGS_datapath_port_mask f)) \<and>
     (case dc_u c of
        u_pipeline p \<Rightarrow> dc_mode c = Pipeline \<and> c_str (FLAGS_datapath_mode f) = ''pipeline'' \<and>
          unat (pp_ring_size p) = unat (FLAGS_io_ring_size f) \<and>
          pp_launch_rx_lcore p = FLAGS_io_rx_lcore f \<and> pp_launch_tx_lcore p = FLAGS_io_tx_lcore f \<and>
          pp_tx_ring_full_sleep_us p = FLAGS_io_tx_ring_full_sleep_us f
      | u_rtc r \<Rightarrow> dc_mode c = Rtc \<and> c_str (FLAGS_datapath_mode f) = ''rtc'' \<and>
          unat (rp_workers r) = max 1 (unat (FLAGS_rtc_workers f)) \<and>
          unat (rp_dist_ring_size r) = unat (FLAGS_rtc_dist_ring_size f) \<and>
          parse_rtc_steer (Some (FLAGS_rtc_steer f)) (Some SteerAuto) = (True, Some (rp_steer r)))"

lemma check_uint16_cases:
  "check_uint16_flag n v = (if unat v < 2 ^ 16 then Inr () else Inl (flag_too_large n))"
  by (auto simp: check_uint16_flag_def word_less_nat_alt)

lemma mask_in_range: "(FLAGS_datapath_port_mask f > 0xffffffff) \<longleftrightarrow> \<not> unat (FLAGS_datapath_port_mask f) < 2 ^ 32"
  by (auto simp: word_less_nat_alt)


lemma parse_mode_cases:
  "parse_datapath_mode (Some s) (Some d) =
     (if c_str s = ''pipeline'' then (True, Some Pipeline)
      else if c_str s = ''rtc'' then (True, Some Rtc) else (False, Some d))"
  by (simp add: parse_datapath_mode_def)

lemma parse_steer_cases:
  "c_str s \<in> {''auto'', ''hw_rss'', ''soft_rr''} \<Longrightarrow> \<exists>st. parse_rtc_steer (Some s) (Some d) = (True, Some st)"
  "c_str s \<notin> {''auto'', ''hw_rss'', ''soft_rr''} \<Longrightarrow> parse_rtc_steer (Some s) (Some d) = (False, Some d)"
  by (auto simp: parse_rtc_steer_def)

lemma workers_at_least_one:
  "unat w < 2 ^ 16 \<Longrightarrow> unat (if (ucast w :: u16) = 0 then 1 else (ucast w :: u16)) = max 1 (unat (w :: u32))"
  using unat_ucast_fits [of w, where 'b = 16] by (cases "w = 0") (auto simp: unat_eq_0 max_def Suc_le_eq unat_gt_0)

text \<open>The checks that precede the choice of the mode.\<close>

lemma from_flags_common:
  "datapath_config_from_flags f =
     (if \<not> c_str (FLAGS_datapath_mode f) \<in> {''pipeline'', ''rtc''} then Inl bad_datapath_mode
      else if \<not> unat (FLAGS_datapath_port_mask f) < 2 ^ 32 then Inl port_mask_too_large
      else if \<not> unat (FLAGS_datapath_worker_port f) < 2 ^ 16 then Inl (flag_too_large ''datapath_worker_port'')
      else if \<not> unat (FLAGS_io_ring_size f) < 2 ^ 16 then Inl (flag_too_large ''io_ring_size'')
      else if \<not> unat (FLAGS_rtc_dist_ring_size f) < 2 ^ 16 then Inl (flag_too_large ''rtc_dist_ring_size'')
      else if sint (FLAGS_io_tx_ring_full_sleep_us f) < 0 then Inl negative_sleep
      else if c_str (FLAGS_datapath_mode f) = ''pipeline'' \<or>
        c_str (FLAGS_rtc_steer f) \<in> {''auto'', ''hw_rss'', ''soft_rr''} \<and> unat (FLAGS_rtc_workers f) < 2 ^ 16
      then datapath_config_from_flags f
      else if c_str (FLAGS_rtc_steer f) \<in> {''auto'', ''hw_rss'', ''soft_rr''}
      then Inl (flag_too_large ''rtc_workers'') else Inl bad_rtc_steer)"
  using parse_steer_cases [of "FLAGS_rtc_steer f" SteerAuto]
  by (auto simp: datapath_config_from_flags_def parse_mode_cases mask_in_range check_uint16_cases or_exit_def Let_def)

lemma from_flags_valid:
  assumes "flags_valid f"
  shows "\<exists>c. datapath_config_from_flags f = Inr c \<and> carries f c"
proof (cases "c_str (FLAGS_datapath_mode f) = ''pipeline''")
  case True
  then show ?thesis
    using assms
    by (auto simp: flags_valid_def carries_def datapath_config_from_flags_def parse_mode_cases mask_in_range
        check_uint16_cases or_exit_def Let_def datapath_config_defaults_def datapath_config_def
        pipeline_params_def unat_ucast_fits)
next
  case False
  then obtain st where "parse_rtc_steer (Some (FLAGS_rtc_steer f)) (Some SteerAuto) = (True, Some st)"
    using assms parse_steer_cases(1) [of "FLAGS_rtc_steer f" SteerAuto] by (auto simp: flags_valid_def)
  then show ?thesis
    using assms False
    by (auto simp: flags_valid_def carries_def datapath_config_from_flags_def parse_mode_cases mask_in_range
        check_uint16_cases or_exit_def Let_def datapath_config_defaults_def datapath_config_def
        rtc_params_def unat_ucast_fits workers_at_least_one)
qed

lemma from_flags_result:
  "case datapath_config_from_flags f of Inl e \<Rightarrow> \<not> flags_valid f | Inr c \<Rightarrow> flags_valid f \<and> carries f c"
proof (cases "flags_valid f")
  case True
  then show ?thesis using from_flags_valid [OF True] by auto
next
  case False
  then have "\<exists>e. datapath_config_from_flags f = Inl e"
    by (subst from_flags_common) (auto simp: flags_valid_def)
  with False show ?thesis by auto
qed

text \<open>
  C29: flag values become a configuration or a refusal, and nothing in between: the process ends
  exactly when a flag is outside its range or names no mode or steering; otherwise the
  configuration carries every value unchanged (no value is cut by a narrowing), with the default
  port mask for 0 and at least one worker, and the union member that is set is the one the mode
  reads.
\<close>

theorem flags_config_exact:
  "case datapath_config_from_flags f of Inl e \<Rightarrow> \<not> flags_valid f | Inr c \<Rightarrow> flags_valid f \<and> carries f c"
  by (rule from_flags_result)

end
