(* ===== verification/Gateway.thy ===== *)
theory Gateway
  imports Config CpShm Arp Datapath "HOL-Library.AList"
begin

text \<open>
  The gateway itself, \<open>src/src/vgw.h\<close> and \<open>src/src/vgw.cpp\<close>: construction of the
  services, dispatch of a packet, the queue of packets that wait for an address, and one turn
  of the worker loop. Owning pointers that may be null are options. The hash map of waiting
  packets is an association list, whose order stands for the unspecified order of iteration.
  Buffers are tracked by their addresses: an operation returns the addresses it gave back to
  the pool. The clock, the received burst, the allocator and the transmit function of the
  network interface are arguments. Log messages are left out.
\<close>

section \<open>State\<close>

record ArpPendingEntry =
  pe_m :: rte_mbuf
  pe_enqueued_ms :: u64

record VioletGW =
  gw_datapath :: DatapathConfig
  gw_netif :: "u16 option"
  gw_sessions :: "SessionTable option"
  gw_cp :: "CpShm option"
  gw_upstreams :: UpstreamTable
  gw_neighbors :: "NeighborTable option"
  gw_arp :: "ArpConfig option"
  gw_forwarder :: "ForwardConfig option"
  gw_shm_name :: string
  gw_arp_pending :: "(u32 \<times> ArpPendingEntry list) list"
  gw_arp_probe_last_ms :: "u32 \<rightharpoonup> u64"

definition violet_gw :: VioletGW where
  "violet_gw = \<lparr>gw_datapath = datapath_config, gw_netif = None, gw_sessions = None, gw_cp = None, gw_upstreams = upstream_table,
     gw_neighbors = None, gw_arp = None, gw_forwarder = None, gw_shm_name = [],
     gw_arp_pending = [], gw_arp_probe_last_ms = Map.empty\<rparr>"

section \<open>Construction\<close>

definition ipv4_src_be :: "rte_mbuf option \<Rightarrow> u32 option" where
  "ipv4_src_be mo = (case mo of None \<Rightarrow> Some 0
   | Some m \<Rightarrow>
     if unat (mb_data_len m) < ETH_HDR_LEN + IPV4_HDR_LEN then Some 0
     else do {
       t \<leftarrow> ld16 (mb_buf m) eth_ether_type;
       if rte_be_to_cpu_16 t \<noteq> RTE_ETHER_TYPE_IPV4 then Some 0
       else ld32 (mb_buf m) (ETH_HDR_LEN + ip_src_addr)
     })"

definition mac_from :: "u8 list \<Rightarrow> rte_ether_addr" where
  "mac_from bytes = MAC (bytes ! 0) (bytes ! 1) (bytes ! 2) (bytes ! 3) (bytes ! 4) (bytes ! 5)"

definition ipv4_from :: "u8 list \<Rightarrow> u32" where
  "ipv4_from o4 = rte_cpu_to_be_32 (RTE_IPV4 (o4 ! 0) (o4 ! 1) (o4 ! 2) (o4 ! 3))"

definition balance_policy :: "u8 \<Rightarrow> BalancePolicy" where
  "balance_policy c = (if c = VGW_CP_POLICY_RR then policy_rr else policy_mod)"

definition default_seed :: CpShmSeed where
  "default_seed = \<lparr>seed_policy = balance_policy BALANCE_POLICY,
     seed_endpoints = [\<lparr>ue_ip_be = ipv4_from UPSTREAM0_IP_OCTETS, ue_port = UPSTREAM0_PORT\<rparr>]\<rparr>"

text \<open>
  \<open>seen h\<close> is what the loads of the first poll find in the segment \<open>h\<close> that was opened;
  the default port range of the session table is that of its constructor.
\<close>

definition init_services ::
    "os_results \<Rightarrow> (vgw_cp_shm \<Rightarrow> nat \<Rightarrow> vgw_cp_shm) \<Rightarrow> string option \<Rightarrow> VioletGW \<Rightarrow> int \<times> VioletGW \<times> os_call list" where
  "init_services os seen shm_name gw =
     (let vip_ip = ipv4_from VIP_IP_OCTETS;
          gw_ip = ipv4_from GATEWAY_IP_OCTETS;
          gw1 = gw\<lparr>gw_sessions := Some (session_table gw_ip SESSION_IDLE_TIMEOUT_MS 10000 60000),
                   gw_shm_name := (case shm_name of None \<Rightarrow> CP_SHM_NAME | Some s \<Rightarrow> s)\<rparr>;
          seed = default_seed
      in case cpshm_open os (gw_shm_name gw1) True (Some seed) of
           (None, calls) \<Rightarrow> (1, gw1\<lparr>gw_cp := None\<rparr>, calls)
         | (Some (shm, hdr), calls) \<Rightarrow>
             let (applied, ver, tab) = poll_apply (Some (seen hdr)) (sh_last_applied shm) (Some (gw_upstreams gw1));
                 ups = (if applied then the tab
                        else ut_set (set_policy (gw_upstreams gw1) (seed_policy seed)) (seed_endpoints seed));
                 nt = nt_seed (neighbor_table ARP_ENTRY_TIMEOUT_MS) (ipv4_from UPSTREAM0_IP_OCTETS) (mac_from UPSTREAM_NH_MAC);
                 fcfg = \<lparr>fc_vip = \<lparr>vip_ip_be = vip_ip, vip_ep_port = VIP_PORT\<rparr>, fc_gateway_ip_be = gw_ip,
                   fc_gateway_mac = mac_from GATEWAY_MAC, fc_upstream_mac = mac_from UPSTREAM_NH_MAC,
                   fc_client_side_mac = mac_from CLIENT_NH_MAC, fc_verify_checksum = False,
                   fc_recompute_udp_checksum = False\<rparr>;
                 acfg = \<lparr>ac_gateway_ip_be = gw_ip, ac_vip_ip_be = vip_ip, ac_gateway_mac = fc_gateway_mac fcfg\<rparr>
             in (0, gw1\<lparr>gw_cp := Some (shm\<lparr>sh_last_applied := ver\<rparr>), gw_upstreams := ups,
                       gw_neighbors := Some nt, gw_arp := Some acfg, gw_forwarder := Some fcfg\<rparr>, calls))"

text \<open>The upstream picker the forwarder is given: a pick of the upstream table.\<close>

definition gw_picker :: "UpstreamTable UpstreamPicker" where
  "gw_picker = Some (\<lambda>u key. case pick u key of
     (None, u1) \<Rightarrow> (None, u1)
   | (Some ep, u1) \<Rightarrow> (Some \<lparr>up_ip_be = ue_ip_be ep, up_port = ue_port ep\<rparr>, u1))"

section \<open>One packet\<close>

definition vgw_handle ::
    "cksum_fns \<Rightarrow> VioletGW \<Rightarrow> rte_mbuf option \<Rightarrow> u64 \<Rightarrow> (HandleOutcome \<times> rte_mbuf option \<times> VioletGW) option" where
  "vgw_handle ck gw mo now = (case mo of None \<Rightarrow> Some (outcome hr_drop, mo, gw)
   | Some m \<Rightarrow> do {
       etype \<leftarrow> ethertype mo;
       if etype = RTE_ETHER_TYPE_ARP then
         (case gw_arp gw of None \<Rightarrow> Some (outcome hr_drop, mo, gw)
          | Some acfg \<Rightarrow> do {
              (ao, mo1, nbrs) \<leftarrow> arp_handle acfg mo (gw_neighbors gw) now;
              Some ((outcome (ao_result ao))\<lparr>ho_learned_ip_be := ao_learned_ip_be ao\<rparr>, mo1,
                    gw\<lparr>gw_neighbors := nbrs\<rparr>)
            })
       else if etype = RTE_ETHER_TYPE_IPV4 then
         (case gw_forwarder gw of None \<Rightarrow> Some (outcome hr_drop, mo, gw)
          | Some fcfg \<Rightarrow> do {
              nbrs \<leftarrow> passive_learn_ipv4 mo (gw_neighbors gw) now;
              _ \<leftarrow> (if gw_neighbors gw = None then Some 0 else ipv4_src_be mo);
              st \<leftarrow> gw_sessions gw;
              (ho, mo1, st1, ups1) \<leftarrow> fwd_handle ck fcfg gw_picker nbrs mo now st (gw_upstreams gw);
              src_ip_be \<leftarrow> ipv4_src_be mo1;
              let ho1 = (if src_ip_be \<noteq> 0 \<and> map_of (gw_arp_pending gw) src_ip_be \<noteq> None
                         then ho\<lparr>ho_learned_ip_be := src_ip_be\<rparr> else ho);
              Some (ho1, mo1, gw\<lparr>gw_neighbors := nbrs, gw_sessions := Some st1, gw_upstreams := ups1\<rparr>)
            })
       else Some (outcome hr_drop, mo, gw)
     })"

section \<open>Packets that wait for an address\<close>

definition enqueue_pending :: "VioletGW \<Rightarrow> u32 \<Rightarrow> rte_mbuf option \<Rightarrow> u64 \<Rightarrow> VioletGW \<times> nat list" where
  "enqueue_pending gw ip_be mo now =
     (case mo of None \<Rightarrow> (gw, [])
      | Some m \<Rightarrow>
        if ip_be = 0 then (gw, [])
        else
          let q = (case map_of (gw_arp_pending gw) ip_be of None \<Rightarrow> [] | Some q \<Rightarrow> q);
              gw1 = gw\<lparr>gw_arp_pending := AList.update ip_be q (gw_arp_pending gw)\<rparr>
          in if length q \<ge> ARP_PENDING_MAX_PER_IP then (gw1, [mb_addr m])
             else (gw1\<lparr>gw_arp_pending := AList.update ip_be (q @ [\<lparr>pe_m = m, pe_enqueued_ms = now\<rparr>])
                       (gw_arp_pending gw1)\<rparr>, []))"

text \<open>
  The transmit array is the list of its filled slots. \<open>probe\<close> is the buffer the allocator
  hands out if it is asked; the result says whether it was, and what was freed.
\<close>

definition maybe_probe_arp ::
    "VioletGW \<Rightarrow> rte_mbuf option \<Rightarrow> u32 \<Rightarrow> u64 \<Rightarrow> rte_mbuf list \<Rightarrow> nat \<Rightarrow>
     (VioletGW \<times> rte_mbuf list \<times> bool \<times> nat list) option" where
  "maybe_probe_arp gw alloc ip_be now tx tx_cap =
     (case gw_arp gw of None \<Rightarrow> Some (gw, tx, False, [])
      | Some acfg \<Rightarrow>
        if ip_be = 0 then Some (gw, tx, False, [])
        else if (case gw_arp_probe_last_ms gw ip_be of None \<Rightarrow> False
                 | Some last_ms \<Rightarrow> now - last_ms < ARP_PROBE_INTERVAL_MS)
        then Some (gw, tx, False, [])
        else do {
          (probe, freed) \<leftarrow> make_request acfg alloc ip_be;
          case probe of None \<Rightarrow> Some (gw, tx, True, freed)
          | Some p \<Rightarrow>
              if length tx \<ge> tx_cap then Some (gw, tx, True, freed @ [mb_addr p])
              else Some (gw\<lparr>gw_arp_probe_last_ms := (gw_arp_probe_last_ms gw)(ip_be \<mapsto> now)\<rparr>,
                         tx @ [p], True, freed)
        })"

primrec flush_entries ::
    "cksum_fns \<Rightarrow> ForwardConfig \<Rightarrow> NeighborTable option \<Rightarrow> u32 \<Rightarrow> u64 \<Rightarrow> nat \<Rightarrow> ArpPendingEntry list \<Rightarrow>
     rte_mbuf list \<Rightarrow> (ArpPendingEntry list \<times> rte_mbuf list \<times> nat list) option" where
  "flush_entries ck fcfg nbrs ip_be now tx_cap [] tx = Some ([], tx, [])"
| "flush_entries ck fcfg nbrs ip_be now tx_cap (e # es) tx =
     (if now - pe_enqueued_ms e \<ge> ARP_PENDING_TIMEOUT_MS then do {
        (rest, tx1, freed) \<leftarrow> flush_entries ck fcfg nbrs ip_be now tx_cap es tx;
        Some (rest, tx1, mb_addr (pe_m e) # freed)
      }
      else do {
        (resolved, mo) \<leftarrow> finish_l2 ck fcfg nbrs (Some (pe_m e)) ip_be;
        m \<leftarrow> mo;
        if \<not> resolved \<or> length tx \<ge> tx_cap then do {
          (rest, tx1, freed) \<leftarrow> flush_entries ck fcfg nbrs ip_be now tx_cap es tx;
          Some (e\<lparr>pe_m := m\<rparr> # rest, tx1, freed)
        }
        else flush_entries ck fcfg nbrs ip_be now tx_cap es (tx @ [m])
      })"

definition flush_pending ::
    "cksum_fns \<Rightarrow> VioletGW \<Rightarrow> u32 \<Rightarrow> u64 \<Rightarrow> rte_mbuf list \<Rightarrow> nat \<Rightarrow> (VioletGW \<times> rte_mbuf list \<times> nat list) option" where
  "flush_pending ck gw ip_be now tx tx_cap =
     (case gw_forwarder gw of None \<Rightarrow> Some (gw, tx, [])
      | Some fcfg \<Rightarrow>
        if ip_be = 0 then Some (gw, tx, [])
        else (case map_of (gw_arp_pending gw) ip_be of
            None \<Rightarrow> Some (gw, tx, [])
          | Some [] \<Rightarrow> Some (gw, tx, [])
          | Some q \<Rightarrow> do {
              (remaining, tx1, freed) \<leftarrow> flush_entries ck fcfg (gw_neighbors gw) ip_be now tx_cap q tx;
              if remaining = [] then Some (gw\<lparr>gw_arp_pending := AList.delete ip_be (gw_arp_pending gw)\<rparr>, tx1, freed)
              else Some (gw\<lparr>gw_arp_pending := AList.update ip_be remaining (gw_arp_pending gw)\<rparr>, tx1, freed)
            }))"

definition expired :: "u64 \<Rightarrow> ArpPendingEntry \<Rightarrow> bool" where
  "expired now e \<longleftrightarrow> now - pe_enqueued_ms e \<ge> ARP_PENDING_TIMEOUT_MS"

definition expire_pending :: "VioletGW \<Rightarrow> u64 \<Rightarrow> VioletGW \<times> nat list" where
  "expire_pending gw now =
     (gw\<lparr>gw_arp_pending := filter (\<lambda>(ip, q). q \<noteq> [])
        (map (\<lambda>(ip, q). (ip, filter (\<lambda>e. \<not> expired now e) q)) (gw_arp_pending gw))\<rparr>,
      concat (map (\<lambda>(ip, q). map (\<lambda>e. mb_addr (pe_m e)) (filter (expired now) q)) (gw_arp_pending gw)))"

section \<open>Housekeeping\<close>

definition poll_control :: "(nat \<Rightarrow> vgw_cp_shm) \<Rightarrow> VioletGW \<Rightarrow> bool \<times> VioletGW" where
  "poll_control mem gw = (case gw_cp gw of None \<Rightarrow> (False, gw)
     | Some shm \<Rightarrow>
         let (applied, ver, tab) = poll_apply (Some mem) (sh_last_applied shm) (Some (gw_upstreams gw))
         in (applied, gw\<lparr>gw_cp := Some (shm\<lparr>sh_last_applied := ver\<rparr>), gw_upstreams := the tab\<rparr>))"

definition expire_sessions :: "VioletGW \<Rightarrow> u64 \<Rightarrow> VioletGW option" where
  "expire_sessions gw now = (case gw_sessions gw of None \<Rightarrow> Some gw
     | Some st \<Rightarrow> do { (n, st1) \<leftarrow> expire st now; Some (gw\<lparr>gw_sessions := Some st1\<rparr>) })"

definition expire_neighbors :: "VioletGW \<Rightarrow> u64 \<Rightarrow> VioletGW" where
  "expire_neighbors gw now = (case gw_neighbors gw of None \<Rightarrow> gw
     | Some nt \<Rightarrow> gw\<lparr>gw_neighbors := Some (nt_expire nt now)\<rparr>)"

definition ready_for_run :: "VioletGW \<Rightarrow> bool" where
  "ready_for_run gw \<longleftrightarrow> gw_netif gw \<noteq> None \<and> gw_forwarder gw \<noteq> None \<and> gw_sessions gw \<noteq> None \<and> gw_cp gw \<noteq> None"

section \<open>The worker loop\<close>

abbreviation (input) "kBurst \<equiv> (32::nat)"

text \<open>
  The state of the inner loop over a received burst. \<open>bs_lost\<close> records the buffers that
  \<open>enqueue_pending\<close> returned without taking or freeing: the caller keeps no reference.
\<close>

record 'p burst_state =
  bs_gw :: VioletGW
  bs_tx :: "rte_mbuf list"
  bs_drop :: "rte_mbuf list"
  bs_pool :: 'p
  bs_allocated :: "nat list"
  bs_freed :: "nat list"
  bs_lost :: "nat list"

type_synonym 'p allocator = "'p \<Rightarrow> rte_mbuf option \<times> 'p"

text \<open>The three places a handled packet goes to; a write past the transmit array is undefined.\<close>

definition place ::
    "'p allocator \<Rightarrow> u64 \<Rightarrow> HandleOutcome \<Rightarrow> rte_mbuf \<Rightarrow> 'p burst_state \<Rightarrow> 'p burst_state option" where
  "place alloc now o' m s =
     (if ho_result o' = hr_drop then Some (s\<lparr>bs_drop := bs_drop s @ [m]\<rparr>)
      else if ho_result o' = pending_arp then do {
        let ip = ho_arp_wait_ip_be o';
        let (gw1, freed1) = enqueue_pending (bs_gw s) ip (Some m) now;
        let (buf, pool1) = alloc (bs_pool s);
        (gw2, tx1, asked, freed2) \<leftarrow> maybe_probe_arp gw1 buf ip now (bs_tx s) kBurst;
        Some (s\<lparr>bs_gw := gw2, bs_tx := tx1, bs_pool := (if asked then pool1 else bs_pool s),
          bs_allocated := bs_allocated s @ (case buf of Some p \<Rightarrow> if asked then [mb_addr p] else [] | None \<Rightarrow> []),
          bs_freed := bs_freed s @ freed1 @ freed2,
          bs_lost := bs_lost s @ (if ip = 0 then [mb_addr m] else [])\<rparr>)
      }
      else if length (bs_tx s) < kBurst then Some (s\<lparr>bs_tx := bs_tx s @ [m]\<rparr>)
      else None)"

definition process_packet ::
    "cksum_fns \<Rightarrow> 'p allocator \<Rightarrow> u64 \<Rightarrow> rte_mbuf \<Rightarrow> 'p burst_state \<Rightarrow> 'p burst_state option" where
  "process_packet ck alloc now m s = do {
     (o', mo, gw1) \<leftarrow> vgw_handle ck (bs_gw s) (Some m) now;
     m1 \<leftarrow> mo;
     (gw2, tx1, freed) \<leftarrow> (if ho_learned_ip_be o' \<noteq> 0
        then flush_pending ck gw1 (ho_learned_ip_be o') now (bs_tx s) kBurst
        else Some (gw1, bs_tx s, []));
     place alloc now o' m1 (s\<lparr>bs_gw := gw2, bs_tx := tx1, bs_freed := bs_freed s @ freed\<rparr>)
   }"

primrec process_burst ::
    "cksum_fns \<Rightarrow> 'p allocator \<Rightarrow> u64 \<Rightarrow> rte_mbuf list \<Rightarrow> 'p burst_state \<Rightarrow> 'p burst_state option" where
  "process_burst ck alloc now [] s = Some s"
| "process_burst ck alloc now (m # ms) s = do {
     s1 \<leftarrow> process_packet ck alloc now m s;
     process_burst ck alloc now ms s1
   }"

text \<open>The send loop: repeat until everything is sent or the interface takes nothing.\<close>

function send_all :: "('n \<Rightarrow> rte_mbuf list \<Rightarrow> nat \<times> 'n) \<Rightarrow> 'n \<Rightarrow> rte_mbuf list \<Rightarrow> rte_mbuf list \<times> 'n" where
  "send_all send_burst n tx =
     (if tx = [] then ([], n)
      else case send_burst n tx of (k, n1) \<Rightarrow>
        if k = 0 then (tx, n1) else send_all send_burst n1 (drop k tx))"
  by pat_completeness auto
termination
  by (relation "measure (\<lambda>(f, n, tx). length tx)") auto

declare send_all.simps [simp del]

record run_timers =
  rt_last_expire_ms :: u64
  rt_last_arp_expire_ms :: u64
  rt_last_cp_poll_ms :: u64

definition housekeeping ::
    "(nat \<Rightarrow> vgw_cp_shm) \<Rightarrow> u64 \<Rightarrow> run_timers \<Rightarrow> VioletGW \<Rightarrow> (run_timers \<times> VioletGW \<times> nat list) option" where
  "housekeeping mem now t gw = do {
     (t1, gw1) \<leftarrow> (if now - rt_last_expire_ms t \<ge> SESSION_EXPIRE_INTERVAL_MS
        then do { gw1 \<leftarrow> expire_sessions gw now; Some (t\<lparr>rt_last_expire_ms := now\<rparr>, gw1) }
        else Some (t, gw));
     let (t2, gw2, freed) = (if now - rt_last_arp_expire_ms t1 \<ge> ARP_EXPIRE_INTERVAL_MS
        then (case expire_pending (expire_neighbors gw1 now) now of
                (gw2, freed) \<Rightarrow> (t1\<lparr>rt_last_arp_expire_ms := now\<rparr>, gw2, freed))
        else (t1, gw1, []));
     let (t3, gw3) = (if now - rt_last_cp_poll_ms t2 \<ge> CP_POLL_INTERVAL_MS
        then (t2\<lparr>rt_last_cp_poll_ms := now\<rparr>, snd (poll_control mem gw2))
        else (t2, gw2));
     Some (t3, gw3, freed)
   }"

definition run_turn ::
    "cksum_fns \<Rightarrow> 'p allocator \<Rightarrow> ('n \<Rightarrow> rte_mbuf list \<Rightarrow> nat \<times> 'n) \<Rightarrow> (nat \<Rightarrow> vgw_cp_shm) \<Rightarrow> u64 \<Rightarrow> rte_mbuf list \<Rightarrow>
     run_timers \<Rightarrow> VioletGW \<Rightarrow> 'p \<Rightarrow> 'n \<Rightarrow> (run_timers \<times> 'p burst_state \<times> 'n) option" where
  "run_turn ck alloc send_burst mem now rx t gw pool n = do {
     (t1, gw1, freed0) \<leftarrow> housekeeping mem now t gw;
     let s0 = \<lparr>bs_gw = gw1, bs_tx = [], bs_drop = [], bs_pool = pool, bs_allocated = [], bs_freed = freed0, bs_lost = []\<rparr>;
     if rx = [] then Some (t1, s0, n)
     else do {
       s \<leftarrow> process_burst ck alloc now rx s0;
       let (rest, n1) = send_all send_burst n (bs_tx s);
       Some (t1, s\<lparr>bs_freed := bs_freed s @ map mb_addr rest @ map mb_addr (bs_drop s)\<rparr>, n1)
     }
   }"

section \<open>Invariant\<close>

definition entries_ok :: "ArpPendingEntry list \<Rightarrow> bool" where
  "entries_ok q \<longleftrightarrow> (\<forall>e \<in> set q. mbuf_ok (pe_m e)) \<and> length q \<le> ARP_PENDING_MAX_PER_IP"

definition pending_ok :: "(u32 \<times> ArpPendingEntry list) list \<Rightarrow> bool" where
  "pending_ok al \<longleftrightarrow> distinct (map fst al) \<and> (\<forall>(ip, q) \<in> set al. ip \<noteq> 0 \<and> entries_ok q)"

text \<open>
  The forwarder of the gateway is made with the defaults of its configuration: checksums are
  neither verified nor recomputed.
\<close>

definition gw_inv :: "VioletGW \<Rightarrow> bool" where
  "gw_inv gw \<longleftrightarrow> (gw_forwarder gw \<noteq> None \<longrightarrow> gw_sessions gw \<noteq> None) \<and>
     (\<forall>c. gw_forwarder gw = Some c \<longrightarrow> \<not> fc_verify_checksum c \<and> \<not> fc_recompute_udp_checksum c) \<and>
     (\<forall>st. gw_sessions gw = Some st \<longrightarrow> st_inv st) \<and> pending_ok (gw_arp_pending gw)"

lemma gw_inv_safe: "gw_inv gw \<Longrightarrow> gw_forwarder gw = Some c \<Longrightarrow> cksum_safe c m"
  by (simp add: gw_inv_def cksum_safe_off)

lemma pending_ok_update:
  "pending_ok al \<Longrightarrow> ip \<noteq> 0 \<Longrightarrow> entries_ok q \<Longrightarrow> pending_ok (AList.update ip q al)"
proof (induction al)
  case (Cons x al)
  have "fst y = ip \<or> y \<in> set al" if "y \<in> set (AList.update ip q al)" for y
    using that by (induction al) (auto split: if_splits)
  moreover have "fst ` set (AList.update ip q al) = insert ip (fst ` set al)"
    using dom_update [of ip q al] by simp
  ultimately show ?case
    using Cons by (cases x) (auto simp: pending_ok_def distinct_update)
qed (simp add: pending_ok_def)

lemma pending_ok_delete: "pending_ok al \<Longrightarrow> pending_ok (AList.delete ip al)"
  by (auto simp: pending_ok_def AList.delete_eq intro: distinct_map_filter)

lemma pending_ok_entries: "pending_ok al \<Longrightarrow> map_of al ip = Some q \<Longrightarrow> entries_ok q \<and> ip \<noteq> 0"
  by (auto simp: pending_ok_def dest!: map_of_SomeD)

section \<open>Where the buffers are\<close>

definition qaddrs :: "ArpPendingEntry list \<Rightarrow> nat list" where
  "qaddrs q = map (\<lambda>e. mb_addr (pe_m e)) q"

definition pend_addrs :: "(u32 \<times> ArpPendingEntry list) list \<Rightarrow> nat multiset" where
  "pend_addrs al = (\<Sum>(ip, q) \<in># mset al. mset (qaddrs q))"

lemma pend_addrs_simps [simp]:
  "pend_addrs [] = {#}" "pend_addrs ((ip, q) # al) = mset (qaddrs q) + pend_addrs al"
  by (simp_all add: pend_addrs_def)

lemma qaddrs_simps [simp]: "qaddrs [] = []" "qaddrs (e # q) = mb_addr (pe_m e) # qaddrs q" "qaddrs (q @ q') = qaddrs q @ qaddrs q'"
  by (simp_all add: qaddrs_def)

definition queue_of :: "(u32 \<times> ArpPendingEntry list) list \<Rightarrow> u32 \<Rightarrow> ArpPendingEntry list" where
  "queue_of al ip = (case map_of al ip of None \<Rightarrow> [] | Some q \<Rightarrow> q)"

lemma pend_addrs_update:
  "pend_addrs (AList.update ip q al) + mset (qaddrs (queue_of al ip)) = pend_addrs al + mset (qaddrs q)"
  by (induction al) (auto simp: queue_of_def ac_simps)

lemma pend_addrs_delete:
  "distinct (map fst al) \<Longrightarrow> pend_addrs (AList.delete ip al) + mset (qaddrs (queue_of al ip)) = pend_addrs al"
proof (induction al)
  case (Cons x al)
  obtain ip' q where x: "x = (ip', q)" by (cases x)
  show ?case
  proof (cases "ip' = ip")
    case True
    then have "AList.delete ip al = al"
      using Cons.prems x by (simp add: AList.delete_idem image_iff)
    then show ?thesis using True by (simp add: x queue_of_def)
  next
    case False
    then show ?thesis using Cons by (simp add: x queue_of_def ac_simps)
  qed
qed (simp add: queue_of_def)

text \<open>Everything a burst state is responsible for.\<close>

definition held :: "'p burst_state \<Rightarrow> nat multiset" where
  "held s = pend_addrs (gw_arp_pending (bs_gw s)) + mset (map mb_addr (bs_tx s)) + mset (map mb_addr (bs_drop s)) +
     mset (bs_freed s) + mset (bs_lost s)"

section \<open>The operations keep the invariant and the buffers\<close>

lemma enqueue_pending_ok:
  assumes inv: "gw_inv gw" and m: "mbuf_ok m" and e: "enqueue_pending gw ip (Some m) now = (gw', freed)"
  shows "gw_inv gw' \<and> gw_forwarder gw' = gw_forwarder gw \<and> gw_arp gw' = gw_arp gw \<and>
    pend_addrs (gw_arp_pending gw') + mset freed + (if ip = 0 then {#mb_addr m#} else {#}) =
    pend_addrs (gw_arp_pending gw) + {#mb_addr m#}"
proof (cases "ip = 0")
  case True
  then show ?thesis using e inv by (simp add: enqueue_pending_def)
next
  case False
  let ?al = "gw_arp_pending gw" and ?q = "queue_of (gw_arp_pending gw) ip"
  let ?al1 = "AList.update ip ?q ?al" and ?q1 = "?q @ [\<lparr>pe_m = m, pe_enqueued_ms = now\<rparr>]"
  have al: "pending_ok ?al" using inv by (simp add: gw_inv_def)
  then have q: "entries_ok ?q"
    using pending_ok_entries [OF al, of ip] by (auto simp: queue_of_def entries_ok_def split: option.splits)
  have same: "queue_of ?al1 ip = ?q" by (simp add: queue_of_def update_conv')
  have al1: "pending_ok ?al1" using al q False by (simp add: pending_ok_update)
  have b1: "pend_addrs ?al1 = pend_addrs ?al"
    using pend_addrs_update [of ip ?q ?al] by simp
  have e': "(gw', freed) = (if length ?q \<ge> ARP_PENDING_MAX_PER_IP then (gw\<lparr>gw_arp_pending := ?al1\<rparr>, [mb_addr m])
      else (gw\<lparr>gw_arp_pending := AList.update ip ?q1 ?al1\<rparr>, []))"
    using e [symmetric] False by (simp add: enqueue_pending_def queue_of_def Let_def)
  show ?thesis
  proof (cases "length ?q \<ge> ARP_PENDING_MAX_PER_IP")
    case True
    then show ?thesis using e' inv al1 b1 False by (simp add: gw_inv_def)
  next
    case room: False
    then have "entries_ok ?q1" using q m by (simp add: entries_ok_def)
    then have "pending_ok (AList.update ip ?q1 ?al1)" by (rule pending_ok_update [OF al1 False])
    moreover have "pend_addrs (AList.update ip ?q1 ?al1) = pend_addrs ?al + {#mb_addr m#}"
      using pend_addrs_update [of ip ?q1 ?al1] by (simp add: same b1)
    ultimately show ?thesis using e' room inv False by (simp add: gw_inv_def)
  qed
qed

lemma make_request_defined: "\<exists>r freed. make_request cfg alloc ip = Some (r, freed)"
proof (cases alloc)
  case (Some m)
  then show ?thesis
    using make_request_ok [of m cfg ip]
    by (cases "length (mb_buf m) < unat (mb_data_len m) + 42") (auto simp: make_request_def)
qed (simp add: make_request_def)

lemma make_request_addr:
  "make_request cfg alloc ip = Some (r, freed) \<Longrightarrow>
     mset (case r of None \<Rightarrow> [] | Some p \<Rightarrow> [mb_addr p]) + mset freed = mset (case alloc of None \<Rightarrow> [] | Some m \<Rightarrow> [mb_addr m])"
  by (auto simp: make_request_def Let_def bind_eq_Some_conv split: option.splits if_splits)

text \<open>A probe is not due, or a request was built and is put out, or freed when the array is full.\<close>

lemma maybe_probe_arp_cases:
  obtains (skipped) "maybe_probe_arp gw alloc ip now tx cap = Some (gw, tx, False, [])"
  | (failed) freed acfg where "make_request acfg alloc ip = Some (None, freed)"
      "maybe_probe_arp gw alloc ip now tx cap = Some (gw, tx, True, freed)"
  | (full) freed acfg p where "make_request acfg alloc ip = Some (Some p, freed)" "length tx \<ge> cap"
      "maybe_probe_arp gw alloc ip now tx cap = Some (gw, tx, True, freed @ [mb_addr p])"
  | (probed) freed acfg p where "make_request acfg alloc ip = Some (Some p, freed)" "length tx < cap"
      "maybe_probe_arp gw alloc ip now tx cap =
         Some (gw\<lparr>gw_arp_probe_last_ms := (gw_arp_probe_last_ms gw)(ip \<mapsto> now)\<rparr>, tx @ [p], True, freed)"
proof (cases "gw_arp gw")
  case None
  then show ?thesis by (intro skipped) (simp add: maybe_probe_arp_def)
next
  case (Some acfg)
  show ?thesis
  proof (cases "ip = 0 \<or> (case gw_arp_probe_last_ms gw ip of None \<Rightarrow> False | Some l \<Rightarrow> now - l < ARP_PROBE_INTERVAL_MS)")
    case True
    then show ?thesis by (intro skipped) (auto simp: maybe_probe_arp_def Some)
  next
    case False
    obtain r freed where r: "make_request acfg alloc ip = Some (r, freed)"
      using make_request_defined by metis
    have h: "maybe_probe_arp gw alloc ip now tx cap = (case r of None \<Rightarrow> Some (gw, tx, True, freed)
        | Some p \<Rightarrow> if length tx \<ge> cap then Some (gw, tx, True, freed @ [mb_addr p])
            else Some (gw\<lparr>gw_arp_probe_last_ms := (gw_arp_probe_last_ms gw)(ip \<mapsto> now)\<rparr>, tx @ [p], True, freed))"
      using False r by (simp add: maybe_probe_arp_def Some)
    show ?thesis
    proof (cases r)
      case None
      then show ?thesis using failed [of acfg freed] r h by simp
    next
      case (Some p)
      then show ?thesis using full [of acfg p freed] probed [of acfg p freed] r h by (cases "length tx \<ge> cap") simp_all
    qed
  qed
qed

lemma maybe_probe_arp_ok:
  assumes "gw_inv gw"
  obtains gw' tx' asked freed where "maybe_probe_arp gw alloc ip now tx cap = Some (gw', tx', asked, freed)"
    "gw_inv gw'" "gw_arp_pending gw' = gw_arp_pending gw" "length tx' \<le> Suc (length tx)" "length tx \<le> cap \<Longrightarrow> length tx' \<le> cap"
    "mset (map mb_addr tx') + mset freed = mset (map mb_addr tx) +
       mset (if asked then (case alloc of None \<Rightarrow> [] | Some m \<Rightarrow> [mb_addr m]) else [])"
proof (cases rule: maybe_probe_arp_cases [of gw alloc ip now tx cap])
  case skipped
  then show ?thesis using that [of gw tx False "[]"] assms by simp
next
  case (failed freed acfg)
  then show ?thesis using that [of gw tx True freed] assms make_request_addr [OF failed(1)] by simp
next
  case (full freed acfg p)
  then show ?thesis using that [of gw tx True "freed @ [mb_addr p]"] assms make_request_addr [OF full(1)] by simp
next
  case (probed freed acfg p)
  let ?gw = "gw\<lparr>gw_arp_probe_last_ms := (gw_arp_probe_last_ms gw)(ip \<mapsto> now)\<rparr>"
  have "gw_inv ?gw" using assms by (simp add: gw_inv_def)
  then show ?thesis
    using that [of ?gw "tx @ [p]" True freed] probed make_request_addr [OF probed(1)] by simp
qed

lemma mset_exchange:
  fixes a a' q r t t' f :: "'a multiset"
  assumes "a' + q = a + r" and "r + t' + f = q + t"
  shows "a' + t' + f = a + t"
proof -
  have "(a' + t' + f) + q = (a' + q) + t' + f" by (simp add: ac_simps)
  also have "\<dots> = a + (r + t' + f)" by (simp add: assms(1) ac_simps)
  also have "\<dots> = (a + t) + q" unfolding assms(2) by (simp add: ac_simps)
  finally show ?thesis by simp
qed

lemma flush_entries_ok:
  assumes "\<forall>e \<in> set es. mbuf_ok (pe_m e)"
  shows "\<exists>rest tx' freed. flush_entries ck fcfg nbrs ip now cap es tx = Some (rest, tx', freed) \<and>
    (\<forall>e \<in> set rest. mbuf_ok (pe_m e)) \<and> length rest \<le> length es \<and> (length tx \<le> cap \<longrightarrow> length tx' \<le> cap) \<and>
    mset (qaddrs rest) + mset (map mb_addr tx') + mset freed = mset (qaddrs es) + mset (map mb_addr tx)"
  using assms
proof (induction es arbitrary: tx)
  case (Cons e es)
  then have es: "\<forall>e \<in> set es. mbuf_ok (pe_m e)" and e: "mbuf_ok (pe_m e)" by auto
  obtain r b where fin: "finish_l2 ck fcfg nbrs (Some (pe_m e)) ip = Some (r, Some ((pe_m e)\<lparr>mb_buf := b\<rparr>))"
    "length b = length (mb_buf (pe_m e))"
    using finish_l2_defined [OF e] by metis
  let ?m = "(pe_m e)\<lparr>mb_buf := b\<rparr>"
  have m: "mbuf_ok ?m" using e fin(2) by (simp add: mbuf_ok_def)
  obtain rest tx' freed where rec: "flush_entries ck fcfg nbrs ip now cap es tx = Some (rest, tx', freed)"
    "\<forall>e \<in> set rest. mbuf_ok (pe_m e)" "length rest \<le> length es" "length tx \<le> cap \<longrightarrow> length tx' \<le> cap"
    "mset (qaddrs rest) + mset (map mb_addr tx') + mset freed = mset (qaddrs es) + mset (map mb_addr tx)"
    using Cons.IH [OF es, of tx] by blast
  obtain rest2 tx2 freed2 where rec2: "flush_entries ck fcfg nbrs ip now cap es (tx @ [?m]) = Some (rest2, tx2, freed2)"
    "\<forall>e \<in> set rest2. mbuf_ok (pe_m e)" "length rest2 \<le> length es" "length (tx @ [?m]) \<le> cap \<longrightarrow> length tx2 \<le> cap"
    "mset (qaddrs rest2) + mset (map mb_addr tx2) + mset freed2 = mset (qaddrs es) + mset (map mb_addr (tx @ [?m]))"
    using Cons.IH [OF es, of "tx @ [?m]"] by blast
  show ?case
  proof (cases "now - pe_enqueued_ms e \<ge> ARP_PENDING_TIMEOUT_MS")
    case True
    then show ?thesis using rec by simp
  next
    case False
    show ?thesis
    proof (cases "\<not> r \<or> length tx \<ge> cap")
      case True
      then show ?thesis using False rec fin m by simp
    next
      case go: False
      then show ?thesis using False rec2 fin by simp
    qed
  qed
qed simp

lemma flush_pending_ok:
  assumes inv: "gw_inv gw"
  obtains gw' tx' freed where "flush_pending ck gw ip now tx cap = Some (gw', tx', freed)" "gw_inv gw'"
    "length tx \<le> cap \<Longrightarrow> length tx' \<le> cap"
    "pend_addrs (gw_arp_pending gw') + mset (map mb_addr tx') + mset freed = pend_addrs (gw_arp_pending gw) + mset (map mb_addr tx)"
proof (cases "\<exists>fcfg e q. gw_forwarder gw = Some fcfg \<and> ip \<noteq> 0 \<and> map_of (gw_arp_pending gw) ip = Some (e # q)")
  case False
  then have "flush_pending ck gw ip now tx cap = Some (gw, tx, [])"
    by (auto simp: flush_pending_def split: option.splits list.splits)
  then show ?thesis using that inv by simp
next
  case True
  let ?al = "gw_arp_pending gw"
  from True obtain fcfg e q where t: "gw_forwarder gw = Some fcfg" "ip \<noteq> 0" "map_of ?al ip = Some (e # q)" by blast
  have al: "pending_ok ?al" using inv by (simp add: gw_inv_def)
  then have eq: "entries_ok (e # q)" using pending_ok_entries t(3) by blast
  then obtain rest tx' freed where fl: "flush_entries ck fcfg (gw_neighbors gw) ip now cap (e # q) tx = Some (rest, tx', freed)"
    "\<forall>e \<in> set rest. mbuf_ok (pe_m e)" "length rest \<le> length (e # q)" "length tx \<le> cap \<longrightarrow> length tx' \<le> cap"
    "mset (qaddrs rest) + mset (map mb_addr tx') + mset freed = mset (qaddrs (e # q)) + mset (map mb_addr tx)"
    using flush_entries_ok [of "e # q" ck fcfg "gw_neighbors gw" ip now cap tx] by (auto simp: entries_ok_def)
  define al' where "al' = (if rest = [] then AList.delete ip ?al else AList.update ip rest ?al)"
  have h: "flush_pending ck gw ip now tx cap = Some (gw\<lparr>gw_arp_pending := al'\<rparr>, tx', freed)"
    using t fl(1) by (simp add: flush_pending_def al'_def del: flush_entries.simps)
  have "entries_ok rest" using fl(2,3) eq by (simp add: entries_ok_def)
  then have "pending_ok al'"
    using al t(2) by (simp add: al'_def pending_ok_delete pending_ok_update)
  moreover have "pend_addrs al' + mset (qaddrs (e # q)) = pend_addrs ?al + mset (qaddrs rest)"
    using pend_addrs_delete [of ?al ip] pend_addrs_update [of ip rest ?al] al t(3)
    by (simp add: al'_def queue_of_def pending_ok_def)
  then have "pend_addrs al' + mset (map mb_addr tx') + mset freed = pend_addrs ?al + mset (map mb_addr tx)"
    using fl(5) by (rule mset_exchange)
  ultimately show ?thesis
    using that [OF h] inv fl(4) by (simp add: gw_inv_def)
qed

lemma ipv4_src_defined: "mbuf_ok m \<Longrightarrow> ipv4_src_be (Some m) \<noteq> None"
  by (auto simp: ipv4_src_be_def mbuf_ok_def ld16_def ld32_def)

lemma vgw_handle_ipv4:
  assumes "ethertype (Some m) = Some RTE_ETHER_TYPE_IPV4" "gw_forwarder gw = Some fcfg" "gw_sessions gw = Some st"
    "passive_learn_ipv4 (Some m) (gw_neighbors gw) now = Some nbrs" "ipv4_src_be (Some m) = Some src0"
    "fwd_handle ck fcfg gw_picker nbrs (Some m) now st (gw_upstreams gw) = Some (ho, Some m1, st1, u1)"
    "ipv4_src_be (Some m1) = Some src"
  shows "vgw_handle ck gw (Some m) now = Some
    (if src \<noteq> 0 \<and> map_of (gw_arp_pending gw) src \<noteq> None then ho\<lparr>ho_learned_ip_be := src\<rparr> else ho,
     Some m1, gw\<lparr>gw_neighbors := nbrs, gw_sessions := Some st1, gw_upstreams := u1\<rparr>)"
  using assms by (cases "gw_neighbors gw") (simp_all add: vgw_handle_def)

lemma vgw_handle_ok:
  assumes inv: "gw_inv gw" and m: "mbuf_ok m"
  obtains o' m' gw' where "vgw_handle ck gw (Some m) now = Some (o', Some m', gw')" "gw_inv gw'"
    "gw_arp_pending gw' = gw_arp_pending gw" "mb_addr m' = mb_addr m" "mbuf_ok m'"
proof -
  obtain et where et: "ethertype (Some m) = Some et" using ethertype_eq(2) [OF m] by blast
  consider (arp) acfg where "et = RTE_ETHER_TYPE_ARP" "gw_arp gw = Some acfg"
    | (ip) fcfg where "et = RTE_ETHER_TYPE_IPV4" "gw_forwarder gw = Some fcfg"
    | (none) "vgw_handle ck gw (Some m) now = Some (outcome hr_drop, Some m, gw)"
    by (cases "et = RTE_ETHER_TYPE_ARP"; cases "et = RTE_ETHER_TYPE_IPV4"; cases "gw_arp gw"; cases "gw_forwarder gw")
       (auto simp: vgw_handle_def et)
  then show ?thesis
  proof cases
    case arp
    obtain ao m' nbrs' where "arp_handle acfg (Some m) (gw_neighbors gw) now = Some (ao, Some m', nbrs')"
      "mb_addr m' = mb_addr m" "mbuf_ok m'"
      using arp_handle_defined [OF m] by metis
    then show ?thesis
      using that [of "(outcome (ao_result ao))\<lparr>ho_learned_ip_be := ao_learned_ip_be ao\<rparr>" m' "gw\<lparr>gw_neighbors := nbrs'\<rparr>"] arp inv
      by (simp add: vgw_handle_def et gw_inv_def)
  next
    case ip
    obtain st where st: "gw_sessions gw = Some st" "st_inv st" using inv ip(2) by (auto simp: gw_inv_def)
    obtain nbrs where nb: "passive_learn_ipv4 (Some m) (gw_neighbors gw) now = Some nbrs"
      using passive_learn_defined [OF m] by blast
    obtain ho m1 st1 u1 where fh:
      "fwd_handle ck fcfg gw_picker nbrs (Some m) now st (gw_upstreams gw) = Some (ho, Some m1, st1, u1)" "st_inv st1"
      "mb_addr m1 = mb_addr m" "mbuf_ok m1"
      using fwd_handle_spec [OF m st(2) gw_inv_safe [OF inv ip(2)], of ck gw_picker nbrs now "gw_upstreams gw"] forwarded_ok m
      by (metis rte_mbuf.select_convs(1) rte_mbuf.surjective rte_mbuf.update_convs(2))
    obtain src0 src where src: "ipv4_src_be (Some m) = Some src0" "ipv4_src_be (Some m1) = Some src"
      using ipv4_src_defined m fh(4) by blast
    show ?thesis
      using that [OF vgw_handle_ipv4 [OF et [unfolded ip(1)] ip(2) st(1) nb src(1) fh(1) src(2)] _ _ fh(3,4)] inv fh(2)
      by (simp add: gw_inv_def)
  next
    case none
    then show ?thesis using that inv m by blast
  qed
qed

section \<open>A burst of packets\<close>

definition burst_ok :: "'p burst_state \<Rightarrow> bool" where
  "burst_ok s \<longleftrightarrow> gw_inv (bs_gw s) \<and> length (bs_tx s) \<le> kBurst"

text \<open>The transmit slots a state has filled or may still fill from the waiting packets.\<close>

definition tx_demand :: "'p burst_state \<Rightarrow> nat" where
  "tx_demand s = length (bs_tx s) + size (pend_addrs (gw_arp_pending (bs_gw s)))"

definition balanced :: "'p burst_state \<Rightarrow> nat multiset \<Rightarrow> 'p burst_state \<Rightarrow> bool" where
  "balanced s rx s' \<longleftrightarrow> held s' + mset (bs_allocated s) = held s + rx + mset (bs_allocated s')"

lemma balanced_trans:
  assumes "balanced s a s1" "balanced s1 b s2"
  shows "balanced s (a + b) s2"
proof -
  have "held s2 + mset (bs_allocated s) + mset (bs_allocated s1) =
      (held s1 + b + mset (bs_allocated s2)) + mset (bs_allocated s)"
    using assms(2) by (simp add: balanced_def ac_simps)
  also have "\<dots> = (held s + a + mset (bs_allocated s1)) + b + mset (bs_allocated s2)"
    using assms(1) by (simp add: balanced_def ac_simps)
  finally show ?thesis by (simp add: balanced_def ac_simps)
qed

lemma place_ok:
  assumes ok: "burst_ok s" and m: "mbuf_ok m"
  shows "case place alloc now o' m s of
      None \<Rightarrow> length (bs_tx s) = kBurst
    | Some s' \<Rightarrow> burst_ok s' \<and> balanced s {#mb_addr m#} s' \<and> tx_demand s' \<le> tx_demand s + 2"
proof (cases "ho_result o' = pending_arp")
  case True
  let ?ip = "ho_arp_wait_ip_be o'"
  obtain gw1 fr1 where e: "enqueue_pending (bs_gw s) ?ip (Some m) now = (gw1, fr1)" by fastforce
  obtain buf pool1 where al: "alloc (bs_pool s) = (buf, pool1)" by fastforce
  have inv: "gw_inv (bs_gw s)" using ok by (simp add: burst_ok_def)
  note enq = enqueue_pending_ok [OF inv m e]
  obtain gw2 tx1 asked fr2 where pr: "maybe_probe_arp gw1 buf ?ip now (bs_tx s) 32 = Some (gw2, tx1, asked, fr2)"
    "gw_inv gw2" "gw_arp_pending gw2 = gw_arp_pending gw1" "length tx1 \<le> Suc (length (bs_tx s))"
    "length (bs_tx s) \<le> 32 \<Longrightarrow> length tx1 \<le> 32"
    "mset (map mb_addr tx1) + mset fr2 = mset (map mb_addr (bs_tx s)) +
       mset (if asked then (case buf of None \<Rightarrow> [] | Some m \<Rightarrow> [mb_addr m]) else [])"
    using maybe_probe_arp_ok [of gw1 buf ?ip now "bs_tx s" 32 thesis] enq by blast
  let ?new = "case buf of Some p \<Rightarrow> if asked then [mb_addr p] else [] | None \<Rightarrow> []"
  let ?lost = "if ?ip = 0 then [mb_addr m] else []"
  define s' where "s' = s\<lparr>bs_gw := gw2, bs_tx := tx1, bs_pool := (if asked then pool1 else bs_pool s),
      bs_allocated := bs_allocated s @ ?new, bs_freed := bs_freed s @ fr1 @ fr2, bs_lost := bs_lost s @ ?lost\<rparr>"
  have pl: "place alloc now o' m s = Some s'"
    using True e al pr(1) by (simp add: place_def s'_def Let_def)
  have pend: "pend_addrs (gw_arp_pending gw2) + mset fr1 + mset ?lost = pend_addrs (gw_arp_pending (bs_gw s)) + {#mb_addr m#}"
    using enq pr(3) by (simp split: if_splits)
  have new: "mset (map mb_addr tx1) + mset fr2 = mset (map mb_addr (bs_tx s)) + mset ?new"
    using pr(6) by (simp split: option.splits)
  have "held s' + mset (bs_allocated s) = (pend_addrs (gw_arp_pending gw2) + mset fr1 + mset ?lost) +
      (mset (map mb_addr tx1) + mset fr2) + mset (map mb_addr (bs_drop s)) + mset (bs_freed s) + mset (bs_lost s) + mset (bs_allocated s)"
    by (simp add: held_def s'_def ac_simps)
  also have "\<dots> = held s + {#mb_addr m#} + mset (bs_allocated s')"
    unfolding pend new by (simp add: held_def s'_def ac_simps)
  finally have "balanced s {#mb_addr m#} s'" by (simp add: balanced_def)
  moreover have "size (pend_addrs (gw_arp_pending gw2)) \<le> Suc (size (pend_addrs (gw_arp_pending (bs_gw s))))"
    using arg_cong [OF pend, of size] by (simp split: if_splits)
  ultimately show ?thesis
    using ok pr by (simp add: pl burst_ok_def tx_demand_def s'_def)
next
  case False
  then show ?thesis
    using ok by (auto simp: place_def burst_ok_def balanced_def held_def tx_demand_def)
qed

lemma process_packet_ok:
  assumes ok: "burst_ok s" and m: "mbuf_ok m"
  shows "case process_packet ck alloc now m s of
      None \<Rightarrow> kBurst \<le> tx_demand s
    | Some s' \<Rightarrow> burst_ok s' \<and> balanced s {#mb_addr m#} s' \<and> tx_demand s' \<le> tx_demand s + 2"
proof -
  have inv: "gw_inv (bs_gw s)" using ok by (simp add: burst_ok_def)
  obtain o' m' gw1 where h: "vgw_handle ck (bs_gw s) (Some m) now = Some (o', Some m', gw1)" "gw_inv gw1"
    "gw_arp_pending gw1 = gw_arp_pending (bs_gw s)" "mb_addr m' = mb_addr m" "mbuf_ok m'"
    using vgw_handle_ok [OF inv m] by metis
  obtain gw2 tx1 freed where fl: "(if ho_learned_ip_be o' \<noteq> 0
        then flush_pending ck gw1 (ho_learned_ip_be o') now (bs_tx s) 32 else Some (gw1, bs_tx s, [])) = Some (gw2, tx1, freed)"
    "gw_inv gw2" "length (bs_tx s) \<le> 32 \<Longrightarrow> length tx1 \<le> 32"
    "pend_addrs (gw_arp_pending gw2) + mset (map mb_addr tx1) + mset freed = pend_addrs (gw_arp_pending gw1) + mset (map mb_addr (bs_tx s))"
  proof (cases "ho_learned_ip_be o' = 0")
    case True
    then show ?thesis using that [of gw1 "bs_tx s" "[]"] h(2) by simp
  next
    case False
    from flush_pending_ok [OF h(2)] show ?thesis using that False by (metis (full_types))
  qed
  define s1 where "s1 = s\<lparr>bs_gw := gw2, bs_tx := tx1, bs_freed := bs_freed s @ freed\<rparr>"
  have pp: "process_packet ck alloc now m s = place alloc now o' m' s1"
    using h(1) fl(1) by (simp add: process_packet_def s1_def)
  have ok1: "burst_ok s1" using ok fl(2,3) by (simp add: burst_ok_def s1_def)
  have "held s1 = (pend_addrs (gw_arp_pending gw2) + mset (map mb_addr tx1) + mset freed) +
      mset (map mb_addr (bs_drop s)) + mset (bs_freed s) + mset (bs_lost s)"
    by (simp add: held_def s1_def ac_simps)
  then have "balanced s {#} s1"
    unfolding fl(4) h(3) by (simp add: balanced_def held_def s1_def ac_simps)
  moreover have "tx_demand s1 \<le> tx_demand s"
    using arg_cong [OF fl(4), of size] h(3) by (simp add: tx_demand_def s1_def)
  moreover note place_ok [OF ok1 h(5), of alloc now o']
  ultimately show ?thesis
    unfolding pp h(4) using balanced_trans [of s "{#}" s1] by (auto simp: tx_demand_def split: option.splits)
qed

lemma process_burst_ok:
  assumes "burst_ok s" "\<forall>m \<in> set rx. mbuf_ok m" "process_burst ck alloc now rx s = Some s'"
  shows "burst_ok s' \<and> balanced s (mset (map mb_addr rx)) s'"
  using assms
proof (induction rx arbitrary: s)
  case Nil
  then show ?case by (simp add: balanced_def)
next
  case (Cons m rx)
  then obtain s1 where s1: "process_packet ck alloc now m s = Some s1" "process_burst ck alloc now rx s1 = Some s'"
    by (auto simp: bind_eq_Some_conv)
  have "burst_ok s1 \<and> balanced s {#mb_addr m#} s1"
    using process_packet_ok [OF Cons.prems(1), of m ck alloc now] Cons.prems(2) s1(1) by simp
  then show ?case
    using Cons.IH [of s1] Cons.prems(2) s1(2) balanced_trans [of s "{#mb_addr m#}" s1] by simp
qed

lemma process_burst_room:
  assumes "burst_ok s" "\<forall>m \<in> set rx. mbuf_ok m" "tx_demand s + 2 * length rx \<le> kBurst + 1"
  shows "process_burst ck alloc now rx s \<noteq> None"
  using assms
proof (induction rx arbitrary: s)
  case (Cons m rx)
  have "tx_demand s < 32" using Cons.prems(3) by simp
  then obtain s1 where s1: "process_packet ck alloc now m s = Some s1" "burst_ok s1" "tx_demand s1 \<le> tx_demand s + 2"
    using process_packet_ok [OF Cons.prems(1), of m ck alloc now] Cons.prems(2) by (auto split: option.splits)
  then show ?case using Cons.IH [of s1] Cons.prems(2,3) by simp
qed simp

section \<open>Housekeeping and whole turns\<close>

lemma expire_sessions_ok:
  assumes "gw_inv gw"
  obtains gw' where "expire_sessions gw now = Some gw'" "gw_inv gw'" "gw_arp_pending gw' = gw_arp_pending gw"
proof (cases "gw_sessions gw")
  case None
  then show ?thesis using that assms by (simp add: expire_sessions_def)
next
  case (Some st)
  then have "st_inv st" using assms by (simp add: gw_inv_def)
  then obtain n st' where "expire st now = Some (n, st')" "swept now 0 st st'" using expire_spec by blast
  then show ?thesis
    using that [of "gw\<lparr>gw_sessions := Some st'\<rparr>"] assms Some by (simp add: expire_sessions_def gw_inv_def swept_def)
qed

lemma expire_pending_ok:
  assumes "gw_inv gw" and "expire_pending gw now = (gw', freed)"
  shows "gw_inv gw' \<and> pend_addrs (gw_arp_pending gw') + mset freed = pend_addrs (gw_arp_pending gw)"
proof -
  have bal: "pend_addrs (filter (\<lambda>(ip, q). q \<noteq> []) (map (\<lambda>(ip, q). (ip, filter (\<lambda>e. \<not> expired now e) q)) al)) +
      mset (concat (map (\<lambda>(ip, q). map (\<lambda>e. mb_addr (pe_m e)) (filter (expired now) q)) al)) = pend_addrs al" for al
  proof (induction al)
    case (Cons x al)
    obtain ip q where x: "x = (ip, q)" by (cases x)
    have split: "mset (qaddrs q) = mset (qaddrs (filter (\<lambda>e. \<not> expired now e) q)) + mset (qaddrs (filter (expired now) q))"
      by (induction q) auto
    have drop_empty: "pend_addrs (filter (\<lambda>(ip, q). q \<noteq> []) ((ip, q') # al')) =
        mset (qaddrs q') + pend_addrs (filter (\<lambda>(ip, q). q \<noteq> []) al')" for q' al'
      by simp
    show ?case
      using Cons split drop_empty [of "filter (\<lambda>e. \<not> expired now e) q"]
      by (simp add: x qaddrs_def ac_simps del: filter.simps)
  qed simp
  have ok: "pending_ok (filter (\<lambda>(ip, q). q \<noteq> []) (map (\<lambda>(ip, q). (ip, filter (\<lambda>e. \<not> expired now e) q)) al))"
    if "pending_ok al" for al
  proof -
    let ?f = "\<lambda>(ip, q). (ip, filter (\<lambda>e. \<not> expired now e) q)"
    have "map fst (map ?f al) = map fst al" by (induction al) auto
    then have "distinct (map fst (filter (\<lambda>(ip, q). q \<noteq> []) (map ?f al)))"
      using that by (intro distinct_map_filter) (simp only: pending_ok_def)
    then show ?thesis
      using that by (auto simp: pending_ok_def entries_ok_def intro: order_trans [OF length_filter_le])
  qed
  show ?thesis
    using assms bal ok by (auto simp: expire_pending_def gw_inv_def)
qed

lemma poll_control_ok:
  "gw_inv (snd (poll_control mem gw)) = gw_inv gw" "gw_arp_pending (snd (poll_control mem gw)) = gw_arp_pending gw"
  by (simp_all add: poll_control_def gw_inv_def split: option.split prod.split)

lemma expire_neighbors_ok:
  "gw_inv (expire_neighbors gw now) = gw_inv gw" "gw_arp_pending (expire_neighbors gw now) = gw_arp_pending gw"
  by (simp_all add: expire_neighbors_def gw_inv_def split: option.split)

lemma housekeeping_ok:
  assumes "gw_inv gw"
  obtains t' gw' freed where "housekeeping mem now t gw = Some (t', gw', freed)" "gw_inv gw'"
    "pend_addrs (gw_arp_pending gw') + mset freed = pend_addrs (gw_arp_pending gw)"
proof -
  obtain t1 gw1 where s1: "(if now - rt_last_expire_ms t \<ge> SESSION_EXPIRE_INTERVAL_MS
      then do { gw1 \<leftarrow> expire_sessions gw now; Some (t\<lparr>rt_last_expire_ms := now\<rparr>, gw1) } else Some (t, gw)) = Some (t1, gw1)"
    "gw_inv gw1" "gw_arp_pending gw1 = gw_arp_pending gw"
    using expire_sessions_ok [OF assms, of now] assms by (metis bind.bind_lunit)
  obtain t2 gw2 freed where s2: "(if now - rt_last_arp_expire_ms t1 \<ge> ARP_EXPIRE_INTERVAL_MS
      then (case expire_pending (expire_neighbors gw1 now) now of (gw2, freed) \<Rightarrow> (t1\<lparr>rt_last_arp_expire_ms := now\<rparr>, gw2, freed))
      else (t1, gw1, [])) = (t2, gw2, freed)" by (metis prod_cases3)
  have i2: "gw_inv gw2 \<and> pend_addrs (gw_arp_pending gw2) + mset freed = pend_addrs (gw_arp_pending gw1)"
    using s2 s1(2) expire_pending_ok [of "expire_neighbors gw1 now" now]
    by (auto simp: expire_neighbors_ok split: if_splits prod.splits)
  obtain t3 gw3 where s3: "(if now - rt_last_cp_poll_ms t2 \<ge> CP_POLL_INTERVAL_MS
      then (t2\<lparr>rt_last_cp_poll_ms := now\<rparr>, snd (poll_control mem gw2)) else (t2, gw2)) = (t3, gw3)" by fastforce
  then have i3: "gw_inv gw3" "gw_arp_pending gw3 = gw_arp_pending gw2"
    using i2 by (auto simp: poll_control_ok split: if_splits)
  have "housekeeping mem now t gw = Some (t3, gw3, freed)"
    unfolding housekeeping_def s1(1) by (simp add: s2 s3)
  then show ?thesis using that i2 i3 s1(3) by simp
qed

text \<open>
  The device, watched: a send function that also keeps the packets it took, in order. Watching
  changes nothing else.
\<close>

definition recording ::
    "('n \<Rightarrow> rte_mbuf list \<Rightarrow> nat \<times> 'n) \<Rightarrow> 'n \<times> rte_mbuf list \<Rightarrow> rte_mbuf list \<Rightarrow> nat \<times> 'n \<times> rte_mbuf list" where
  "recording send = (\<lambda>(n, taken) tx. case send n tx of (k, n1) \<Rightarrow> (k, n1, taken @ take k tx))"

lemma send_all_recording:
  "\<exists>sent. send_all (recording send) (n, taken) tx = (fst (send_all send n tx), snd (send_all send n tx), taken @ sent) \<and>
     tx = sent @ fst (send_all send n tx)"
proof (induction send n tx arbitrary: taken rule: send_all.induct)
  case (1 send n tx)
  show ?case
  proof (cases "tx = []")
    case False
    obtain k n1 where k: "send n tx = (k, n1)" by fastforce
    have "recording send (n, taken) tx = (k, n1, taken @ take k tx)" by (simp add: recording_def k)
    note s = this send_all.simps [of send n tx] send_all.simps [of "recording send" "(n, taken)" tx]
    show ?thesis
    proof (cases "k = 0")
      case True
      then show ?thesis using False k by (simp add: s)
    next
      case nz: False
      then obtain sent where "send_all (recording send) (n1, taken @ take k tx) (drop k tx) =
          (fst (send_all send n1 (drop k tx)), snd (send_all send n1 (drop k tx)), (taken @ take k tx) @ sent)"
        "drop k tx = sent @ fst (send_all send n1 (drop k tx))"
        using "1.IH" [OF False k [symmetric] nz, of "taken @ take k tx"] by blast
      note sent = this
      have step: "send_all send n tx = send_all send n1 (drop k tx)"
        "send_all (recording send) (n, taken) tx = send_all (recording send) (n1, taken @ take k tx) (drop k tx)"
        using False k nz by (simp_all add: s)
      have "tx = take k tx @ sent @ fst (send_all send n1 (drop k tx))"
        using sent(2) by (metis append_take_drop_id)
      then show ?thesis
        unfolding step sent(1) by (metis append_assoc)
    qed
  qed (simp add: send_all.simps)
qed

lemma run_turn_ok:
  assumes inv: "gw_inv gw" and rx: "\<forall>m \<in> set rx. mbuf_ok m"
    and run: "run_turn ck alloc send mem now rx t gw pool n = Some (t', s, n')"
  shows "gw_inv (bs_gw s) \<and> (\<exists>sent rest.
    run_turn ck alloc (recording send) mem now rx t gw pool (n, []) = Some (t', s, n', sent) \<and> bs_tx s = sent @ rest \<and>
    pend_addrs (gw_arp_pending gw) + mset (map mb_addr rx) + mset (bs_allocated s) =
    pend_addrs (gw_arp_pending (bs_gw s)) + mset (map mb_addr sent) + mset (bs_freed s) + mset (bs_lost s))"
proof -
  obtain t1 gw1 freed where hk: "housekeeping mem now t gw = Some (t1, gw1, freed)" "gw_inv gw1"
    "pend_addrs (gw_arp_pending gw1) + mset freed = pend_addrs (gw_arp_pending gw)"
    using housekeeping_ok [OF inv] by metis
  define s0 where "s0 = \<lparr>bs_gw = gw1, bs_tx = [], bs_drop = [], bs_pool = pool, bs_allocated = [], bs_freed = freed, bs_lost = []\<rparr>"
  have ok0: "burst_ok s0" and h0: "held s0 = pend_addrs (gw_arp_pending gw)" "bs_allocated s0 = []"
    using hk by (simp_all add: burst_ok_def held_def s0_def)
  show ?thesis
  proof (cases "rx = []")
    case True
    then show ?thesis
      using run hk by (auto simp: run_turn_def Let_def)
  next
    case False
    then obtain s1 where pb: "process_burst ck alloc now rx s0 = Some s1" "t' = t1" "n' = snd (send_all send n (bs_tx s1))"
      and s: "s = s1\<lparr>bs_freed := bs_freed s1 @ map mb_addr (fst (send_all send n (bs_tx s1))) @ map mb_addr (bs_drop s1)\<rparr>"
      using run hk(1) by (auto simp: run_turn_def Let_def s0_def bind_eq_Some_conv case_prod_beta)
    note b = process_burst_ok [OF ok0 rx pb(1)]
    let ?rest = "fst (send_all send n (bs_tx s1))"
    obtain sent where sent: "send_all (recording send) (n, []) (bs_tx s1) = (?rest, n', sent)" "bs_tx s1 = sent @ ?rest"
      using send_all_recording [of send n "[]" "bs_tx s1"] pb(3) by auto
    have "run_turn ck alloc (recording send) mem now rx t gw pool (n, []) = Some (t', s, n', sent)"
      using False hk(1) pb(1,2) sent(1) by (simp add: run_turn_def Let_def s0_def s)
    moreover have tx: "mset (map mb_addr (bs_tx s1)) = mset (map mb_addr sent) + mset (map mb_addr ?rest)"
      by (subst sent(2)) simp
    have "held s1 = pend_addrs (gw_arp_pending gw) + mset (map mb_addr rx) + mset (bs_allocated s1)"
      using b h0 by (simp add: balanced_def)
    then have "pend_addrs (gw_arp_pending gw) + mset (map mb_addr rx) + mset (bs_allocated s) =
      pend_addrs (gw_arp_pending (bs_gw s)) + mset (map mb_addr sent) + mset (bs_freed s) + mset (bs_lost s)"
      unfolding held_def tx by (simp add: s ac_simps)
    moreover have "gw_inv (bs_gw s)" "bs_tx s = sent @ ?rest" using b sent(2) by (simp_all add: s burst_ok_def)
    ultimately show ?thesis by blast
  qed
qed

text \<open>The gateway over its lifetime: turns of the worker loop with any traffic and any clock.\<close>

inductive gw_step :: "VioletGW \<Rightarrow> VioletGW \<Rightarrow> bool" where
  turn: "run_turn ck (alloc :: nat allocator) (send :: nat \<Rightarrow> rte_mbuf list \<Rightarrow> nat \<times> nat) mem now rx t gw pool n = Some (t', s, n') \<Longrightarrow>
    \<forall>m \<in> set rx. mbuf_ok m \<Longrightarrow> gw_step gw (bs_gw s)"

interpretation gwy: kept_invariant gw_step gw_inv
  by unfold_locales (auto elim!: gw_step.cases dest: run_turn_ok)

section \<open>Properties\<close>

lemma init_services_inv:
  "gw_inv gw \<Longrightarrow> init_services os seen name gw = (rc, gw', calls) \<Longrightarrow> gw_inv gw'"
  using st_inv_init [of 10000 60000]
  by (auto simp: init_services_def gw_inv_def Let_def split: option.splits prod.splits)

lemma violet_gw_inv: "gw_inv violet_gw"
  by (simp add: gw_inv_def violet_gw_def pending_ok_def)

lemmas gw_config = ipv4_from_def mac_from_def default_seed_def balance_policy_def VIP_IP_OCTETS_def VIP_PORT_def
  GATEWAY_IP_OCTETS_def GATEWAY_MAC_def UPSTREAM_NH_MAC_def CLIENT_NH_MAC_def UPSTREAM0_IP_OCTETS_def
  UPSTREAM0_PORT_def SESSION_IDLE_TIMEOUT_MS_def BALANCE_POLICY_def ARP_ENTRY_TIMEOUT_MS_def

definition ex_os :: os_results where
  "ex_os = \<lparr>os_open_fd = -1, os_open_enoent = True, os_create_fd = 3, os_trunc_ok = True,
     os_map = Some (fresh_segment None)\<rparr>"

definition ex_gw :: VioletGW where
  "ex_gw = \<lparr>gw_datapath = datapath_config, gw_netif = None, gw_sessions = Some (session_table (le32 192 168 1 10) 60000 10000 60000),
     gw_cp = Some \<lparr>sh_name = CP_SHM_NAME, sh_fd = 3, sh_last_applied = 1\<rparr>,
     gw_upstreams = \<lparr>ut_policy = policy_mod, ut_nodes = [\<lparr>ue_ip_be = le32 10 0 0 1, ue_port = 53\<rparr>], ut_rr_counter = 0\<rparr>,
     gw_neighbors = Some (nt_seed (neighbor_table 300000) (le32 10 0 0 1) (MAC 2 0 0 0 0 3)),
     gw_arp = Some \<lparr>ac_gateway_ip_be = le32 192 168 1 10, ac_vip_ip_be = le32 192 168 1 100, ac_gateway_mac = MAC 2 0 0 0 0 1\<rparr>,
     gw_forwarder = Some \<lparr>fc_vip = \<lparr>vip_ip_be = le32 192 168 1 100, vip_ep_port = 53\<rparr>,
       fc_gateway_ip_be = le32 192 168 1 10, fc_gateway_mac = MAC 2 0 0 0 0 1, fc_upstream_mac = MAC 2 0 0 0 0 3,
       fc_client_side_mac = MAC 2 0 0 0 0 3, fc_verify_checksum = False, fc_recompute_udp_checksum = False\<rparr>,
     gw_shm_name = CP_SHM_NAME, gw_arp_pending = [], gw_arp_probe_last_ms = Map.empty\<rparr>"

lemma seed_count_1: "unat (seed_count default_seed) = 1"
  by (simp add: unat_seed_count default_seed_def)

lemma init_services_fresh:
  assumes "os_open_fd os < 0" "os_open_enoent os" "0 \<le> os_create_fd os" "os_trunc_ok os" "os_map os \<noteq> None"
  shows "init_services os (\<lambda>h _. h) None violet_gw =
    (0, ex_gw\<lparr>gw_cp := Some \<lparr>sh_name = CP_SHM_NAME, sh_fd = os_create_fd os, sh_last_applied = 1\<rparr>\<rparr>,
     [OsShmOpen CP_SHM_NAME False, OsShmOpen CP_SHM_NAME True, OsFtruncate (os_create_fd os), OsMmap (os_create_fd os)])"
proof -
  obtain h where h: "os_map os = Some h" using assms(5) by blast
  have "seeded upstream_table default_seed = gw_upstreams ex_gw"
    using seed_count_1 by (simp add: seeded_def ut_set_def set_policy_def upstream_table_def ex_gw_def gw_config)
  then show ?thesis
    using assms h by (simp add: init_services_def cpshm_open_def fresh_poll violet_gw_def Let_def)
      (simp add: ex_gw_def gw_config)
qed

lemma ex_gw_init: "init_services ex_os (\<lambda>h _. h) None violet_gw =
    (0, ex_gw, [OsShmOpen CP_SHM_NAME False, OsShmOpen CP_SHM_NAME True, OsFtruncate 3, OsMmap 3])"
  using init_services_fresh [of ex_os] by (simp add: ex_os_def) (simp add: ex_gw_def)

lemma ex_gw_inv: "gw_inv ex_gw"
  using init_services_inv [OF violet_gw_inv ex_gw_init] .

definition ex_timers :: run_timers where
  "ex_timers = \<lparr>rt_last_expire_ms = 0, rt_last_arp_expire_ms = 0, rt_last_cp_poll_ms = 0\<rparr>"

lemma run_turn_defined:
  assumes inv: "gw_inv gw" and rx: "\<forall>m \<in> set rx. mbuf_ok m"
    and room: "size (pend_addrs (gw_arp_pending gw)) + 2 * length rx \<le> 33"
  shows "\<exists>t' s n'. run_turn ck alloc send mem now rx t gw pool n = Some (t', s, n')"
proof -
  obtain t1 gw1 freed where hk: "housekeeping mem now t gw = Some (t1, gw1, freed)" "gw_inv gw1"
    "pend_addrs (gw_arp_pending gw1) + mset freed = pend_addrs (gw_arp_pending gw)"
    using housekeeping_ok [OF inv] by metis
  have "size (pend_addrs (gw_arp_pending gw1)) \<le> size (pend_addrs (gw_arp_pending gw))"
    using arg_cong [OF hk(3), of size] by simp
  then have "process_burst ck alloc now rx \<lparr>bs_gw = gw1, bs_tx = [], bs_drop = [], bs_pool = pool, bs_allocated = [],
      bs_freed = freed, bs_lost = []\<rparr> \<noteq> None"
    using hk(2) rx room by (intro process_burst_room) (simp_all add: burst_ok_def tx_demand_def)
  then show ?thesis
    using hk(1) by (auto simp: run_turn_def Let_def case_prod_beta)
qed

text \<open>
  A first start, with no shared segment yet, brings up every service: the call succeeds,
  the state satisfies the gateway's invariant, the segment is created and seeded, every pick
  yields the configured upstream 10.0.0.1:53, and the next hop of that upstream is resolved.
\<close>

theorem first_start_ready:
  assumes "os_open_fd os < 0" "os_open_enoent os" "0 \<le> os_create_fd os" "os_trunc_ok os" "os_map os \<noteq> None"
  shows "\<exists>gw nt calls. init_services os (\<lambda>h _. h) None violet_gw = (0, gw, calls) \<and> gw_inv gw \<and>
    gw_forwarder gw \<noteq> None \<and> gw_arp gw \<noteq> None \<and> gw_sessions gw \<noteq> None \<and> gw_cp gw \<noteq> None \<and>
    (\<forall>k. fst (pick (gw_upstreams gw) k) = Some \<lparr>ue_ip_be = le32 10 0 0 1, ue_port = 53\<rparr>) \<and>
    gw_neighbors gw = Some nt \<and> nt_lookup nt (le32 10 0 0 1) = Some (MAC 2 0 0 0 0 3) \<and>
    closed_fds calls = []"
proof -
  note i = init_services_fresh [OF assms]
  then show ?thesis
    using init_services_inv [OF violet_gw_inv i]
    by (simp add: ex_gw_def pick_def nt_defs closed_fds_def)
qed

theorem first_start_ready_witness:
  "\<exists>gw calls. init_services ex_os (\<lambda>h _. h) None violet_gw = (0, gw, calls) \<and> gw_inv gw"
  using first_start_ready [of ex_os] by (auto simp: ex_os_def)

text \<open>
  C10: conservation of packet buffers over a turn of the worker loop. With the device watched
  (\<open>recording\<close>), which changes nothing else of the turn, the packets the device took are a prefix of
  the burst the turn put out, and every buffer that was received, allocated or waiting is
  afterwards waiting, taken by the device, given back to the pool or in the list of lost buffers,
  each exactly once: nothing the device took is freed, what it did not take is freed once, none is
  duplicated and none disappears elsewhere. The invariant of the gateway is kept.
\<close>

theorem turn_conserves_buffers:
  assumes "gw_inv gw" "\<forall>m \<in> set rx. mbuf_ok m"
    and "run_turn ck alloc send mem now rx t gw pool n = Some (t', s, n')"
  shows "gw_inv (bs_gw s) \<and> (\<exists>sent rest.
    run_turn ck alloc (recording send) mem now rx t gw pool (n, []) = Some (t', s, n', sent) \<and> bs_tx s = sent @ rest \<and>
    pend_addrs (gw_arp_pending gw) + mset (map mb_addr rx) + mset (bs_allocated s) =
    pend_addrs (gw_arp_pending (bs_gw s)) + mset (map mb_addr sent) + mset (bs_freed s) + mset (bs_lost s))"
  using assms by (rule run_turn_ok)

theorem turn_conserves_buffers_witness:
  "\<exists>t' s n' sent. run_turn ex_cksum (\<lambda>p. (None, p)) (recording (\<lambda>n tx. (length tx, n))) (\<lambda>_. fresh_segment None) 5 [ex_request]
      ex_timers ex_gw (0 :: nat) (0 :: nat, []) = Some (t', s, n', sent) \<and> gw_inv (bs_gw s) \<and>
    {#1#} + mset (bs_allocated s) = pend_addrs (gw_arp_pending (bs_gw s)) + mset (map mb_addr sent) +
      mset (bs_freed s) + mset (bs_lost s)"
proof -
  have rx: "\<forall>m \<in> set [ex_request]. mbuf_ok m" using ex_request_ok by simp
  have pend: "pend_addrs (gw_arp_pending ex_gw) = {#}" "mset (map mb_addr [ex_request]) = {#1#}"
    by (simp_all add: ex_gw_def ex_request_def frame_mbuf_def)
  obtain t' s n' where run: "run_turn ex_cksum (\<lambda>p. (None, p)) (\<lambda>n tx. (length tx, n)) (\<lambda>_. fresh_segment None) 5 [ex_request]
      ex_timers ex_gw (0 :: nat) (0 :: nat) = Some (t', s, n')"
    using run_turn_defined [OF ex_gw_inv rx, of ex_cksum "\<lambda>p. (None, p)" "\<lambda>n tx. (length tx, n)" "\<lambda>_. fresh_segment None" 5
        ex_timers 0 0] pend by auto
  show ?thesis
    using turn_conserves_buffers [OF ex_gw_inv rx run] pend by auto
qed

text \<open>
  C26: a burst never writes outside its arrays as long as the packets that wait for an address
  plus twice the packets received fit the transmit array: then the burst has defined
  behaviour, whatever the packets are.
\<close>

theorem small_burst_safe:
  assumes "gw_inv gw" "\<forall>m \<in> set rx. mbuf_ok m"
    and "size (pend_addrs (gw_arp_pending gw)) + 2 * length rx \<le> 33"
  shows "process_burst ck alloc now rx \<lparr>bs_gw = gw, bs_tx = [], bs_drop = [], bs_pool = pool, bs_allocated = [],
      bs_freed = fr, bs_lost = []\<rparr> \<noteq> None"
  using assms by (intro process_burst_room) (simp_all add: burst_ok_def tx_demand_def)

theorem small_burst_safe_witness:
  "process_burst ex_cksum (\<lambda>p. (None, p)) 5 [ex_request, ex_request] \<lparr>bs_gw = ex_gw, bs_tx = [], bs_drop = [], bs_pool = (),
      bs_allocated = [], bs_freed = [], bs_lost = []\<rparr> \<noteq> None"
  by (rule small_burst_safe [OF ex_gw_inv]) (use ex_request_ok in \<open>simp_all add: ex_gw_def\<close>)

end
