(* ===== verification/Gateway_Queue.thy ===== *)
theory Gateway_Queue
  imports Gateway
begin

text \<open>
  The life of a packet that waits for an address: release when the address is learned, the
  bound of the transmit array, and the two ways the queue of \<open>src/src/vgw.cpp\<close> goes wrong
  (a full array behind a release, and a release that is looked up after translation).
\<close>

section \<open>Release of the waiting packets\<close>

definition l2_to :: "ForwardConfig \<Rightarrow> rte_ether_addr \<Rightarrow> rte_mbuf \<Rightarrow> rte_mbuf" where
  "l2_to fcfg mac m = m\<lparr>mb_buf := put (put (mb_buf m) eth_src_addr (addr_bytes (fc_gateway_mac fcfg))) eth_dst_addr (addr_bytes mac)\<rparr>"

definition releasable :: "u64 \<Rightarrow> ArpPendingEntry \<Rightarrow> bool" where
  "releasable now e \<longleftrightarrow> mbuf_ok (pe_m e) \<and> (\<exists>udp len. udp_frame (pe_m e) udp len) \<and> \<not> expired now e"

lemma flush_all:
  assumes "lookup_next_hop_mac nbrs ip (fc_upstream_mac fcfg) = Some mac"
    and "\<forall>e \<in> set es. releasable now e" and "length tx + length es \<le> cap"
  shows "flush_entries ck fcfg nbrs ip now cap es tx = Some ([], tx @ map (\<lambda>e. l2_to fcfg mac (pe_m e)) es, [])"
  using assms(2,3)
proof (induction es arbitrary: tx)
  case (Cons e es)
  then obtain udp len where f: "mbuf_ok (pe_m e)" "udp_frame (pe_m e) udp len" and
    live: "\<not> now - pe_enqueued_ms e \<ge> ARP_PENDING_TIMEOUT_MS"
    by (auto simp: releasable_def expired_def)
  have "12 \<le> length (mb_buf (pe_m e))" using udp_frame_bounds [OF f] by simp
  then have "finish_l2 ck fcfg nbrs (Some (pe_m e)) ip = Some (True, Some (l2_to fcfg mac (pe_m e)))"
    using finish_l2_ok [OF f assms(1), of ck] by (simp add: set_l2_ok l2_to_def)
  then show ?case
    using Cons live by simp
qed simp

lemma flush_released:
  assumes "gw_forwarder gw = Some fcfg" "ip \<noteq> 0" "map_of (gw_arp_pending gw) ip = Some q" "q \<noteq> []"
    and "lookup_next_hop_mac (gw_neighbors gw) ip (fc_upstream_mac fcfg) = Some mac"
    and "\<forall>e \<in> set q. releasable now e" and "length tx + length q \<le> cap"
  shows "flush_pending ck gw ip now tx cap =
    Some (gw\<lparr>gw_arp_pending := AList.delete ip (gw_arp_pending gw)\<rparr>, tx @ map (\<lambda>e. l2_to fcfg mac (pe_m e)) q, [])"
  using assms flush_all [OF assms(5-7)]
  by (cases q) (simp_all add: flush_pending_def del: flush_entries.simps)

section \<open>Concrete traffic\<close>

text \<open>An ARP reply of 10.0.0.9, and packets that wait for that address.\<close>

definition ex_arp_reply :: rte_mbuf where
  "ex_arp_reply = frame_mbuf 7
     [2,0,0,0,0,1, 2,0,0,0,0,9, 0x08,0x06,
      0,1, 0x08,0x00, 6, 4, 0,2, 2,0,0,0,0,9, 10,0,0,9, 2,0,0,0,0,1, 192,168,1,10]"

lemma ex_arp_reply_frame:
  "arp_frame ex_arp_reply \<lparr>af_eth_dst = MAC 2 0 0 0 0 1, af_eth_src = MAC 2 0 0 0 0 9, af_op = RTE_ARP_OP_REPLY,
     af_sha = MAC 2 0 0 0 0 9, af_sip = 0x0900000a, af_tha = MAC 2 0 0 0 0 1, af_tip = 0x0a01a8c0\<rparr>"
  by (simp add: arp_frame_def ex_arp_reply_def eval_simps frame_mbuf_ok mbuf_ok_def)

definition ex_waiting :: "nat \<Rightarrow> ArpPendingEntry list" where
  "ex_waiting n = map (\<lambda>i. \<lparr>pe_m = ex_request\<lparr>mb_addr := 100 + i\<rparr>, pe_enqueued_ms = 0\<rparr>) [0..<n]"

definition ex_gw_waiting :: "nat \<Rightarrow> VioletGW" where
  "ex_gw_waiting n = ex_gw\<lparr>gw_arp_pending := [(0x0900000a, ex_waiting n)]\<rparr>"

lemma ex_waiting_releasable: "\<forall>e \<in> set (ex_waiting n). releasable 5 e"
proof -
  have "udp_frame (ex_request\<lparr>mb_addr := a\<rparr>) 34 8" "mbuf_ok (ex_request\<lparr>mb_addr := a\<rparr>)" for a
    using ex_request_frame(1) ex_request_ok by (simp_all add: udp_frame_def mbuf_ok_def)
  then show ?thesis
    by (auto simp: ex_waiting_def releasable_def expired_def ARP_PENDING_TIMEOUT_MS_def)
qed

lemma length_ex_waiting [simp]: "length (ex_waiting n) = n"
  by (simp add: ex_waiting_def)

abbreviation (input) "ex_burst gw \<equiv> \<lparr>bs_gw = gw, bs_tx = [], bs_drop = [], bs_pool = (), bs_allocated = [], bs_freed = [], bs_lost = []\<rparr>"

text \<open>
  C25: an ARP reply releases the packets that wait for its sender. When the worker handles a reply
  that names an address with waiting packets, the address is learned and every waiting packet
  leaves at once, in the order of arrival, from the gateway's hardware address to the learned one
  with its other bytes unchanged; the queue is removed and the reply itself is dropped. The
  address must not be pinned, the packets not older than the timeout, and they must fit the rest
  of the transmit array.
\<close>

theorem arp_reply_releases_queue:
  assumes "gw_forwarder (bs_gw s) = Some fcfg" "gw_arp (bs_gw s) = Some acfg" "gw_neighbors (bs_gw s) = Some nt"
    and "arp_frame m a" "af_op a = RTE_ARP_OP_REPLY" "af_sip a \<noteq> 0" "\<not> is_zero_mac (af_sha a)" "\<not> nt_pinned nt (af_sip a)"
    and "map_of (gw_arp_pending (bs_gw s)) (af_sip a) = Some q" "q \<noteq> []"
    and "\<forall>e \<in> set q. releasable now e" "length (bs_tx s) + length q \<le> kBurst"
  shows "process_packet ck alloc now m s = Some (s\<lparr>
      bs_gw := (bs_gw s)\<lparr>gw_neighbors := Some (nt_learn nt (af_sip a) (af_sha a) now),
        gw_arp_pending := AList.delete (af_sip a) (gw_arp_pending (bs_gw s))\<rparr>,
      bs_tx := bs_tx s @ map (\<lambda>e. l2_to fcfg (af_sha a) (pe_m e)) q,
      bs_drop := bs_drop s @ [m]\<rparr>)"
proof -
  let ?nt = "nt_learn nt (af_sip a) (af_sha a) now"
  let ?gw = "(bs_gw s)\<lparr>gw_neighbors := Some ?nt\<rparr>"
  have "mbuf_ok m" "14 \<le> unat (mb_data_len m)" "be16 (mb_buf m) 12 = Some RTE_ETHER_TYPE_ARP"
    using assms(4) by (auto simp: arp_frame_def Let_def)
  then have "ethertype (Some m) = Some RTE_ETHER_TYPE_ARP"
    by (simp add: ethertype_eq(1))
  then have h: "vgw_handle ck (bs_gw s) (Some m) now =
      Some ((outcome hr_drop)\<lparr>ho_learned_ip_be := af_sip a\<rparr>, Some m, ?gw)"
    using assms(2,3,6,7) arp_handle_reply [OF assms(4,5), of acfg nt now] by (simp add: vgw_handle_def)
  have "lookup_next_hop_mac (gw_neighbors ?gw) (af_sip a) (fc_upstream_mac fcfg) = Some (af_sha a)"
    using nt.learn_hit [OF assms(8), of "af_sha a" now] by (simp add: lookup_next_hop_mac_def)
  then have "flush_pending ck ?gw (af_sip a) now (bs_tx s) kBurst = Some (?gw\<lparr>gw_arp_pending := AList.delete (af_sip a) (gw_arp_pending (bs_gw s))\<rparr>,
      bs_tx s @ map (\<lambda>e. l2_to fcfg (af_sha a) (pe_m e)) q, [])"
    using flush_released [of ?gw fcfg "af_sip a" q "af_sha a" now "bs_tx s" kBurst ck] assms by simp
  then show ?thesis
    using assms(6) by (simp add: process_packet_def h place_def outcome_def)
qed

theorem arp_reply_releases_queue_witness:
  "\<exists>s'. process_packet ex_cksum (\<lambda>p. (None, p)) 5 ex_arp_reply (ex_burst (ex_gw_waiting 2)) = Some s' \<and>
     map mb_addr (bs_tx s') = [100, 101] \<and> gw_arp_pending (bs_gw s') = [] \<and> bs_drop s' = [ex_arp_reply]"
proof -
  let ?s = "ex_burst (ex_gw_waiting 2)"
  obtain fcfg acfg nt where gw: "gw_forwarder (bs_gw ?s) = Some fcfg" "gw_arp (bs_gw ?s) = Some acfg" "gw_neighbors (bs_gw ?s) = Some nt"
    "\<not> nt_pinned nt 0x0900000a"
    by (simp add: ex_gw_waiting_def ex_gw_def nt_pinned_def nt_seed_def neighbor_table_def le32_def)
  have q: "map_of (gw_arp_pending (bs_gw ?s)) 0x0900000a = Some (ex_waiting 2)" "ex_waiting 2 \<noteq> []"
    "length (bs_tx ?s) + length (ex_waiting 2) \<le> kBurst"
    by (simp_all add: ex_gw_waiting_def ex_waiting_def)
  have sent: "map (\<lambda>e. mb_addr (l2_to fcfg mac (pe_m e))) (ex_waiting 2) = [100, 101]" for mac
    by (simp add: ex_waiting_def l2_to_def numeral_2_eq_2)
  have nz: "\<not> is_zero_mac (MAC 2 0 0 0 0 9)" by (auto simp: is_zero_mac_def intro: exI [of _ 0])
  show ?thesis
    using arp_reply_releases_queue [OF gw(1-3) ex_arp_reply_frame _ _ _ _ _ q(2) ex_waiting_releasable q(3)] gw(4) q(1) nz sent
    by (simp add: ex_gw_waiting_def comp_def)
qed

lemmas gwh_eval = vgw_handle_def ethertype_def passive_learn_ipv4_def ipv4_src_be_def ex_gw_def gw_picker_def
  pick_def hash_key_def nt_defs neighbor_table_def fwd_eval alloc_scan_hit next_port_def

section \<open>The transmit array can overflow behind a release\<close>

definition ex_nt :: NeighborTable where
  "ex_nt = nt_learn (nt_seed (neighbor_table 300000) (le32 10 0 0 1) (MAC 2 0 0 0 0 3)) 0x0900000a (MAC 2 0 0 0 0 9) 5"

lemma ex_vip_tx:
  "\<exists>o' m' gw'. vgw_handle ex_cksum (ex_gw\<lparr>gw_neighbors := Some ex_nt, gw_arp_pending := []\<rparr>) (Some ex_request) 5 = Some (o', Some m', gw') \<and>
     ho_result o' = tx_forward \<and> ho_learned_ip_be o' = 0"
  by (simp add: gwh_eval ex_nt_def eval_simps del: alloc_scan_numeral alloc_scan.simps)

lemma ex_gw_waiting_inv: "n \<le> 64 \<Longrightarrow> gw_inv (ex_gw_waiting n)"
  using ex_gw_inv ex_waiting_releasable [of n]
  by (auto simp: ex_gw_waiting_def gw_inv_def pending_ok_def entries_ok_def releasable_def ARP_PENDING_MAX_PER_IP_def)

lemma ex_release:
  assumes "0 < n" "n \<le> 32"
  shows "\<exists>s. process_packet ex_cksum alloc 5 ex_arp_reply (ex_burst (ex_gw_waiting n)) = Some s \<and>
    bs_gw s = ex_gw\<lparr>gw_neighbors := Some ex_nt, gw_arp_pending := []\<rparr> \<and> length (bs_tx s) = n"
proof -
  let ?gw1 = "ex_gw_waiting n\<lparr>gw_neighbors := Some ex_nt\<rparr>" and ?fcfg = "the (gw_forwarder ex_gw)"
  have "ethertype (Some ex_arp_reply) = Some RTE_ETHER_TYPE_ARP"
    by (simp add: ethertype_def ex_arp_reply_def eval_simps)
  moreover have "\<not> is_zero_mac (MAC 2 0 0 0 0 9)"
    by (auto simp: is_zero_mac_def intro!: exI [of _ 0])
  ultimately have h: "vgw_handle ex_cksum (ex_gw_waiting n) (Some ex_arp_reply) 5 =
      Some ((outcome hr_drop)\<lparr>ho_learned_ip_be := 0x0900000a\<rparr>, Some ex_arp_reply, ?gw1)"
    using arp_handle_reply [OF ex_arp_reply_frame]
    by (simp add: vgw_handle_def ex_gw_waiting_def ex_gw_def ex_nt_def)
  have "flush_entries ex_cksum ?fcfg (Some ex_nt) 0x0900000a 5 32 (ex_waiting n) [] =
      Some ([], map (\<lambda>e. l2_to ?fcfg (MAC 2 0 0 0 0 9) (pe_m e)) (ex_waiting n), [])"
    using assms(2) flush_all [of "Some ex_nt" "0x0900000a" ?fcfg "MAC 2 0 0 0 0 9" "ex_waiting n" 5 "[]" 32 ex_cksum] ex_waiting_releasable
    by (simp add: lookup_next_hop_mac_def ex_nt_def nt_defs neighbor_table_def eval_simps)
  moreover have "ex_waiting n \<noteq> []" using assms(1) by (metis length_ex_waiting list.size(3) less_irrefl)
  ultimately have "flush_pending ex_cksum ?gw1 0x0900000a 5 [] 32 = Some (ex_gw\<lparr>gw_neighbors := Some ex_nt, gw_arp_pending := []\<rparr>,
      map (\<lambda>e. l2_to ?fcfg (MAC 2 0 0 0 0 9) (pe_m e)) (ex_waiting n), [])"
    by (cases "ex_waiting n") (simp_all add: flush_pending_def ex_gw_waiting_def ex_gw_def del: flush_entries.simps)
  with h show ?thesis
    by (simp add: process_packet_def place_def outcome_def)
qed

text \<open>
  C27: the worker can write past its transmit array. From a state that satisfies the invariant
  and holds 32 packets waiting for one address, a burst of the address's ARP reply and one
  client datagram fills the array with the released packets and then stores the datagram at
  index 32: the store in \<open>run\<close> is not guarded, and the burst has undefined behaviour.
\<close>

theorem release_overflows_tx:
  "gw_inv (ex_gw_waiting 32) \<and>
   process_burst ex_cksum alloc 5 [ex_arp_reply, ex_request] (ex_burst (ex_gw_waiting 32)) = None"
proof -
  obtain s where s: "process_packet ex_cksum alloc 5 ex_arp_reply (ex_burst (ex_gw_waiting 32)) = Some s"
    "bs_gw s = ex_gw\<lparr>gw_neighbors := Some ex_nt, gw_arp_pending := []\<rparr>" "length (bs_tx s) = 32"
    using ex_release [of 32 alloc] by auto
  obtain o' m' gw' where h: "vgw_handle ex_cksum (bs_gw s) (Some ex_request) 5 = Some (o', Some m', gw')"
     "ho_result o' = tx_forward" "ho_learned_ip_be o' = 0"
    using ex_vip_tx unfolding s(2) by blast
  have "process_packet ex_cksum alloc 5 ex_request s = None"
    using h s(3) by (simp add: process_packet_def place_def)
  then show ?thesis using s(1) by (simp add: ex_gw_waiting_inv)
qed

section \<open>A translated packet releases nobody\<close>

lemma src_of_frame:
  assumes "mbuf_ok m" "udp_frame m udp len" "frame_flow (mb_buf m) udp = Some k"
  shows "ipv4_src_be (Some m) = Some (fk_src_ip k)" "ethertype (Some m) = Some RTE_ETHER_TYPE_IPV4"
proof -
  obtain t where t: "ld16 (mb_buf m) 12 = Some t" "bswap16 t = 0x0800" and n: "34 \<le> udp" "udp + 8 \<le> unat (mb_data_len m)"
    using assms(2) by (auto simp: udp_frame_def be16_def Let_def)
  moreover have "ld32 (mb_buf m) 26 = Some (fk_src_ip k)"
    using assms(3) by (auto simp: frame_flow_def split: Option.bind_splits)
  ultimately show "ipv4_src_be (Some m) = Some (fk_src_ip k)" "ethertype (Some m) = Some RTE_ETHER_TYPE_IPV4"
    by (simp_all add: ipv4_src_be_def ethertype_def)
qed

text \<open>
  C40: the sender of a forwarded datagram is learned, but the packets that wait for it are not
  released: the gateway looks for waiting packets under the source address after translation,
  which is its own address. So the outcome of an accepted client datagram reports either no
  learned address or the gateway's.
\<close>

theorem forwarded_source_not_released:
  assumes inv: "gw_inv gw" "gw_forwarder gw = Some fcfg" and m: "mbuf_ok m" "acceptable ck fcfg m udp len"
    and key: "frame_flow (mb_buf m) udp = Some key" "to_vip fcfg key"
    and h: "vgw_handle ck gw (Some m) now = Some (o', Some m', gw')" "ho_result o' \<noteq> hr_drop"
  shows "ho_learned_ip_be o' = 0 \<or> ho_learned_ip_be o' = fc_gateway_ip_be fcfg"
proof -
  have f: "udp_frame m udp len" using m(2) by (simp add: acceptable_def)
  note src = src_of_frame [OF m(1) f key(1)]
  obtain st where st: "gw_sessions gw = Some st" "st_inv st" using inv by (auto simp: gw_inv_def)
  obtain nbrs where nb: "passive_learn_ipv4 (Some m) (gw_neighbors gw) now = Some nbrs"
    using passive_learn_defined [OF m(1)] by blast
  obtain ho m1 st1 u1 where hf:
    "handle_forward ck fcfg gw_picker nbrs m (udp_view udp len) now st (gw_upstreams gw) = Some (ho, m1, st1, u1)"
    "(ho, m1) = (outcome hr_drop, m) \<and> lookup_forward st key = None \<and> st_heap st1 = st_heap st \<or>
     forwarded ck fcfg nbrs m udp len key now st1 ho m1"
    using handle_forward_spec [OF st(2) m(1) f key(1) gw_inv_safe [OF inv], of ck gw_picker nbrs now "gw_upstreams gw"] by metis
  have fh: "fwd_handle ck fcfg gw_picker nbrs (Some m) now st (gw_upstreams gw) = Some (ho, Some m1, st1, u1)"
    using hf(1) key(2) by (simp add: fwd_handle_accepted [OF m key(1)])
  obtain src' where src': "ipv4_src_be (Some m1) = Some src'"
    using hf(2) forwarded_ok(1) m(1) ipv4_src_defined by (metis not_None_eq old.prod.inject)
  note v = vgw_handle_ipv4 [OF src(2) inv(2) st(1) nb src(1) fh src']
  from hf(2) show ?thesis
  proof
    assume "(ho, m1) = (outcome hr_drop, m) \<and> lookup_forward st key = None \<and> st_heap st1 = st_heap st"
    then show ?thesis using v h by (auto simp: outcome_def split: if_splits)
  next
    assume fwd: "forwarded ck fcfg nbrs m udp len key now st1 ho m1"
    then obtain s where t: "translated ck m udp len (forward_flow (fc_gateway_ip_be fcfg) s) m1"
      and l: "ho_learned_ip_be ho = 0"
      by (auto simp: forwarded_def delivered_def outcome_def pending_for_def split: option.splits)
    have "src' = fc_gateway_ip_be fcfg"
      using src_of_frame(1) [of m1 udp len] t src' by (auto simp: translated_def forward_flow_def)
    then show ?thesis using v h(1) l by (auto split: if_splits)
  qed
qed

theorem forwarded_source_not_released_witness:
  "\<exists>o' m' gw'. vgw_handle ex_cksum (ex_gw_waiting 2) (Some ex_request) 5 = Some (o', Some m', gw') \<and>
     ho_result o' = tx_forward \<and> map_of (gw_arp_pending (ex_gw_waiting 2)) 0x0900000a = Some (ex_waiting 2) \<and>
     (ho_learned_ip_be o' = 0 \<or> ho_learned_ip_be o' = le32 192 168 1 10)"
proof -
  obtain o' m' gw' where h: "vgw_handle ex_cksum (ex_gw_waiting 2) (Some ex_request) 5 = Some (o', Some m', gw')" "ho_result o' = tx_forward"
    by (simp add: gwh_eval ex_gw_waiting_def eval_simps del: alloc_scan_numeral alloc_scan.simps)
  let ?fcfg = "the (gw_forwarder ex_gw)"
  have cfg: "gw_forwarder (ex_gw_waiting 2) = Some ?fcfg" "fc_gateway_ip_be ?fcfg = le32 192 168 1 10"
    by (simp_all add: ex_gw_waiting_def ex_gw_def)
  have "acceptable ex_cksum ?fcfg ex_request 34 8" "to_vip ?fcfg (ex_flow 5000)"
    using ex_request_frame by (simp_all add: acceptable_def ex_gw_def to_vip_def ex_flow_def eval_simps)
  then show ?thesis
    using forwarded_source_not_released [OF ex_gw_waiting_inv cfg(1) ex_request_ok _ ex_request_frame(2) _ h(1)] h cfg(2)
    by (auto simp: ex_gw_waiting_def)
qed

section \<open>A packet for an unspecified client address is lost\<close>

text \<open>A datagram from 0.0.0.0:5000 to the virtual service, and the upstream's answer to it.\<close>

definition ex_zero_request :: rte_mbuf where
  "ex_zero_request = frame_mbuf 1
     [2,0,0,0,0,1, 2,0,0,0,0,9, 0x08,0x00, 0x45,0,0,28, 0,0,0,0, 64,17,0,0, 0,0,0,0, 192,168,1,100,
      0x13,0x88, 0,53, 0,8, 0,0]"

definition ex_zero_reply :: rte_mbuf where
  "ex_zero_reply = frame_mbuf 2
     [2,0,0,0,0,1, 2,0,0,0,0,3, 0x08,0x00, 0x45,0,0,28, 0,0,0,0, 64,17,0,0, 10,0,0,1, 192,168,1,10,
      0,53, 0x27,0x10, 0,8, 0,0]"

text \<open>
  A buffer can leak: the answer to a client whose source address was 0.0.0.0 waits for the
  address 0.0.0.0, which \<open>enqueue_pending\<close> refuses without freeing the buffer, so it is
  neither queued, nor sent, nor given back.
\<close>

theorem zero_client_reply_leaks:
  "map_option (\<lambda>s. (bs_lost s, bs_freed s, map mb_addr (bs_tx s), bs_drop s, gw_arp_pending (bs_gw s)))
     (process_burst ex_cksum (\<lambda>p. (None, p)) 5 [ex_zero_request, ex_zero_reply] (ex_burst ex_gw)) =
   Some ([2], [], [1], [], [])"
  by (simp add: process_packet_def place_def enqueue_pending_def maybe_probe_arp_def gwh_eval ex_zero_request_def
      ex_zero_reply_def handle_reverse_def touch_def apply_reverse_nat_def pending_for_def eval_simps
      del: alloc_scan_numeral alloc_scan.simps)

end
