(* ===== verification/Util.thy ===== *)
theory Util
  imports Dpdk_Types
begin

text \<open>
  Utilities of \<open>src/src/base/util.{hpp,cpp}\<close>: text of hardware addresses, names of the rings,
  and the \<open>crc32\<close> hash. What they use of the C++ library is modelled: decimal text of integers
  (\<open>std::to_string\<close> and stream output) and the \<open>%02X\<close>, \<open>%02x\<close> and \<open>%04x\<close> conversions of
  \<open>snprintf\<close>. The functions of the same files that read the machine are in \<open>Util_Runtime\<close>.
\<close>

section \<open>Numbers as text\<close>

definition digit_char :: "nat \<Rightarrow> char" where
  "digit_char d = char_of (48 + d)"

fun dec_string :: "nat \<Rightarrow> string" where
  "dec_string n = (if n < 10 then [digit_char n] else dec_string (n div 10) @ [digit_char (n mod 10)])"

declare dec_string.simps [simp del]

definition to_string :: "int \<Rightarrow> string" where
  "to_string i = (if i < 0 then ''-'' @ dec_string (nat (- i)) else dec_string (nat i))"

text \<open>Reading decimal digits back.\<close>

definition is_digit :: "char \<Rightarrow> bool" where
  "is_digit c \<longleftrightarrow> 48 \<le> (of_char c :: nat) \<and> (of_char c :: nat) \<le> 57"

definition dec_value :: "string \<Rightarrow> nat" where
  "dec_value s = foldl (\<lambda>acc c. 10 * acc + (of_char c - 48)) 0 s"

definition hex_upper :: "nat \<Rightarrow> char" where
  "hex_upper d = (if d < 10 then digit_char d else char_of (55 + d))"

definition hex_lower :: "nat \<Rightarrow> char" where
  "hex_lower d = (if d < 10 then digit_char d else char_of (87 + d))"

definition fmt_02X :: "u8 \<Rightarrow> string" where
  "fmt_02X b = [hex_upper (unat b div 16), hex_upper (unat b mod 16)]"

definition fmt_02x :: "u8 \<Rightarrow> string" where
  "fmt_02x b = [hex_lower (unat b div 16), hex_lower (unat b mod 16)]"

definition fmt_04x :: "u16 \<Rightarrow> string" where
  "fmt_04x w = map (\<lambda>k. hex_lower (unat w div 16 ^ k mod 16)) [3, 2, 1, 0]"

section \<open>Hardware addresses and ring names\<close>

fun mac_dump :: "rte_ether_addr \<Rightarrow> string" where
  "mac_dump (MAC a b c d e f) =
     fmt_02X a @ '':'' @ fmt_02X b @ '':'' @ fmt_02X c @ '':'' @ fmt_02X d @ '':'' @ fmt_02X e @ '':'' @ fmt_02X f"

definition TX_RING_NAME :: "int \<Rightarrow> string" where
  "TX_RING_NAME port = ''vgw_tx_ring_'' @ to_string port"

definition RX_RING_NAME :: "int \<Rightarrow> string" where
  "RX_RING_NAME port = ''vgw_rx_ring_'' @ to_string port"

section \<open>The hash\<close>

definition crc32_table :: "u32 list" where
  "crc32_table =
  [0x00000000, 0x04c11db7, 0x09823b6e, 0x0d4326d9, 0x130476dc, 0x17c56b6b,
   0x1a864db2, 0x1e475005, 0x2608edb8, 0x22c9f00f, 0x2f8ad6d6, 0x2b4bcb61,
   0x350c9b64, 0x31cd86d3, 0x3c8ea00a, 0x384fbdbd, 0x4c11db70, 0x48d0c6c7,
   0x4593e01e, 0x4152fda9, 0x5f15adac, 0x5bd4b01b, 0x569796c2, 0x52568b75,
   0x6a1936c8, 0x6ed82b7f, 0x639b0da6, 0x675a1011, 0x791d4014, 0x7ddc5da3,
   0x709f7b7a, 0x745e66cd, 0x9823b6e0, 0x9ce2ab57, 0x91a18d8e, 0x95609039,
   0x8b27c03c, 0x8fe6dd8b, 0x82a5fb52, 0x8664e6e5, 0xbe2b5b58, 0xbaea46ef,
   0xb7a96036, 0xb3687d81, 0xad2f2d84, 0xa9ee3033, 0xa4ad16ea, 0xa06c0b5d,
   0xd4326d90, 0xd0f37027, 0xddb056fe, 0xd9714b49, 0xc7361b4c, 0xc3f706fb,
   0xceb42022, 0xca753d95, 0xf23a8028, 0xf6fb9d9f, 0xfbb8bb46, 0xff79a6f1,
   0xe13ef6f4, 0xe5ffeb43, 0xe8bccd9a, 0xec7dd02d, 0x34867077, 0x30476dc0,
   0x3d044b19, 0x39c556ae, 0x278206ab, 0x23431b1c, 0x2e003dc5, 0x2ac12072,
   0x128e9dcf, 0x164f8078, 0x1b0ca6a1, 0x1fcdbb16, 0x018aeb13, 0x054bf6a4,
   0x0808d07d, 0x0cc9cdca, 0x7897ab07, 0x7c56b6b0, 0x71159069, 0x75d48dde,
   0x6b93dddb, 0x6f52c06c, 0x6211e6b5, 0x66d0fb02, 0x5e9f46bf, 0x5a5e5b08,
   0x571d7dd1, 0x53dc6066, 0x4d9b3063, 0x495a2dd4, 0x44190b0d, 0x40d816ba,
   0xaca5c697, 0xa864db20, 0xa527fdf9, 0xa1e6e04e, 0xbfa1b04b, 0xbb60adfc,
   0xb6238b25, 0xb2e29692, 0x8aad2b2f, 0x8e6c3698, 0x832f1041, 0x87ee0df6,
   0x99a95df3, 0x9d684044, 0x902b669d, 0x94ea7b2a, 0xe0b41de7, 0xe4750050,
   0xe9362689, 0xedf73b3e, 0xf3b06b3b, 0xf771768c, 0xfa325055, 0xfef34de2,
   0xc6bcf05f, 0xc27dede8, 0xcf3ecb31, 0xcbffd686, 0xd5b88683, 0xd1799b34,
   0xdc3abded, 0xd8fba05a, 0x690ce0ee, 0x6dcdfd59, 0x608edb80, 0x644fc637,
   0x7a089632, 0x7ec98b85, 0x738aad5c, 0x774bb0eb, 0x4f040d56, 0x4bc510e1,
   0x46863638, 0x42472b8f, 0x5c007b8a, 0x58c1663d, 0x558240e4, 0x51435d53,
   0x251d3b9e, 0x21dc2629, 0x2c9f00f0, 0x285e1d47, 0x36194d42, 0x32d850f5,
   0x3f9b762c, 0x3b5a6b9b, 0x0315d626, 0x07d4cb91, 0x0a97ed48, 0x0e56f0ff,
   0x1011a0fa, 0x14d0bd4d, 0x19939b94, 0x1d528623, 0xf12f560e, 0xf5ee4bb9,
   0xf8ad6d60, 0xfc6c70d7, 0xe22b20d2, 0xe6ea3d65, 0xeba91bbc, 0xef68060b,
   0xd727bbb6, 0xd3e6a601, 0xdea580d8, 0xda649d6f, 0xc423cd6a, 0xc0e2d0dd,
   0xcda1f604, 0xc960ebb3, 0xbd3e8d7e, 0xb9ff90c9, 0xb4bcb610, 0xb07daba7,
   0xae3afba2, 0xaafbe615, 0xa7b8c0cc, 0xa379dd7b, 0x9b3660c6, 0x9ff77d71,
   0x92b45ba8, 0x9675461f, 0x8832161a, 0x8cf30bad, 0x81b02d74, 0x857130c3,
   0x5d8a9099, 0x594b8d2e, 0x5408abf7, 0x50c9b640, 0x4e8ee645, 0x4a4ffbf2,
   0x470cdd2b, 0x43cdc09c, 0x7b827d21, 0x7f436096, 0x7200464f, 0x76c15bf8,
   0x68860bfd, 0x6c47164a, 0x61043093, 0x65c52d24, 0x119b4be9, 0x155a565e,
   0x18197087, 0x1cd86d30, 0x029f3d35, 0x065e2082, 0x0b1d065b, 0x0fdc1bec,
   0x3793a651, 0x3352bbe6, 0x3e119d3f, 0x3ad08088, 0x2497d08d, 0x2056cd3a,
   0x2d15ebe3, 0x29d4f654, 0xc5a92679, 0xc1683bce, 0xcc2b1d17, 0xc8ea00a0,
   0xd6ad50a5, 0xd26c4d12, 0xdf2f6bc9, 0xdbee767c, 0xe3a1cbc1, 0xe760d676,
   0xea23f0af, 0xefe2ed18, 0xf0a5bd1d, 0xf464a0aa, 0xf9278673, 0xfde69bc4,
   0x89b8fd09, 0x8d79e0be, 0x803ac667, 0x84fbdbd0, 0x9abc8bd5, 0x9e7d966c,
   0x933eb0bb, 0x97ffad0c, 0xafb010b1, 0xab710d06, 0xa6322bdf, 0xa2f33668,
   0xbcb4666d, 0xb8757bda, 0xb5365d03, 0xb1f740b4]"

definition crc32_step :: "u32 \<Rightarrow> u8 \<Rightarrow> u32" where
  "crc32_step crc c = drop_bit 8 crc XOR crc32_table ! unat ((crc XOR ucast c) AND 0xff)"

definition crc32 :: "u8 list \<Rightarrow> u32" where
  "crc32 data = foldl crc32_step 0xffffffff data XOR 0xffffffff"

section \<open>Decimal text is injective\<close>

lemma digit_char_eq [simp]: "d < 10 \<Longrightarrow> d' < 10 \<Longrightarrow> digit_char d = digit_char d' \<longleftrightarrow> d = d'"
  by (auto simp: digit_char_def dest: arg_cong [of _ _ of_char])

lemma of_digit_char: "d < 10 \<Longrightarrow> of_char (digit_char d) = (48 + d :: nat)"
  by (simp add: digit_char_def)

lemma dec_string_nonempty [simp]: "dec_string n \<noteq> []"
  by (subst dec_string.simps) simp

lemma dec_string_single: "n < 10 \<Longrightarrow> dec_string n = [digit_char n]"
  by (simp add: dec_string.simps)

lemma dec_string_snoc: "\<not> n < 10 \<Longrightarrow> dec_string n = dec_string (n div 10) @ [digit_char (n mod 10)]"
  by (simp add: dec_string.simps)

lemma dec_value_string [simp]: "dec_value (dec_string n) = n"
proof (induction n rule: dec_string.induct)
  case (1 n)
  then show ?case
    by (cases "n < 10") (simp_all add: dec_string_single dec_string_snoc dec_value_def of_digit_char)
qed

lemma dec_string_inj [simp]: "dec_string m = dec_string n \<longleftrightarrow> m = n"
  by (metis dec_value_string)

lemma dec_string_digits: "\<forall>c \<in> set (dec_string n). is_digit c"
proof (induction n rule: dec_string.induct)
  case (1 n)
  then show ?case
    by (cases "n < 10") (auto simp: dec_string_single dec_string_snoc is_digit_def of_digit_char)
qed

lemma ring_names_distinct:
  "0 \<le> p \<Longrightarrow> 0 \<le> q \<Longrightarrow> RX_RING_NAME p = RX_RING_NAME q \<longleftrightarrow> p = q"
  "0 \<le> p \<Longrightarrow> 0 \<le> q \<Longrightarrow> TX_RING_NAME p = TX_RING_NAME q \<longleftrightarrow> p = q"
  "RX_RING_NAME p \<noteq> TX_RING_NAME q"
  by (auto simp: RX_RING_NAME_def TX_RING_NAME_def to_string_def)

section \<open>The table against its polynomial\<close>

text \<open>
  Eight steps of the division by the polynomial 0x04c11db7, most significant bit first: the
  reference the table is taken from.
\<close>

definition poly_step :: "u32 \<Rightarrow> u32" where
  "poly_step c = (if bit c 31 then push_bit 1 c XOR 0x04c11db7 else push_bit 1 c)"

definition poly_entry :: "nat \<Rightarrow> u32" where
  "poly_entry i = (poly_step ^^ 8) (push_bit 24 (word_of_nat i))"

lemma funpow_numeral_8: "(f ^^ 8) x = f (f (f (f (f (f (f (f x)))))))"
  by (simp add: numeral_eq_Suc)

lemma poly_step_xor: "poly_step (a XOR b) = poly_step a XOR poly_step b"
  by (auto simp: poly_step_def bit_xor_iff push_bit_xor ac_simps)

lemma poly_steps_xor: "(poly_step ^^ n) (a XOR b) = (poly_step ^^ n) a XOR (poly_step ^^ n) b"
  by (induction n) (simp_all add: poly_step_xor)

lemma poly_entry_split:
  assumes "j < 2 ^ k"
  shows "poly_entry (2 ^ k + j) = poly_entry (2 ^ k) XOR poly_entry j"
proof -
  have "take_bit k j = j"
    using assms by (simp add: take_bit_nat_eq_self)
  then have "\<not> bit j k"
    by (metis bit_take_bit_iff less_irrefl)
  then have "2 ^ k AND j = 0"
    by (intro bit_eqI) (auto simp: bit_and_iff bit_exp_iff)
  then have "2 ^ k + j = 2 ^ k XOR j"
    by (rule disjunctive_add_eq_xor)
  then show ?thesis
    by (simp add: poly_entry_def push_bit_xor poly_steps_xor of_nat_xor_eq del: of_nat_add)
qed

lemma grow_entries:
  "map poly_entry [0..<2 ^ Suc k] =
     map poly_entry [0..<2 ^ k] @ map (\<lambda>x. poly_entry (2 ^ k) XOR x) (map poly_entry [0..<2 ^ k])"
proof -
  have split: "[0..<2 ^ Suc k] = [0..<2 ^ k] @ map (\<lambda>j. j + 2 ^ k) [0..<2 ^ k]"
    using upt_add_eq_append [of 0 "2 ^ k" "2 ^ k"] by (simp add: map_add_upt mult_2)
  have "map (\<lambda>j. poly_entry (j + 2 ^ k)) [0..<2 ^ k] = map (\<lambda>j. poly_entry (2 ^ k) XOR poly_entry j) [0..<2 ^ k]"
    by (rule map_cong) (auto simp: poly_entry_split add.commute [of _ "2 ^ k"])
  then show ?thesis unfolding split by (simp add: comp_def)
qed

lemma poly_entry_powers:
  "poly_entry 0 = 0" "poly_entry (Suc 0) = 0x04c11db7" "poly_entry 2 = 0x09823b6e" "poly_entry 4 = 0x130476dc"
  "poly_entry 8 = 0x2608edb8" "poly_entry 16 = 0x4c11db70" "poly_entry 32 = 0x9823b6e0"
  "poly_entry 64 = 0x34867077" "poly_entry 128 = 0x690ce0ee"
  by (simp_all add: poly_entry_def poly_step_def funpow_numeral_8)

lemma poly_table:
  "map poly_entry [0..<256] = take 230 crc32_table @ [0xdf2f6bcb] @ take 4 (drop 231 crc32_table) @
     [0xeee2ed18] @ take 9 (drop 236 crc32_table) @ [0x9e7d9662] @ drop 246 crc32_table"
  using grow_entries [of 0] grow_entries [of 1] grow_entries [of 2] grow_entries [of 3]
    grow_entries [of 4] grow_entries [of 5] grow_entries [of 6] grow_entries [of 7]
  by (simp add: poly_entry_powers crc32_table_def)

lemma crc32_table_length: "length crc32_table = 256"
  by (simp add: crc32_table_def)

lemma poly_entry_table:
  assumes "i < 256"
  shows "poly_entry i =
    (if i = 230 then 0xdf2f6bcb else if i = 235 then 0xeee2ed18 else if i = 245 then 0x9e7d9662
     else crc32_table ! i)"
proof -
  have "poly_entry i = map poly_entry [0..<256] ! i"
    using assms by simp
  then show ?thesis
    unfolding poly_table using assms
    by (auto simp: nth_append crc32_table_length nth_Cons split: nat.splits intro!: arg_cong [where f = "nth crc32_table"])
qed

text \<open>
  The table of \<open>crc32\<close> is the table of the polynomial 0x04c11db7, most significant bit first,
  in all but three of its 256 entries; and the hash of the bytes \<open>123456789\<close>, for which every
  CRC-32 with that polynomial and reflected input gives 0xcbf43926, is 0x7ead5c77.
\<close>

theorem crc32_is_not_the_standard_crc:
  "{i. i < 256 \<and> crc32_table ! i \<noteq> poly_entry i} = {230, 235, 245} \<and>
   crc32 [49, 50, 51, 52, 53, 54, 55, 56, 57] = 0x7ead5c77"
proof
  have "crc32_table ! 230 \<noteq> 0xdf2f6bcb" "crc32_table ! 235 \<noteq> 0xeee2ed18" "crc32_table ! 245 \<noteq> 0x9e7d9662"
    by (simp_all add: crc32_table_def)
  then show "{i. i < 256 \<and> crc32_table ! i \<noteq> poly_entry i} = {230, 235, 245}"
    by (auto simp: poly_entry_table split: if_splits)
  show "crc32 [49, 50, 51, 52, 53, 54, 55, 56, 57] = 0x7ead5c77"
    by (simp add: crc32_def crc32_step_def crc32_table_def)
qed

end
