(* ===== verification/Netif.thy ===== *)
theory Netif
  imports Datapath Util
begin

text \<open>
  Packet I/O, \<open>src/src/base/ring.hpp\<close> and \<open>src/src/dpdk/netif.{hpp,cpp}\<close>: the wrapper of a DPDK
  ring, the per-port interface in its two modes and the loops of the I/O cores. The DPDK functions
  are parameters, collected in the records \<open>ring_fns\<close> and \<open>eth_fns\<close>; \<open>rte_ring_ok\<close> states what
  the documentation of the ring promises. The other core that works on a ring is a sequence
  \<open>drain\<close>: before attempt \<open>i\<close> it dequeues \<open>drain i\<close> packets. A freed buffer is returned to the
  caller of the model. Sleeping and log messages are left out.
\<close>

section \<open>Rings\<close>

record ('r, 'a) ring_fns =
  rte_ring_create :: "string \<Rightarrow> nat \<Rightarrow> u16 \<Rightarrow> 'r option"
  rte_ring_enqueue_burst :: "'r \<Rightarrow> 'a list \<Rightarrow> nat \<times> nat \<times> 'r"
  rte_ring_dequeue_burst :: "'r \<Rightarrow> nat \<Rightarrow> 'a list \<times> nat \<times> 'r"

record 'r Ring =
  ring_ring :: 'r
  ring_free_space :: nat

definition push_burst :: "('r, 'a) ring_fns \<Rightarrow> 'r Ring \<Rightarrow> 'a list \<Rightarrow> nat \<times> 'r Ring" where
  "push_burst rf ring eles =
     (let (nb_en, free_space, r) = rte_ring_enqueue_burst rf (ring_ring ring) eles
      in (nb_en, ring\<lparr>ring_ring := r, ring_free_space := free_space\<rparr>))"

definition pop_burst :: "('r, 'a) ring_fns \<Rightarrow> 'r Ring \<Rightarrow> nat \<Rightarrow> 'a list \<times> 'r Ring" where
  "pop_burst rf ring n =
     (let (eles, free_space, r) = rte_ring_dequeue_burst rf (ring_ring ring) n
      in (eles, ring\<lparr>ring_ring := r, ring_free_space := free_space\<rparr>))"

definition free_size :: "'r Ring \<Rightarrow> nat" where
  "free_size ring = ring_free_space ring"

text \<open>The result of code that may end the process or have undefined behaviour.\<close>

datatype 'a exec = Done 'a | Exits exit_reason | Undef

primrec and_then :: "'a exec \<Rightarrow> ('a \<Rightarrow> 'b exec) \<Rightarrow> 'b exec" where
  "and_then (Done x) f = f x"
| "and_then (Exits e) f = Exits e"
| "and_then Undef f = Undef"

definition make_ring :: "('r, 'a) ring_fns \<Rightarrow> string \<Rightarrow> nat \<Rightarrow> u16 \<Rightarrow> 'r Ring exec" where
  "make_ring rf name count flag =
     (case rte_ring_create rf name count flag of
        None \<Rightarrow> Exits ring_create_failed
      | Some r \<Rightarrow> Done \<lparr>ring_ring = r, ring_free_space = count\<rparr>)"

text \<open>
  What the DPDK documentation says of a ring: it is a queue; a burst enqueues as many objects as
  fit and reports the space left, a burst dequeues as many as there are and reports how many
  remain; without flags the usable capacity is one less than the requested count.
\<close>

definition rte_ring_ok :: "('r, 'a) ring_fns \<Rightarrow> ('r \<Rightarrow> 'a list) \<Rightarrow> ('r \<Rightarrow> nat) \<Rightarrow> bool" where
  "rte_ring_ok rf contents cap \<longleftrightarrow>
     (\<forall>r xs n fs r'. rte_ring_enqueue_burst rf r xs = (n, fs, r') \<longrightarrow>
        n = min (length xs) (cap r - length (contents r)) \<and> contents r' = contents r @ take n xs \<and>
        cap r' = cap r \<and> fs = cap r - length (contents r')) \<and>
     (\<forall>r k xs avail r'. rte_ring_dequeue_burst rf r k = (xs, avail, r') \<longrightarrow>
        xs = take k (contents r) \<and> contents r' = drop k (contents r) \<and> cap r' = cap r \<and>
        avail = length (contents r')) \<and>
     (\<forall>name count r. rte_ring_create rf name count 0 = Some r \<longrightarrow> contents r = [] \<and> Suc (cap r) = count)"

section \<open>The interface of a port\<close>

record 'r PipelineState =
  ps_rx_ring :: "'r Ring"
  ps_tx_ring :: "'r Ring"
  ps_stop :: bool
  ps_tx_ring_full_sleep_us :: "32 word"

datatype 'r NetifState = ns_pipeline "'r PipelineState" | ns_rtc

text \<open>\<open>nf_state\<close> is \<open>None\<close> while \<open>state_active_\<close> is false, and otherwise the live union member.\<close>

record 'r DpdkNetif =
  nf_mode :: DatapathMode
  nf_port_id :: u16
  nf_queue_id :: u16
  nf_state :: "'r NetifState option"

definition dpdk_netif :: "'r DpdkNetif" where
  "dpdk_netif = \<lparr>nf_mode = Pipeline, nf_port_id = 0, nf_queue_id = 0, nf_state = None\<rparr>"

record 'd eth_fns =
  rte_eth_rx_burst :: "'d \<Rightarrow> u16 \<Rightarrow> u16 \<Rightarrow> u16 \<Rightarrow> rte_mbuf list \<times> 'd"
  rte_eth_tx_burst :: "'d \<Rightarrow> u16 \<Rightarrow> u16 \<Rightarrow> rte_mbuf list \<Rightarrow> nat \<times> 'd"

definition rx_burst :: "'d eth_fns \<Rightarrow> 'd \<Rightarrow> u16 \<Rightarrow> u16 \<Rightarrow> u16 \<Rightarrow> rte_mbuf list \<times> 'd" where
  "rx_burst ef d port_id queue_id nb_pkts = rte_eth_rx_burst ef d port_id queue_id nb_pkts"

definition tx_burst :: "'d eth_fns \<Rightarrow> 'd \<Rightarrow> u16 \<Rightarrow> u16 \<Rightarrow> rte_mbuf list \<Rightarrow> nat \<times> 'd" where
  "tx_burst ef d port_id queue_id pkts = rte_eth_tx_burst ef d port_id queue_id pkts"

text \<open>
  \<open>reset_state\<close> destroys the union member the mode names and returns the rings that are freed with
  it; destroying another member than the live one would be undefined.
\<close>

definition reset_state :: "'r DpdkNetif \<Rightarrow> ('r list \<times> 'r DpdkNetif) exec" where
  "reset_state nf =
     (case nf_state nf of
        None \<Rightarrow> Done ([], nf)
      | Some (ns_pipeline ps) \<Rightarrow>
          if nf_mode nf = Pipeline
          then Done ([ring_ring (ps_tx_ring ps), ring_ring (ps_rx_ring ps)], nf\<lparr>nf_state := None\<rparr>)
          else Undef
      | Some ns_rtc \<Rightarrow> if nf_mode nf = Pipeline then Undef else Done ([], nf\<lparr>nf_state := None\<rparr>))"

definition netif_init ::
    "('r, 'a) ring_fns \<Rightarrow> u16 \<Rightarrow> DatapathConfig \<Rightarrow> 'r DpdkNetif \<Rightarrow> ('r list \<times> 'r DpdkNetif) exec" where
  "netif_init rf port cfg nf =
     and_then (reset_state nf) (\<lambda>(freed, nf1).
       let nf2 = nf1\<lparr>nf_mode := dc_mode cfg, nf_port_id := port, nf_queue_id := 0\<rparr>
       in if dc_mode cfg = Pipeline then
            (case dc_u cfg of
               u_rtc _ \<Rightarrow> Undef
             | u_pipeline p \<Rightarrow>
                 let ring_cap = unat (if pp_ring_size p > 0 then pp_ring_size p else IO_RING_SIZE)
                 in and_then (make_ring rf (RX_RING_NAME (uint port)) ring_cap IO_RING_FLAGS) (\<lambda>rx.
                    and_then (make_ring rf (TX_RING_NAME (uint port)) ring_cap IO_RING_FLAGS) (\<lambda>tx.
                      Done (freed, nf2\<lparr>nf_state := Some (ns_pipeline
                        \<lparr>ps_rx_ring = rx, ps_tx_ring = tx, ps_stop = False,
                         ps_tx_ring_full_sleep_us = pp_tx_ring_full_sleep_us p\<rparr>)\<rparr>))))
          else Done (freed, nf2\<lparr>nf_state := Some ns_rtc\<rparr>))"

section \<open>Worker side\<close>

text \<open>A member access through the union is undefined unless that member is live.\<close>

definition pipeline_of :: "'r DpdkNetif \<Rightarrow> 'r PipelineState option" where
  "pipeline_of nf = (case nf_state nf of Some (ns_pipeline ps) \<Rightarrow> Some ps | _ \<Rightarrow> None)"

definition with_pipeline :: "'r DpdkNetif \<Rightarrow> 'r PipelineState \<Rightarrow> 'r DpdkNetif" where
  "with_pipeline nf ps = nf\<lparr>nf_state := Some (ns_pipeline ps)\<rparr>"

definition clamp16 :: "nat \<Rightarrow> u16" where
  "clamp16 n = word_of_nat (min n 65535)"

definition recv_burst ::
    "('r, rte_mbuf) ring_fns \<Rightarrow> 'd eth_fns \<Rightarrow> 'r DpdkNetif \<Rightarrow> 'd \<Rightarrow> nat \<Rightarrow> (rte_mbuf list \<times> 'r DpdkNetif \<times> 'd) option" where
  "recv_burst rf ef nf d n =
     (case nf_mode nf of
        Pipeline \<Rightarrow> do {
          ps \<leftarrow> pipeline_of nf;
          let (pkts, ring) = pop_burst rf (ps_rx_ring ps) n;
          Some (pkts, with_pipeline nf (ps\<lparr>ps_rx_ring := ring\<rparr>), d)
        }
      | Rtc \<Rightarrow> (case rx_burst ef d (nf_port_id nf) (nf_queue_id nf) (clamp16 n) of
            (pkts, d1) \<Rightarrow> Some (pkts, nf, d1)))"

definition drained :: "('r, 'a) ring_fns \<Rightarrow> nat \<Rightarrow> 'r Ring \<Rightarrow> 'r Ring" where
  "drained rf k ring = ring\<lparr>ring_ring := snd (snd (rte_ring_dequeue_burst rf (ring_ring ring) k))\<rparr>"

text \<open>
  The send loop of the pipeline mode: it returns only when every packet is enqueued; a full ring
  makes it sleep and try again. \<open>None\<close> is a loop that never ends.
\<close>

partial_function (option) push_all ::
    "('r, 'a) ring_fns \<Rightarrow> (nat \<Rightarrow> nat) \<Rightarrow> nat \<Rightarrow> 'r Ring \<Rightarrow> 'a list \<Rightarrow> 'r Ring option" where
  "push_all rf drain i ring pkts =
     (if pkts = [] then Some ring
      else case push_burst rf (drained rf (drain i) ring) pkts of (en, ring1) \<Rightarrow>
        if en = 0 then push_all rf drain (Suc i) ring1 pkts
        else push_all rf drain (Suc i) ring1 (drop en pkts))"

definition send_burst ::
    "('r, rte_mbuf) ring_fns \<Rightarrow> 'd eth_fns \<Rightarrow> (nat \<Rightarrow> nat) \<Rightarrow> 'r DpdkNetif \<Rightarrow> 'd \<Rightarrow> rte_mbuf list \<Rightarrow>
     (nat \<times> 'r DpdkNetif \<times> 'd) option" where
  "send_burst rf ef drain nf d pkts =
     (case nf_mode nf of
        Pipeline \<Rightarrow> do {
          ps \<leftarrow> pipeline_of nf;
          ring \<leftarrow> push_all rf drain 0 (ps_tx_ring ps) pkts;
          Some (length pkts, with_pipeline nf (ps\<lparr>ps_tx_ring := ring\<rparr>), d)
        }
      | Rtc \<Rightarrow> (case tx_burst ef d (nf_port_id nf) (nf_queue_id nf) (take 65535 pkts) of
            (sent, d1) \<Rightarrow> Some (sent, nf, d1)))"

section \<open>I/O cores\<close>

text \<open>
  The inner loop of \<open>nic_recv\<close>: packets go to the ring until it takes none, then the rest is
  freed.
\<close>

function push_or_free ::
    "('r, 'a) ring_fns \<Rightarrow> (nat \<Rightarrow> nat) \<Rightarrow> nat \<Rightarrow> 'r Ring \<Rightarrow> 'a list \<Rightarrow> 'a list \<times> 'r Ring" where
  "push_or_free rf drain i ring pkts =
     (if pkts = [] then ([], ring)
      else case push_burst rf (drained rf (drain i) ring) pkts of (got, ring1) \<Rightarrow>
        if got = 0 then (pkts, ring1)
        else push_or_free rf drain (Suc i) ring1 (drop got pkts))"
  by pat_completeness auto
termination
  by (relation "measure (\<lambda>(rf, drain, i, ring, pkts). length pkts)") auto

declare push_or_free.simps [simp del]

primrec nic_recv_queues ::
    "('r, rte_mbuf) ring_fns \<Rightarrow> 'd eth_fns \<Rightarrow> (nat \<Rightarrow> nat) \<Rightarrow> u16 \<Rightarrow> nat list \<Rightarrow> 'r PipelineState \<Rightarrow> 'd \<Rightarrow>
     rte_mbuf list \<times> 'r PipelineState \<times> 'd" where
  "nic_recv_queues rf ef drain port [] ps d = ([], ps, d)"
| "nic_recv_queues rf ef drain port (q # qs) ps d =
     (case rx_burst ef d port (word_of_nat q) (word_of_nat IO_RX_BURST) of (mbufs, d1) \<Rightarrow>
        if mbufs = [] then nic_recv_queues rf ef drain port qs ps d1
        else case push_or_free rf drain 0 (ps_rx_ring ps) mbufs of (freed, ring) \<Rightarrow>
          case nic_recv_queues rf ef drain port qs (ps\<lparr>ps_rx_ring := ring\<rparr>) d1 of
            (freed1, ps1, d2) \<Rightarrow> (freed @ freed1, ps1, d2))"

definition nic_recv ::
    "('r, rte_mbuf) ring_fns \<Rightarrow> 'd eth_fns \<Rightarrow> (nat \<Rightarrow> nat) \<Rightarrow> 'r DpdkNetif \<Rightarrow> 'd \<Rightarrow>
     (rte_mbuf list \<times> 'r DpdkNetif \<times> 'd) option" where
  "nic_recv rf ef drain nf d = do {
     ps \<leftarrow> pipeline_of nf;
     let (freed, ps1, d1) = nic_recv_queues rf ef drain (nf_port_id nf) [0..<DPDK_rx_queue_num] ps d;
     Some (freed, with_pipeline nf ps1, d1)
   }"

definition nic_send ::
    "('r, rte_mbuf) ring_fns \<Rightarrow> 'd eth_fns \<Rightarrow> 'r DpdkNetif \<Rightarrow> 'd \<Rightarrow> (rte_mbuf list \<times> 'r DpdkNetif \<times> 'd) option" where
  "nic_send rf ef nf d = do {
     ps \<leftarrow> pipeline_of nf;
     let (mbufs, ring) = pop_burst rf (ps_tx_ring ps) IO_TX_BURST;
     let nf1 = with_pipeline nf (ps\<lparr>ps_tx_ring := ring\<rparr>);
     if mbufs = [] then Some ([], nf1, d)
     else
       let (sent, d1) = tx_burst ef d (nf_port_id nf) 0 mbufs
       in Some (if sent < length mbufs then drop sent mbufs else [], nf1, d1)
   }"

text \<open>
  The loop of an I/O core: \<open>stop i\<close> is what its \<open>i\<close>-th test of the stop flag reads, and the body
  is one call of \<open>nic_recv\<close> or \<open>nic_send\<close>. \<open>None\<close> is a loop that never ends.
\<close>

partial_function (option) run_io :: "(nat \<Rightarrow> bool) \<Rightarrow> ('s \<Rightarrow> 's) \<Rightarrow> nat \<Rightarrow> 's \<Rightarrow> 's option" where
  "run_io stop body i s = (if stop i then Some s else run_io stop body (Suc i) (body s))"

definition recv_turn ::
    "('r, rte_mbuf) ring_fns \<Rightarrow> 'd eth_fns \<Rightarrow> (nat \<Rightarrow> nat) \<Rightarrow> (rte_mbuf list \<times> 'r DpdkNetif \<times> 'd) option \<Rightarrow>
     (rte_mbuf list \<times> 'r DpdkNetif \<times> 'd) option" where
  "recv_turn rf ef drain s = do {
     (freed, nf, d) \<leftarrow> s;
     (freed1, nf1, d1) \<leftarrow> nic_recv rf ef drain nf d;
     Some (freed @ freed1, nf1, d1)
   }"

definition send_turn ::
    "('r, rte_mbuf) ring_fns \<Rightarrow> 'd eth_fns \<Rightarrow> (rte_mbuf list \<times> 'r DpdkNetif \<times> 'd) option \<Rightarrow>
     (rte_mbuf list \<times> 'r DpdkNetif \<times> 'd) option" where
  "send_turn rf ef s = do {
     (freed, nf, d) \<leftarrow> s;
     (freed1, nf1, d1) \<leftarrow> nic_send rf ef nf d;
     Some (freed @ freed1, nf1, d1)
   }"

definition run_recv where
  "run_recv rf ef drain stop nf d = run_io stop (recv_turn rf ef drain) 0 (Some ([], nf, d))"

definition run_send where
  "run_send rf ef stop nf d = run_io stop (send_turn rf ef) 0 (Some ([], nf, d))"

section \<open>What the ring operations do\<close>

lemma enqueue_ok:
  assumes "rte_ring_ok rf contents cap" and "rte_ring_enqueue_burst rf r xs = (n, fs, r')"
  shows "n = min (length xs) (cap r - length (contents r))" "contents r' = contents r @ take n xs"
    "cap r' = cap r" "fs = cap r - length (contents r')"
  using assms unfolding rte_ring_ok_def by blast+

lemma dequeue_ok:
  assumes "rte_ring_ok rf contents cap" and "rte_ring_dequeue_burst rf r k = (xs, avail, r')"
  shows "xs = take k (contents r)" "contents r' = drop k (contents r)" "cap r' = cap r" "avail = length (contents r')"
  using assms unfolding rte_ring_ok_def by blast+

lemma create_ok:
  assumes "rte_ring_ok rf contents cap" and "rte_ring_create rf name count 0 = Some r"
  shows "contents r = []" "Suc (cap r) = count"
  using assms unfolding rte_ring_ok_def by blast+

lemma push_burst_ok:
  assumes "rte_ring_ok rf contents cap" and "push_burst rf ring xs = (n, ring')"
  shows "n = min (length xs) (cap (ring_ring ring) - length (contents (ring_ring ring)))"
    and "contents (ring_ring ring') = contents (ring_ring ring) @ take n xs"
    and "cap (ring_ring ring') = cap (ring_ring ring)"
    and "free_size ring' = cap (ring_ring ring') - length (contents (ring_ring ring'))"
proof -
  obtain fs r where "rte_ring_enqueue_burst rf (ring_ring ring) xs = (n, fs, r)"
    and r: "ring' = ring\<lparr>ring_ring := r, ring_free_space := fs\<rparr>"
    using assms(2) by (auto simp: push_burst_def Let_def split: prod.splits)
  note enq = enqueue_ok [OF assms(1) this(1)]
  show "n = min (length xs) (cap (ring_ring ring) - length (contents (ring_ring ring)))"
    by (rule enq(1))
  show "contents (ring_ring ring') = contents (ring_ring ring) @ take n xs"
    "cap (ring_ring ring') = cap (ring_ring ring)"
    "free_size ring' = cap (ring_ring ring') - length (contents (ring_ring ring'))"
    using enq(2-) by (simp_all add: r free_size_def)
qed

lemma pop_burst_ok:
  assumes "rte_ring_ok rf contents cap" and "pop_burst rf ring k = (xs, ring')"
  shows "xs = take k (contents (ring_ring ring))" "contents (ring_ring ring') = drop k (contents (ring_ring ring))"
    "cap (ring_ring ring') = cap (ring_ring ring)"
    and "free_size ring' = length (contents (ring_ring ring'))"
proof -
  obtain fs r where "rte_ring_dequeue_burst rf (ring_ring ring) k = (xs, fs, r)"
    and r: "ring' = ring\<lparr>ring_ring := r, ring_free_space := fs\<rparr>"
    using assms(2) by (auto simp: pop_burst_def Let_def split: prod.splits)
  note deq = dequeue_ok [OF assms(1) this(1)]
  show "xs = take k (contents (ring_ring ring))"
    by (rule deq(1))
  show "contents (ring_ring ring') = drop k (contents (ring_ring ring))"
    "cap (ring_ring ring') = cap (ring_ring ring)" "free_size ring' = length (contents (ring_ring ring'))"
    using deq(2-) by (simp_all add: r free_size_def)
qed

lemma drained_ok:
  assumes "rte_ring_ok rf contents cap"
  shows "contents (ring_ring (drained rf k ring)) = drop k (contents (ring_ring ring))"
    "cap (ring_ring (drained rf k ring)) = cap (ring_ring ring)"
proof -
  obtain xs n r where deq: "rte_ring_dequeue_burst rf (ring_ring ring) k = (xs, n, r)"
    by (metis prod_cases3)
  then show "contents (ring_ring (drained rf k ring)) = drop k (contents (ring_ring ring))"
    "cap (ring_ring (drained rf k ring)) = cap (ring_ring ring)"
    using dequeue_ok(2,3) [OF assms deq] by (simp_all add: drained_def)
qed

text \<open>A queue after some dequeues from its front and an enqueue at its end.\<close>

lemma drop_then_append: "\<exists>t'. drop t (drop k c @ xs) = drop t' (c @ xs)"
proof (cases "k \<le> length c")
  case True
  then have "drop k c @ xs = drop k (c @ xs)" by simp
  then show ?thesis by (simp only: drop_drop) blast
next
  case False
  then have "drop k c @ xs = drop (length c) (c @ xs)" by simp
  then show ?thesis by (simp only: drop_drop) blast
qed

text \<open>One attempt of either loop: the queue loses packets at its front and gains some of ours.\<close>

lemma attempt:
  assumes "rte_ring_ok rf contents cap" and "push_burst rf (drained rf k ring) pkts = (n, ring')"
  shows "\<exists>c. contents (ring_ring ring') = c @ take n pkts \<and> c = drop k (contents (ring_ring ring))"
    "cap (ring_ring ring') = cap (ring_ring ring)"
    "n = min (length pkts) (cap (ring_ring ring) - (length (contents (ring_ring ring)) - k))"
  using push_burst_ok [OF assms] drained_ok [OF assms(1), of k ring] by simp_all

section \<open>Sending\<close>

lemma push_all_empty: "push_all rf drain i ring [] = Some ring"
  by (simp add: push_all.simps)

lemma push_all_step:
  assumes "pkts \<noteq> []" and "push_burst rf (drained rf (drain i) ring) pkts = (n, ring')"
  shows "push_all rf drain i ring pkts = push_all rf drain (Suc i) ring' (drop n pkts)"
  using assms by (subst push_all.simps) simp

lemma push_all_returns:
  assumes ok: "rte_ring_ok rf contents cap" and live: "\<And>i. \<exists>j \<ge> i. 0 < drain j"
  shows "0 < cap (ring_ring ring) \<Longrightarrow> length (contents (ring_ring ring)) \<le> cap (ring_ring ring) \<Longrightarrow>
    \<exists>ring' t. push_all rf drain i ring pkts = Some ring' \<and>
      contents (ring_ring ring') = drop t (contents (ring_ring ring) @ pkts)"
proof (induction "length pkts" arbitrary: i ring pkts rule: less_induct)
  case less
  obtain j where "i \<le> j" "0 < drain j"
    using live by blast
  then show ?case
    using less.prems
  proof (induction "j - i" arbitrary: i ring rule: less_induct)
    case wait: less
    let ?c = "contents (ring_ring ring)"
    show ?case
    proof (cases "pkts = []")
      case True
      then show ?thesis by (auto simp: push_all_empty intro: exI [of _ 0])
    next
      case False
      obtain n ring1 where push: "push_burst rf (drained rf (drain i) ring) pkts = (n, ring1)"
        by fastforce
      note step = push_all_step [of pkts rf drain i ring n ring1, OF False push]
      note att = attempt [OF ok push]
      have inv: "0 < cap (ring_ring ring1)" "length (contents (ring_ring ring1)) \<le> cap (ring_ring ring1)"
        using att wait.prems by auto
      have "\<exists>ring' t. push_all rf drain (Suc i) ring1 (drop n pkts) = Some ring' \<and>
          contents (ring_ring ring') = drop t (contents (ring_ring ring1) @ drop n pkts)"
      proof (cases "n = 0")
        case True
        then have "drain i = 0"
          using att(3) False wait.prems by (auto simp: min_def split: if_splits)
        then have "i \<noteq> j" using wait.prems by auto
        with True wait.hyps [of "Suc i" ring1] wait.prems inv show ?thesis by simp
      next
        case False
        then show ?thesis
          using less.hyps [of "drop n pkts" ring1 "Suc i"] \<open>pkts \<noteq> []\<close> inv by simp
      qed
      moreover have joined: "contents (ring_ring ring1) @ drop n pkts = drop (drain i) ?c @ pkts"
        using att(1) by auto
      ultimately obtain ring' t where "push_all rf drain (Suc i) ring1 (drop n pkts) = Some ring'"
        "contents (ring_ring ring') = drop t (drop (drain i) ?c @ pkts)"
        unfolding joined by blast
      with drop_then_append [of t "drain i" ?c pkts] show ?thesis
        unfolding step by metis
    qed
  qed
qed

text \<open>
  C21: sending in pipeline mode returns, and loses nothing. If the ring has room for at least one
  packet and the transmit core keeps taking packets out, a burst of any length is accepted
  completely: the call returns its length, and the queue is what was queued before followed by the
  whole burst in order, less what the transmit core took from the front.
\<close>

theorem send_burst_returns:
  assumes "rte_ring_ok rf contents cap" and "\<forall>i. \<exists>j \<ge> i. 0 < drain j"
    and "nf_mode nf = Pipeline" and "pipeline_of nf = Some ps"
    and "0 < cap (ring_ring (ps_tx_ring ps))"
    and "length (contents (ring_ring (ps_tx_ring ps))) \<le> cap (ring_ring (ps_tx_ring ps))"
  shows "\<exists>ring t. send_burst rf ef drain nf d pkts =
      Some (length pkts, with_pipeline nf (ps\<lparr>ps_tx_ring := ring\<rparr>), d) \<and>
    contents (ring_ring ring) = drop t (contents (ring_ring (ps_tx_ring ps)) @ pkts)"
proof -
  have "\<And>i. \<exists>j \<ge> i. 0 < drain j"
    using assms(2) by blast
  from push_all_returns [OF assms(1) this assms(5,6)] obtain ring t where
    "push_all rf drain 0 (ps_tx_ring ps) pkts = Some ring"
    "contents (ring_ring ring) = drop t (contents (ring_ring (ps_tx_ring ps)) @ pkts)"
    by blast
  then show ?thesis
    using assms(3,4) by (auto simp: send_burst_def)
qed

text \<open>The list as a ring, with its capacity: an instance of the documented behaviour.\<close>

definition list_ring :: "(nat \<times> 'a list, 'a) ring_fns" where
  "list_ring = \<lparr>
     rte_ring_create = (\<lambda>name count flags. if count = 0 then None else Some (count - 1, [])),
     rte_ring_enqueue_burst = (\<lambda>(cap, q) xs. let n = min (length xs) (cap - length q); q' = q @ take n xs
        in (n, cap - length q', (cap, q'))),
     rte_ring_dequeue_burst = (\<lambda>(cap, q) k. (take k q, length (drop k q), (cap, drop k q)))\<rparr>"

lemma list_ring_ok: "rte_ring_ok list_ring snd fst"
  by (auto simp: rte_ring_ok_def list_ring_def Let_def split: if_splits)

definition ex_pipeline :: "nat \<Rightarrow> rte_mbuf list \<Rightarrow> rte_mbuf list \<Rightarrow> (nat \<times> rte_mbuf list) PipelineState" where
  "ex_pipeline cap rx tx = \<lparr>ps_rx_ring = \<lparr>ring_ring = (cap, rx), ring_free_space = 0\<rparr>,
     ps_tx_ring = \<lparr>ring_ring = (cap, tx), ring_free_space = 0\<rparr>, ps_stop = False, ps_tx_ring_full_sleep_us = 10\<rparr>"

definition ex_netif :: "nat \<Rightarrow> rte_mbuf list \<Rightarrow> rte_mbuf list \<Rightarrow> (nat \<times> rte_mbuf list) DpdkNetif" where
  "ex_netif cap rx tx = with_pipeline dpdk_netif (ex_pipeline cap rx tx)"

definition ex_pkt :: "nat \<Rightarrow> rte_mbuf" where
  "ex_pkt a = frame_mbuf a []"

lemma ex_netif_simps:
  "nf_mode (ex_netif cap rx tx) = Pipeline" "pipeline_of (ex_netif cap rx tx) = Some (ex_pipeline cap rx tx)"
  "nf_port_id (ex_netif cap rx tx) = 0"
  "ring_ring (ps_tx_ring (ex_pipeline cap rx tx)) = (cap, tx)" "ring_ring (ps_rx_ring (ex_pipeline cap rx tx)) = (cap, rx)"
  by (simp_all add: ex_netif_def ex_pipeline_def with_pipeline_def dpdk_netif_def pipeline_of_def)

definition ex_eth :: "rte_mbuf list eth_fns" where
  "ex_eth = \<lparr>rte_eth_rx_burst = (\<lambda>d port q n. (take (unat n) d, drop (unat n) d)),
     rte_eth_tx_burst = (\<lambda>d port q pkts. (length pkts, d))\<rparr>"

theorem send_burst_returns_witness:
  "\<exists>nf'. send_burst list_ring ex_eth (\<lambda>_. 1) (ex_netif 1 [] [ex_pkt 7]) [] [ex_pkt 8, ex_pkt 9] = Some (2, nf', [])"
proof -
  have "\<forall>i :: nat. \<exists>j \<ge> i. 0 < (1 :: nat)" by auto
  from send_burst_returns [OF list_ring_ok this, of "ex_netif 1 [] [ex_pkt 7]" "ex_pipeline 1 [] [ex_pkt 7]" ex_eth "[]"
      "[ex_pkt 8, ex_pkt 9]"]
  show ?thesis
    by (auto simp: ex_netif_simps numeral_2_eq_2)
qed

lemma push_all_needs_room:
  assumes ok: "rte_ring_ok rf contents cap" and idle: "\<And>i. drain i = 0"
    and ret: "push_all rf drain i ring pkts = Some ring'"
  shows "length (contents (ring_ring ring)) + length pkts \<le> cap (ring_ring ring) \<or> pkts = []"
  using ret ok idle
proof (induction rf drain i ring pkts ring' rule: push_all.raw_induct [rotated, consumes 1, case_names step])
  case (step loop rf drain i ring pkts ring')
  show ?case
  proof (cases "pkts = []")
    case False
    obtain n ring1 where push: "push_burst rf (drained rf (drain i) ring) pkts = (n, ring1)"
      by fastforce
    note att = attempt [OF step.prems(1) push]
    have "loop rf drain (Suc i) ring1 (drop n pkts) = Some ring'"
      using step.hyps False push by (auto split: if_splits)
    from step.IH [OF this step.prems] show ?thesis
      using att step.prems(2) False length_greater_0_conv [of pkts]
      by (auto simp: min_def simp del: length_greater_0_conv split: if_splits)
  qed simp
qed

text \<open>
  Without a transmit core sending can hang: if nothing takes packets out of the ring and the
  burst does not fit the space left, the call never returns.
\<close>

theorem send_burst_hangs:
  assumes "rte_ring_ok rf contents cap" and "nf_mode nf = Pipeline" and "pipeline_of nf = Some ps"
    and "pkts \<noteq> []"
    and "cap (ring_ring (ps_tx_ring ps)) < length (contents (ring_ring (ps_tx_ring ps))) + length pkts"
  shows "send_burst rf ef (\<lambda>_. 0) nf d pkts = None"
proof -
  have "push_all rf (\<lambda>_. 0) 0 (ps_tx_ring ps) pkts = None"
    using push_all_needs_room [OF assms(1), of "\<lambda>_. 0" 0 "ps_tx_ring ps" pkts] assms(4,5)
    by (cases "push_all rf (\<lambda>_. 0) 0 (ps_tx_ring ps) pkts") auto
  then show ?thesis
    using assms(2,3) by (simp add: send_burst_def)
qed

theorem send_burst_hangs_witness:
  "send_burst list_ring ex_eth (\<lambda>_. 0) (ex_netif 1 [] [ex_pkt 7]) [] [ex_pkt 8] = None"
  by (rule send_burst_hangs [OF list_ring_ok, of _ "ex_pipeline 1 [] [ex_pkt 7]"]) (simp_all add: ex_netif_simps)

section \<open>Receiving\<close>

lemma push_or_free_splits:
  assumes ok: "rte_ring_ok rf contents cap" and "push_or_free rf drain i ring pkts = (freed, ring')"
  shows "\<exists>k t. freed = drop k pkts \<and> contents (ring_ring ring') = drop t (contents (ring_ring ring) @ take k pkts)"
  using assms(2)
proof (induction "length pkts" arbitrary: i ring pkts rule: less_induct)
  case less
  show ?case
  proof (cases "pkts = []")
    case True
    then have "ring' = ring" "freed = []"
      using less.prems by (simp_all add: push_or_free.simps)
    with True show ?thesis by (auto intro: exI [of _ 0])
  next
    case False
    obtain n ring1 where push: "push_burst rf (drained rf (drain i) ring) pkts = (n, ring1)"
      by fastforce
    note att = attempt [OF ok push]
    show ?thesis
    proof (cases "n = 0")
      case True
      then have "freed = pkts" "ring' = ring1"
        using less.prems False push by (simp_all add: push_or_free.simps)
      with True att(1) show ?thesis by (intro exI [of _ 0] exI [of _ "drain i"]) auto
    next
      case n: False
      then have "push_or_free rf drain (Suc i) ring1 (drop n pkts) = (freed, ring')"
        using less.prems False push by (simp add: push_or_free.simps)
      moreover have "length (drop n pkts) < length pkts"
        using n False by (cases pkts) auto
      ultimately obtain k t where
        "freed = drop k (drop n pkts)"
        "contents (ring_ring ring') = drop t (contents (ring_ring ring1) @ take k (drop n pkts))"
        using less.hyps by blast
      moreover have "contents (ring_ring ring1) @ take k (drop n pkts) =
          drop (drain i) (contents (ring_ring ring)) @ take (n + k) pkts"
        using att(1) by (auto simp: take_add)
      ultimately show ?thesis
        using drop_then_append [of t "drain i" "contents (ring_ring ring)" "take (n + k) pkts"]
        by (metis add.commute drop_drop)
    qed
  qed
qed

text \<open>
  The receive core neither loses nor duplicates a packet: of what the device delivered, a
  prefix goes to the end of the receive queue in order, and exactly the rest is freed; the worker
  may take packets from the front at the same time.
\<close>

theorem nic_recv_splits_burst:
  assumes "rte_ring_ok rf contents cap" and "pipeline_of nf = Some ps"
    and "rx_burst ef d (nf_port_id nf) 0 32 = (pkts, d1)"
  shows "\<exists>k t ring. nic_recv rf ef drain nf d =
      Some (drop k pkts, with_pipeline nf (ps\<lparr>ps_rx_ring := ring\<rparr>), d1) \<and>
    contents (ring_ring ring) = drop t (contents (ring_ring (ps_rx_ring ps)) @ take k pkts)"
proof (cases "pkts = []")
  case True
  then have "nic_recv rf ef drain nf d = Some ([], with_pipeline nf (ps\<lparr>ps_rx_ring := ps_rx_ring ps\<rparr>), d1)"
    using assms(2,3) by (simp add: nic_recv_def DPDK_rx_queue_num_def IO_RX_BURST_def)
  with True show ?thesis by (intro exI [of _ 0] exI [of _ "ps_rx_ring ps"]) auto
next
  case False
  obtain freed ring where pf: "push_or_free rf drain 0 (ps_rx_ring ps) pkts = (freed, ring)"
    by fastforce
  then have "nic_recv rf ef drain nf d = Some (freed, with_pipeline nf (ps\<lparr>ps_rx_ring := ring\<rparr>), d1)"
    using assms(2,3) False by (simp add: nic_recv_def DPDK_rx_queue_num_def IO_RX_BURST_def)
  with push_or_free_splits [OF assms(1) pf] show ?thesis by auto
qed

theorem nic_recv_splits_burst_witness:
  "\<exists>k ring. nic_recv list_ring ex_eth (\<lambda>_. 0) (ex_netif 1 [] []) [ex_pkt 1, ex_pkt 2] =
     Some (drop k [ex_pkt 1, ex_pkt 2], with_pipeline (ex_netif 1 [] []) ((ex_pipeline 1 [] [])\<lparr>ps_rx_ring := ring\<rparr>), [])"
  using nic_recv_splits_burst [OF list_ring_ok, of "ex_netif 1 [] []" "ex_pipeline 1 [] []" ex_eth
      "[ex_pkt 1, ex_pkt 2]" "[ex_pkt 1, ex_pkt 2]" "[]" "\<lambda>_. 0"]
  by (auto simp: ex_netif_simps rx_burst_def ex_eth_def)

section \<open>A full burst does not fit an empty ring\<close>

lemma fresh_netif:
  assumes "rte_ring_ok rf contents cap"
    and "netif_init rf port datapath_config_defaults dpdk_netif = Done (fr, nf)"
  shows "\<exists>ps. pipeline_of nf = Some ps \<and> nf_mode nf = Pipeline \<and> nf_port_id nf = port \<and>
    contents (ring_ring (ps_rx_ring ps)) = [] \<and> cap (ring_ring (ps_rx_ring ps)) = 31 \<and>
    contents (ring_ring (ps_tx_ring ps)) = [] \<and> cap (ring_ring (ps_tx_ring ps)) = 31"
proof -
  obtain r1 r2 where c: "rte_ring_create rf (RX_RING_NAME (uint port)) 32 0 = Some r1"
    "rte_ring_create rf (TX_RING_NAME (uint port)) 32 0 = Some r2"
    and nf: "nf = (dpdk_netif :: 'a DpdkNetif)\<lparr>nf_mode := Pipeline, nf_port_id := port, nf_queue_id := 0,
      nf_state := Some (ns_pipeline \<lparr>ps_rx_ring = \<lparr>ring_ring = r1, ring_free_space = 32\<rparr>,
        ps_tx_ring = \<lparr>ring_ring = r2, ring_free_space = 32\<rparr>, ps_stop = False, ps_tx_ring_full_sleep_us = 10\<rparr>)\<rparr>"
    using assms(2)
    by (auto simp: netif_init_def reset_state_def make_ring_def dpdk_netif_def datapath_config_defaults_def
        datapath_config_def IO_RING_SIZE_def IO_RING_FLAGS_def IO_TX_RING_FULL_SLEEP_US_def Let_def split: option.splits)
  show ?thesis
    using create_ok [OF assms(1) c(1)] create_ok [OF assms(1) c(2)] by (simp add: nf pipeline_of_def)
qed

text \<open>
  With the default ring size the first full burst loses a packet although the ring is empty:
  the ring is created with 32 slots of which 31 are usable, a burst is 32 packets, and unless the
  worker takes a packet between the two attempts the last one is freed.
\<close>

theorem full_burst_loses_a_packet:
  assumes "rte_ring_ok rf contents cap"
    and "netif_init rf port datapath_config_defaults dpdk_netif = Done (fr, nf)"
    and "rx_burst ef d port 0 32 = (pkts, d1)" and "length pkts = 32"
  shows "\<exists>nf'. nic_recv rf ef (\<lambda>_. 0) nf d = Some ([last pkts], nf', d1)"
proof -
  obtain ps where ps: "pipeline_of nf = Some ps" "nf_port_id nf = port"
    "contents (ring_ring (ps_rx_ring ps)) = []" "cap (ring_ring (ps_rx_ring ps)) = 31"
    using fresh_netif [OF assms(1,2)] by blast
  obtain n1 ring1 where p1: "push_burst rf (drained rf 0 (ps_rx_ring ps)) pkts = (n1, ring1)" by fastforce
  note a1 = attempt [OF assms(1) p1]
  have n1: "n1 = 31" using a1(3) ps(3,4) assms(4) by simp
  obtain n2 ring2 where p2: "push_burst rf (drained rf 0 ring1) (drop n1 pkts) = (n2, ring2)" by fastforce
  have n2: "n2 = 0" using attempt(3) [OF assms(1) p2] a1 ps(3,4) assms(4) n1 by auto
  have "drop n1 pkts = [last pkts]"
    using assms(4) n1 by (cases pkts rule: rev_cases) auto
  then have "push_or_free rf (\<lambda>_. 0) 0 (ps_rx_ring ps) pkts = ([last pkts], ring2)"
    using p1 p2 n1 n2 assms(4) by (subst push_or_free.simps) (auto simp: push_or_free.simps)
  moreover have "pkts \<noteq> []" using assms(4) by auto
  ultimately show ?thesis
    using ps(1,2) assms(3) by (simp add: nic_recv_def DPDK_rx_queue_num_def IO_RX_BURST_def)
qed

theorem full_burst_loses_a_packet_witness:
  "\<exists>nf nf'. netif_init list_ring 0 datapath_config_defaults dpdk_netif = Done ([], nf) \<and>
     nic_recv list_ring ex_eth (\<lambda>_. 0) nf (map ex_pkt [0..<32]) = Some ([ex_pkt 31], nf', [])"
proof -
  obtain nf :: "(nat \<times> rte_mbuf list) DpdkNetif" where
    nf: "netif_init list_ring 0 datapath_config_defaults dpdk_netif = Done ([], nf)"
    by (simp add: netif_init_def reset_state_def make_ring_def dpdk_netif_def datapath_config_defaults_def
        list_ring_def IO_RING_SIZE_def Let_def)
  have "rx_burst ex_eth (map ex_pkt [0..<32]) 0 0 32 = (map ex_pkt [0..<32], [])"
    by (simp add: rx_burst_def ex_eth_def)
  from full_burst_loses_a_packet [OF list_ring_ok nf this] nf show ?thesis
    by (auto simp: last_map)
qed

section \<open>The loops of the I/O cores\<close>

lemma run_io_ends:
  "\<forall>m < n. \<not> stop (i + m) \<Longrightarrow> stop (i + n) \<Longrightarrow> run_io stop body i s = Some ((body ^^ n) s)"
proof (induction n arbitrary: i s)
  case 0
  then show ?case by (simp add: run_io.simps)
next
  case (Suc n)
  then have "\<not> stop i" by force
  moreover have "\<forall>m < n. \<not> stop (Suc i + m)" "stop (Suc i + n)"
    using Suc.prems by (auto dest: spec [of _ "Suc _"])
  ultimately show ?case
    using Suc.IH [of "Suc i" "body s"] by (subst run_io.simps) (simp add: funpow_swap1)
qed

lemma run_io_stopped: "run_io stop body i s = Some s' \<Longrightarrow> \<exists>j. stop j"
proof (induction stop body i s s' rule: run_io.raw_induct [rotated, consumes 1, case_names step])
  case (step loop stop body i s s')
  then show ?case by (cases "stop i") auto
qed

lemma run_io_iff:
  "run_io stop body 0 s = (if \<exists>n. stop n then Some ((body ^^ (LEAST n. stop n)) s) else None)"
proof (cases "\<exists>n. stop n")
  case True
  then have stop: "stop (LEAST n. stop n)"
    by (rule LeastI_ex)
  moreover have "\<forall>m < LEAST n. stop n. \<not> stop m"
    using not_less_Least by blast
  ultimately have "run_io stop body 0 s = Some ((body ^^ (LEAST n. stop n)) s)"
    using run_io_ends [of "LEAST n. stop n" stop 0 body s] by (simp only: add_0)
  with True show ?thesis
    by (simp only: if_True)
next
  case False
  then have "run_io stop body 0 s = None"
    using run_io_stopped [of stop body 0 s] by (cases "run_io stop body 0 s") blast+
  with False show ?thesis
    by (simp only: if_False)
qed

text \<open>
  The loops of the I/O cores end exactly when they read the stop flag set, after one turn for
  every earlier reading.
\<close>

theorem io_loops_end_iff_stopped:
  "run_recv rf ef drain stop nf d =
     (if \<exists>n. stop n then Some ((recv_turn rf ef drain ^^ (LEAST n. stop n)) (Some ([], nf, d))) else None) \<and>
   run_send rf ef stop nf d =
     (if \<exists>n. stop n then Some ((send_turn rf ef ^^ (LEAST n. stop n)) (Some ([], nf, d))) else None)"
  by (simp add: run_recv_def run_send_def run_io_iff)

end
