(* ===== verification/Netif_Manager.thy ===== *)
theory Netif_Manager
  imports Netif
begin

text \<open>
  Start-up of packet I/O, \<open>src/src/dpdk/netif.{hpp,cpp}\<close>: the environment and the ports
  (\<open>dpdk::init\<close>), and the manager that creates one interface per port and launches the I/O
  loops. The DPDK calls are parameters, collected in \<open>dev_fns\<close>; the calls that configure a device
  are recorded in the order they are made. The mutex of the manager only orders whole calls.
\<close>

section \<open>Environment and ports\<close>

record dev_fns =
  RTE_MBUF_DEFAULT_BUF_SIZE :: nat
  rte_eal_init :: "string list \<Rightarrow> int"
  rte_pktmbuf_pool_create :: "u16 \<Rightarrow> u32 \<Rightarrow> u32 \<Rightarrow> nat \<Rightarrow> bool"
  rte_eth_dev_count_avail :: nat
  eth_devs :: "u16 list"
  rte_eth_dev_info_get :: "u16 \<Rightarrow> int"
  rte_eth_dev_configure :: "u16 \<Rightarrow> nat \<Rightarrow> nat \<Rightarrow> int"
  rte_eth_dev_adjust_nb_rx_tx_desc :: "u16 \<Rightarrow> u16 \<Rightarrow> u16 \<Rightarrow> int \<times> u16 \<times> u16"
  rte_eth_macaddr_get :: "u16 \<Rightarrow> rte_ether_addr"
  rte_eth_rx_queue_setup :: "u16 \<Rightarrow> nat \<Rightarrow> u16 \<Rightarrow> int"
  rte_eth_tx_queue_setup :: "u16 \<Rightarrow> nat \<Rightarrow> u16 \<Rightarrow> int"
  rte_eth_dev_start :: "u16 \<Rightarrow> int"
  rte_eth_link_get :: "nat \<Rightarrow> u16 \<Rightarrow> int \<times> bool"

datatype dev_call = Configure u16 | RxSetup u16 nat u16 | TxSetup u16 nat u16 | Start u16 | Promiscuous u16

record dpdk_state =
  ds_mempool :: bool
  ds_ether_addr :: "u16 \<Rightarrow> rte_ether_addr"
  ds_nb_rx_desc :: u16
  ds_nb_tx_desc :: u16
  ds_calls :: "dev_call list"

definition init_rx_queue :: "dev_fns \<Rightarrow> u16 \<Rightarrow> nat \<Rightarrow> dpdk_state \<Rightarrow> dpdk_state exec" where
  "init_rx_queue df port queue_id s =
     (if rte_eth_rx_queue_setup df port queue_id DPDK_nb_rx_queue_desc < 0 then Exits rx_queue_failed
      else Done (s\<lparr>ds_calls := ds_calls s @ [RxSetup port queue_id DPDK_nb_rx_queue_desc]\<rparr>))"

definition init_tx_queue :: "dev_fns \<Rightarrow> u16 \<Rightarrow> nat \<Rightarrow> dpdk_state \<Rightarrow> dpdk_state exec" where
  "init_tx_queue df port queue_id s =
     (if rte_eth_tx_queue_setup df port queue_id DPDK_nb_tx_queue_desc < 0 then Exits tx_queue_failed
      else Done (s\<lparr>ds_calls := ds_calls s @ [TxSetup port queue_id DPDK_nb_tx_queue_desc]\<rparr>))"

primrec for_each :: "('i \<Rightarrow> 's \<Rightarrow> 's exec) \<Rightarrow> 'i list \<Rightarrow> 's \<Rightarrow> 's exec" where
  "for_each body [] s = Done s"
| "for_each body (i # is) s = and_then (body i s) (for_each body is)"

text \<open>Device numbers are below \<open>RTE_MAX_ETHPORTS\<close>, 32, so the shift of the mask is defined.\<close>

definition port_enabled :: "u32 \<Rightarrow> u16 \<Rightarrow> bool" where
  "port_enabled port_mask p \<longleftrightarrow> bit port_mask (unat p)"

definition setup_port :: "dev_fns \<Rightarrow> u32 \<Rightarrow> u16 \<Rightarrow> dpdk_state \<Rightarrow> dpdk_state exec" where
  "setup_port df port_mask p s =
     (if \<not> port_enabled port_mask p then Done s
      else if rte_eth_dev_info_get df p < 0 then Exits dev_info_failed
      else if rte_eth_dev_configure df p DPDK_rx_queue_num DPDK_tx_queue_num < 0 then Exits dev_configure_failed
      else case rte_eth_dev_adjust_nb_rx_tx_desc df p (ds_nb_rx_desc s) (ds_nb_tx_desc s) of (ret, rx, tx) \<Rightarrow>
        if ret < 0 then Exits desc_adjust_failed
        else
          let s1 = s\<lparr>ds_calls := ds_calls s @ [Configure p], ds_nb_rx_desc := rx, ds_nb_tx_desc := tx,
                     ds_ether_addr := (ds_ether_addr s)(p := rte_eth_macaddr_get df p)\<rparr>
          in and_then (for_each (init_rx_queue df p) [0..<DPDK_rx_queue_num] s1) (\<lambda>s2.
             and_then (for_each (init_tx_queue df p) [0..<DPDK_tx_queue_num] s2) (\<lambda>s3.
               if rte_eth_dev_start df p < 0 then Exits dev_start_failed
               else Done (s3\<lparr>ds_calls := ds_calls s3 @ [Start p, Promiscuous p]\<rparr>))))"

definition port_init :: "dev_fns \<Rightarrow> u32 \<Rightarrow> dpdk_state \<Rightarrow> dpdk_state exec" where
  "port_init df port_mask s =
     (if rte_eth_dev_count_avail df = 0 then Exits no_eth_found
      else for_each (setup_port df port_mask) (eth_devs df) s)"

definition check_link_status :: "dev_fns \<Rightarrow> nat \<Rightarrow> u32 \<Rightarrow> bool" where
  "check_link_status df attempt port_mask \<longleftrightarrow>
     list_ex (\<lambda>p. port_enabled port_mask p \<and>
       (case rte_eth_link_get df attempt p of (ret, up) \<Rightarrow> \<not> ret < 0 \<and> up)) (eth_devs df)"

abbreviation (input) "kLinkCheckAttempts \<equiv> (4::nat)"

function link_ok :: "dev_fns \<Rightarrow> u32 \<Rightarrow> nat \<Rightarrow> bool" where
  "link_ok df port_mask attempt =
     (if attempt \<le> kLinkCheckAttempts then
        if check_link_status df attempt port_mask then True
        else if attempt = kLinkCheckAttempts then False
        else link_ok df port_mask (attempt + 1)
      else False)"
  by pat_completeness auto
termination
  by (relation "measure (\<lambda>(df, mask, attempt). 5 - attempt)") auto

declare link_ok.simps [simp del]

definition effective_mask :: "u32 \<Rightarrow> u32" where
  "effective_mask port_mask = (if port_mask \<noteq> 0 then port_mask else DPDK_vaild_port_marks)"

definition dpdk_init :: "dev_fns \<Rightarrow> string list \<Rightarrow> nat \<Rightarrow> u32 \<Rightarrow> dpdk_state \<Rightarrow> dpdk_state exec" where
  "dpdk_init df argv mbuf_buf_size port_mask s =
     (if rte_eal_init df argv < 0 then Exits eal_init_failed
      else
        let pool_buf_size = (if mbuf_buf_size > 0 then mbuf_buf_size else RTE_MBUF_DEFAULT_BUF_SIZE df)
        in if \<not> rte_pktmbuf_pool_create df DPDK_mempool_block_num DPDK_mempool_cache_size
               DPDK_mempool_private_size pool_buf_size then Exits pool_create_failed
           else
             let em = effective_mask port_mask
             in and_then (port_init df em (s\<lparr>ds_mempool := True\<rparr>)) (\<lambda>s1.
                  if link_ok df em 1 then Done s1 else Exits link_check_failed))"

section \<open>The manager\<close>

record 'r DpdkNetifManager =
  mg_netifs :: "int \<rightharpoonup> 'r DpdkNetif"
  mg_cfg :: DatapathConfig

definition netif_manager :: "'r DpdkNetifManager" where
  "netif_manager = \<lparr>mg_netifs = Map.empty, mg_cfg = datapath_config\<rparr>"

record IoOptions =
  io_rx_lcore :: bool
  io_tx_lcore :: bool
  io_ring_size :: u16

datatype launch = LaunchRecv u16 nat | LaunchSend u16 nat

record 'r ports_state =
  po_netifs :: "int \<rightharpoonup> 'r DpdkNetif"
  po_rx_id :: nat
  po_tx_id :: nat
  po_cnt :: nat
  po_launches :: "launch list"

text \<open>
  The launches for one port and the step to the next pair of cores. The result of
  \<open>rte_eal_remote_launch\<close> is not looked at. \<open>next_lcore i\<close> is
  \<open>rte_get_next_lcore(i, true, false)\<close>.
\<close>

definition launch_port :: "(nat \<Rightarrow> nat) \<Rightarrow> DatapathConfig \<Rightarrow> nat \<Rightarrow> 'r ports_state \<Rightarrow> 'r ports_state exec" where
  "launch_port next_lcore cfg i s =
     (if dc_mode cfg = Pipeline then
        (case dc_u cfg of
           u_rtc _ \<Rightarrow> Undef
         | u_pipeline p \<Rightarrow>
             let s2 = s\<lparr>po_launches := po_launches s @
                   (if pp_launch_rx_lcore p then [LaunchRecv (word_of_nat i) (po_rx_id s)] else []) @
                   (if pp_launch_tx_lcore p then [LaunchSend (word_of_nat i) (po_tx_id s)] else []),
                   po_cnt := po_cnt s + 1\<rparr>
             in if po_cnt s2 = IO_PORTS_PER_RXTX_LCORE_PAIR
                then let rx = next_lcore (po_tx_id s2)
                     in Done (s2\<lparr>po_cnt := 0, po_rx_id := rx, po_tx_id := next_lcore rx\<rparr>)
                else Done s2)
      else Done s)"

text \<open>One round of the loop over the ports. \<open>insert\<close> keeps an interface that is already there.\<close>

definition add_port ::
    "('r, 'a) ring_fns \<Rightarrow> (nat \<Rightarrow> nat) \<Rightarrow> DatapathConfig \<Rightarrow> nat \<Rightarrow> 'r ports_state \<Rightarrow> 'r ports_state exec" where
  "add_port rf next_lcore cfg i s =
     (if \<not> bit (dc_port_mask cfg) i then Done s
      else and_then (netif_init rf (word_of_nat i) cfg dpdk_netif) (\<lambda>(freed, netif).
        launch_port next_lcore cfg i
          (if po_netifs s (int i) = None then s\<lparr>po_netifs := (po_netifs s)(int i \<mapsto> netif)\<rparr> else s)))"

definition add_ports ::
    "('r, 'a) ring_fns \<Rightarrow> (nat \<Rightarrow> nat) \<Rightarrow> DatapathConfig \<Rightarrow> nat \<Rightarrow> nat \<Rightarrow> 'r DpdkNetifManager \<Rightarrow>
     ('r DpdkNetifManager \<times> launch list) exec" where
  "add_ports rf next_lcore cfg rx_id tx_id mg =
     and_then (for_each (add_port rf next_lcore cfg) [0..<32]
       \<lparr>po_netifs = mg_netifs mg, po_rx_id = rx_id, po_tx_id = tx_id, po_cnt = 0, po_launches = []\<rparr>)
       (\<lambda>s. Done (mg\<lparr>mg_cfg := cfg, mg_netifs := po_netifs s\<rparr>, po_launches s))"

definition manager_init ::
    "('r, 'a) ring_fns \<Rightarrow> (nat \<Rightarrow> nat) \<Rightarrow> nat \<Rightarrow> DatapathConfig \<Rightarrow> 'r DpdkNetifManager \<Rightarrow>
     ('r DpdkNetifManager \<times> launch list) exec" where
  "manager_init rf next_lcore lcore_id cfg mg =
     (case (dc_mode cfg, dc_u cfg) of
        (Rtc, u_pipeline _) \<Rightarrow> Undef
      | (Rtc, u_rtc rtc) \<Rightarrow>
          if resolve_rtc_path rtc False \<noteq> PathDirect then Exits rtc_multi_worker
          else add_ports rf next_lcore cfg 0 0 mg
      | (Pipeline, _) \<Rightarrow>
          let rx_id = next_lcore lcore_id
          in add_ports rf next_lcore cfg rx_id (next_lcore rx_id) mg)"

definition manager_init_default where
  "manager_init_default rf next_lcore lcore_id mg = manager_init rf next_lcore lcore_id datapath_config_defaults mg"

definition manager_init_opts where
  "manager_init_opts rf next_lcore lcore_id opts mg =
     (let cfg = datapath_config_defaults
      in case dc_u cfg of
           u_rtc _ \<Rightarrow> Undef
         | u_pipeline p \<Rightarrow> manager_init rf next_lcore lcore_id
             (cfg\<lparr>dc_u := u_pipeline (p\<lparr>pp_ring_size := io_ring_size opts, pp_launch_rx_lcore := io_rx_lcore opts,
               pp_launch_tx_lcore := io_tx_lcore opts\<rparr>)\<rparr>) mg)"

text \<open>An interface of the manager in pipeline mode always has its pipeline state live.\<close>

definition stop_netif :: "'r DpdkNetif \<Rightarrow> 'r DpdkNetif" where
  "stop_netif nf =
     (if nf_mode nf = Pipeline
      then (case pipeline_of nf of Some ps \<Rightarrow> with_pipeline nf (ps\<lparr>ps_stop := True\<rparr>) | None \<Rightarrow> nf)
      else nf)"

definition manager_stop :: "'r DpdkNetifManager \<Rightarrow> 'r DpdkNetifManager" where
  "manager_stop mg = mg\<lparr>mg_netifs := (\<lambda>p. map_option stop_netif (mg_netifs mg p))\<rparr>"

definition get_netif :: "'r DpdkNetifManager \<Rightarrow> int \<Rightarrow> 'r DpdkNetif option" where
  "get_netif mg port = mg_netifs mg port"

section \<open>What start-up does to the devices\<close>

definition port_calls :: "u16 \<Rightarrow> dev_call list" where
  "port_calls p = [Configure p, RxSetup p 0 512, TxSetup p 0 512, Start p, Promiscuous p]"

lemma and_then_Done: "and_then r f = Done y \<longleftrightarrow> (\<exists>x. r = Done x \<and> f x = Done y)"
  by (cases r) auto

lemma setup_port_done:
  "setup_port df m p s = Done s' \<Longrightarrow> port_enabled m p \<Longrightarrow>
   ds_calls s' = ds_calls s @ port_calls p \<and> ds_mempool s' = ds_mempool s \<and>
   ds_ether_addr s' = (ds_ether_addr s)(p := rte_eth_macaddr_get df p)"
  by (auto simp: setup_port_def init_rx_queue_def init_tx_queue_def Let_def DPDK_rx_queue_num_def
      DPDK_tx_queue_num_def DPDK_nb_rx_queue_desc_def DPDK_nb_tx_queue_desc_def and_then_Done port_calls_def
      split: prod.splits if_splits)

lemma setup_ports_done:
  "for_each (setup_port df m) ps s = Done s' \<Longrightarrow>
   ds_calls s' = ds_calls s @ concat (map port_calls (filter (port_enabled m) ps)) \<and> ds_mempool s' = ds_mempool s \<and>
   (\<forall>p \<in> set ps. port_enabled m p \<longrightarrow> ds_ether_addr s' p = rte_eth_macaddr_get df p) \<and>
   (\<forall>p. p \<notin> set ps \<or> \<not> port_enabled m p \<longrightarrow> ds_ether_addr s' p = ds_ether_addr s p)"
proof (induction ps arbitrary: s)
  case (Cons p ps)
  then obtain s1 where s1: "setup_port df m p s = Done s1" "for_each (setup_port df m) ps s1 = Done s'"
    by (auto simp: and_then_Done)
  note ih = Cons.IH [OF s1(2)]
  show ?case
  proof (cases "port_enabled m p")
    case True
    with setup_port_done [OF s1(1)] ih show ?thesis by auto
  next
    case False
    then have "s1 = s" using s1(1) by (simp add: setup_port_def)
    with False ih show ?thesis by auto
  qed
qed simp

lemma link_ok_iff: "link_ok df m a \<longleftrightarrow> (\<exists>b \<in> {a..4}. check_link_status df b m)"
proof (induction df m a rule: link_ok.induct)
  case (1 df m a)
  show ?case
  proof (cases "a < 4")
    case True
    then have "{a..4} = insert a {Suc a..4}" by auto
    with 1 True show ?thesis by (subst link_ok.simps) simp
  next
    case False
    then show ?thesis by (subst link_ok.simps) (auto simp: le_antisym)
  qed
qed

lemma dpdk_init_facts:
  assumes "dpdk_init df argv sz pm s = Done s'"
  shows "(\<exists>a \<in> {1..4}. check_link_status df a (effective_mask pm)) \<and> ds_mempool s' \<and>
    ds_calls s' = ds_calls s @ concat (map port_calls (filter (port_enabled (effective_mask pm)) (eth_devs df))) \<and>
    (\<forall>p \<in> set (eth_devs df). port_enabled (effective_mask pm) p \<longrightarrow> ds_ether_addr s' p = rte_eth_macaddr_get df p)"
proof -
  have "for_each (setup_port df (effective_mask pm)) (eth_devs df) (s\<lparr>ds_mempool := True\<rparr>) = Done s'"
    and link: "link_ok df (effective_mask pm) 1"
    using assms by (auto simp: dpdk_init_def port_init_def Let_def and_then_Done split: if_splits)
  from setup_ports_done [OF this(1)] link [unfolded link_ok_iff] show ?thesis
    by auto
qed

text \<open>
  C28: start-up succeeds only with a link. When \<open>dpdk::init\<close> returns, one of its at most four link
  checks found a link up on an enabled port; the enabled ports, and no others, were configured in
  order, each with one receive and one transmit queue of 512 descriptors whatever the device
  adjusted the numbers to, then started and made promiscuous; and their hardware addresses are
  recorded.
\<close>

theorem dpdk_init_sets_up_ports:
  assumes "dpdk_init df argv sz pm s = Done s'"
  shows "(\<exists>a \<in> {1..4}. check_link_status df a (effective_mask pm)) \<and> ds_mempool s' \<and>
    ds_calls s' = ds_calls s @ concat (map port_calls (filter (port_enabled (effective_mask pm)) (eth_devs df))) \<and>
    (\<forall>p \<in> set (eth_devs df). port_enabled (effective_mask pm) p \<longrightarrow> ds_ether_addr s' p = rte_eth_macaddr_get df p)"
  using assms by (rule dpdk_init_facts)

definition ex_dev :: dev_fns where
  "ex_dev = \<lparr>RTE_MBUF_DEFAULT_BUF_SIZE = 2176, rte_eal_init = (\<lambda>argv. 0), rte_pktmbuf_pool_create = (\<lambda>n c p b. True),
     rte_eth_dev_count_avail = 2, eth_devs = [0, 1], rte_eth_dev_info_get = (\<lambda>p. 0),
     rte_eth_dev_configure = (\<lambda>p r t. 0), rte_eth_dev_adjust_nb_rx_tx_desc = (\<lambda>p r t. (0, 256, 256)),
     rte_eth_macaddr_get = (\<lambda>p. MAC 2 0 0 0 0 (ucast p)), rte_eth_rx_queue_setup = (\<lambda>p q n. 0),
     rte_eth_tx_queue_setup = (\<lambda>p q n. 0), rte_eth_dev_start = (\<lambda>p. 0),
     rte_eth_link_get = (\<lambda>a p. (0, a = 3))\<rparr>"

definition ex_dpdk :: dpdk_state where
  "ex_dpdk = \<lparr>ds_mempool = False, ds_ether_addr = (\<lambda>_. MAC 0 0 0 0 0 0), ds_nb_rx_desc = 512, ds_nb_tx_desc = 512, ds_calls = []\<rparr>"

lemma ex_dev_init: "\<exists>s'. dpdk_init ex_dev argv 0 1 s = Done s'"
proof -
  have link: "link_ok ex_dev 1 1"
    by (subst link_ok_iff) (auto simp: check_link_status_def ex_dev_def port_enabled_def intro: bexI [of _ 3])
  show ?thesis
    using link [unfolded ex_dev_def]
    by (simp add: ex_dev_def dpdk_init_def port_init_def effective_mask_def DPDK_vaild_port_marks_def setup_port_def
        port_enabled_def init_rx_queue_def init_tx_queue_def DPDK_rx_queue_num_def DPDK_tx_queue_num_def Let_def)
qed

theorem dpdk_init_sets_up_ports_witness:
  "\<exists>s'. dpdk_init ex_dev [] 0 1 ex_dpdk = Done s' \<and> ds_calls s' = port_calls 0 \<and> ds_ether_addr s' 0 = MAC 2 0 0 0 0 0"
proof -
  obtain s' where s': "dpdk_init ex_dev [] 0 1 ex_dpdk = Done s'"
    using ex_dev_init by blast
  from dpdk_init_sets_up_ports [OF this] show ?thesis
    using s' by (auto simp: effective_mask_def DPDK_vaild_port_marks_def port_enabled_def ex_dev_def ex_dpdk_def)
qed

section \<open>One interface per port\<close>

definition cfg_wf :: "DatapathConfig \<Rightarrow> bool" where
  "cfg_wf cfg \<longleftrightarrow> (case dc_u cfg of u_pipeline _ \<Rightarrow> dc_mode cfg = Pipeline | u_rtc _ \<Rightarrow> dc_mode cfg = Rtc)"

text \<open>What a freshly initialised interface of a port looks like.\<close>

definition netif_for :: "DatapathConfig \<Rightarrow> nat \<Rightarrow> 'r DpdkNetif \<Rightarrow> bool" where
  "netif_for cfg i nf \<longleftrightarrow> nf_port_id nf = word_of_nat i \<and> nf_mode nf = dc_mode cfg \<and> nf_queue_id nf = 0 \<and>
     (case nf_state nf of Some (ns_pipeline ps) \<Rightarrow> dc_mode cfg = Pipeline \<and> \<not> ps_stop ps
      | Some ns_rtc \<Rightarrow> dc_mode cfg = Rtc | None \<Rightarrow> False)"

lemma netif_init_done:
  assumes "cfg_wf cfg" and "\<And>name count. 0 < count \<Longrightarrow> rte_ring_create rf name count 0 \<noteq> None"
  shows "\<exists>nf. netif_init rf (word_of_nat i) cfg dpdk_netif = Done ([], nf) \<and> netif_for cfg i nf"
proof (cases "dc_u cfg")
  case (u_pipeline p)
  define n where "n = unat (if pp_ring_size p > 0 then pp_ring_size p else IO_RING_SIZE)"
  have "0 < n"
    by (auto simp: n_def IO_RING_SIZE_def unat_gt_0 word_gt_0)
  then obtain r1 r2 where "rte_ring_create rf (RX_RING_NAME (uint (word_of_nat i :: u16))) n 0 = Some r1"
    "rte_ring_create rf (TX_RING_NAME (uint (word_of_nat i :: u16))) n 0 = Some r2"
    using assms(2) by blast
  then show ?thesis
    using assms(1) u_pipeline
    by (simp add: netif_init_def reset_state_def make_ring_def cfg_wf_def netif_for_def dpdk_netif_def
        IO_RING_FLAGS_def Let_def flip: n_def)
next
  case (u_rtc r)
  then show ?thesis
    using assms(1) by (simp add: netif_init_def reset_state_def cfg_wf_def netif_for_def dpdk_netif_def)
qed

definition ports_for :: "DatapathConfig \<Rightarrow> nat set \<Rightarrow> (int \<rightharpoonup> 'r DpdkNetif) \<Rightarrow> bool" where
  "ports_for cfg I nets \<longleftrightarrow> (\<forall>p.
     (nets p = None \<longleftrightarrow> \<not> (0 \<le> p \<and> nat p \<in> I \<and> bit (dc_port_mask cfg) (nat p))) \<and>
     (\<forall>nf. nets p = Some nf \<longrightarrow> netif_for cfg (nat p) nf))"

lemma launch_port_netifs: "launch_port nl cfg i s = Done s' \<Longrightarrow> po_netifs s' = po_netifs s"
  by (auto simp: launch_port_def Let_def split: if_splits DatapathUnion.splits)

lemma launch_port_done: "cfg_wf cfg \<Longrightarrow> \<exists>s'. launch_port nl cfg i s = Done s'"
  by (cases "dc_u cfg") (auto simp: launch_port_def cfg_wf_def Let_def)

lemma add_port_done:
  assumes "cfg_wf cfg" and "\<And>name count. 0 < count \<Longrightarrow> rte_ring_create rf name count 0 \<noteq> None"
    and "ports_for cfg I (po_netifs s)" and "i \<notin> I"
  shows "\<exists>s'. add_port rf nl cfg i s = Done s' \<and> ports_for cfg (insert i I) (po_netifs s')"
proof (cases "bit (dc_port_mask cfg) i")
  case False
  then show ?thesis using assms(3) by (auto simp: add_port_def ports_for_def)
next
  case True
  obtain nf where nf: "netif_init rf (word_of_nat i) cfg dpdk_netif = Done ([], nf)" "netif_for cfg i nf"
    using netif_init_done [OF assms(1,2)] by blast
  have "po_netifs s (int i) = None"
    using assms(3,4) by (simp add: ports_for_def)
  moreover have "ports_for cfg (insert i I) ((po_netifs s)(int i \<mapsto> nf))"
    using assms(3) True nf(2) by (auto simp: ports_for_def)
  moreover obtain s' where "launch_port nl cfg i (s\<lparr>po_netifs := (po_netifs s)(int i \<mapsto> nf)\<rparr>) = Done s'"
    using launch_port_done [OF assms(1)] by blast
  ultimately show ?thesis
    using True nf(1) launch_port_netifs by (fastforce simp: add_port_def)
qed

lemma add_ports_done:
  assumes "cfg_wf cfg" and "\<And>name count. 0 < count \<Longrightarrow> rte_ring_create rf name count 0 \<noteq> None"
  shows "ports_for cfg I (po_netifs s) \<Longrightarrow> distinct is \<Longrightarrow> I \<inter> set is = {} \<Longrightarrow>
    \<exists>s'. for_each (add_port rf nl cfg) is s = Done s' \<and> ports_for cfg (I \<union> set is) (po_netifs s')"
proof (induction "is" arbitrary: s I)
  case (Cons i "is")
  then obtain s1 where s1: "add_port rf nl cfg i s = Done s1" "ports_for cfg (insert i I) (po_netifs s1)"
    using add_port_done [OF assms, of I s i nl] by auto
  moreover have "insert i I \<inter> set is = {}" using Cons.prems by auto
  ultimately show ?case
    using Cons.IH [of "insert i I" s1] Cons.prems by simp
qed simp

lemma manager_init_result:
  assumes "cfg_wf cfg" and "\<And>name count. 0 < count \<Longrightarrow> rte_ring_create rf name count 0 \<noteq> None"
    and "mg_netifs mg = Map.empty"
  shows "if (\<exists>r. dc_u cfg = u_rtc r \<and> 1 < rp_workers r)
    then manager_init rf next_lcore lcore_id cfg mg = Exits rtc_multi_worker
    else \<exists>mg' ls. manager_init rf next_lcore lcore_id cfg mg = Done (mg', ls) \<and> mg_cfg mg' = cfg \<and>
      (\<forall>p. (get_netif mg' p = None \<longleftrightarrow> \<not> (0 \<le> p \<and> p < 32 \<and> bit (dc_port_mask cfg) (nat p))) \<and>
         (\<forall>nf. get_netif mg' p = Some nf \<longrightarrow> netif_for cfg (nat p) nf))"
proof (cases "\<exists>r. dc_u cfg = u_rtc r \<and> 1 < rp_workers r")
  case True
  then show ?thesis
    using assms(1) by (auto simp: manager_init_def cfg_wf_def resolve_rtc_path_def)
next
  case False
  let ?init = "\<lambda>rx tx. \<lparr>po_netifs = mg_netifs mg, po_rx_id = rx, po_tx_id = tx, po_cnt = 0, po_launches = []\<rparr>"
  have "ports_for cfg {} (po_netifs (?init rx tx))" for rx tx
    using assms(3) by (simp add: ports_for_def)
  then have "\<exists>s. for_each (add_port rf next_lcore cfg) [0..<32] (?init rx tx) = Done s \<and>
      ports_for cfg {0..<32} (po_netifs s)" for rx tx
    using add_ports_done [OF assms(1,2), of "{}" "?init rx tx" "[0..<32]" next_lcore] by simp
  then obtain s where s: "\<And>rx tx. for_each (add_port rf next_lcore cfg) [0..<32] (?init rx tx) = Done (s rx tx)"
    and p: "\<And>rx tx. ports_for cfg {0..<32} (po_netifs (s rx tx))"
    by metis
  have "\<exists>rx tx. manager_init rf next_lcore lcore_id cfg mg = add_ports rf next_lcore cfg rx tx mg"
    using False assms(1)
    by (cases "dc_u cfg") (auto simp: manager_init_def cfg_wf_def resolve_rtc_path_def Let_def not_less)
  then obtain rx tx where i: "manager_init rf next_lcore lcore_id cfg mg =
      Done (mg\<lparr>mg_cfg := cfg, mg_netifs := po_netifs (s rx tx)\<rparr>, po_launches (s rx tx))"
    by (auto simp: add_ports_def s)
  from p [of rx tx] show ?thesis
    unfolding if_not_P [OF False] i ports_for_def by (auto simp: get_netif_def nat_less_iff)
qed

text \<open>
  The manager creates exactly one interface for every port of the mask. From a manager with no
  interfaces and with rings that can be created, run-to-completion with more than one worker ends
  the process, and every other well-formed configuration leaves an interface for port \<open>p\<close> exactly
  when bit \<open>p\<close> of the mask is set, for that port, in the configured mode and with the state of that
  mode live.
\<close>

theorem manager_init_ports:
  assumes "cfg_wf cfg" and "\<And>name count. 0 < count \<Longrightarrow> rte_ring_create rf name count 0 \<noteq> None"
    and "mg_netifs mg = Map.empty"
  shows "if (\<exists>r. dc_u cfg = u_rtc r \<and> 1 < rp_workers r)
    then manager_init rf next_lcore lcore_id cfg mg = Exits rtc_multi_worker
    else \<exists>mg' ls. manager_init rf next_lcore lcore_id cfg mg = Done (mg', ls) \<and> mg_cfg mg' = cfg \<and>
      (\<forall>p. (get_netif mg' p = None \<longleftrightarrow> \<not> (0 \<le> p \<and> p < 32 \<and> bit (dc_port_mask cfg) (nat p))) \<and>
         (\<forall>nf. get_netif mg' p = Some nf \<longrightarrow> netif_for cfg (nat p) nf))"
  using assms by (rule manager_init_result)

definition ex_two_ports :: DatapathConfig where
  "ex_two_ports = datapath_config_defaults\<lparr>dc_port_mask := 3\<rparr>"

theorem manager_init_ports_witness:
  "\<exists>mg' ls. manager_init (list_ring :: (nat \<times> rte_mbuf list, rte_mbuf) ring_fns) Suc 0 ex_two_ports netif_manager = Done (mg', ls) \<and>
     get_netif mg' 1 \<noteq> None \<and> get_netif mg' 2 = None"
proof -
  let ?rf = "list_ring :: (nat \<times> rte_mbuf list, rte_mbuf) ring_fns"
  have "cfg_wf ex_two_ports" "\<And>name count. 0 < count \<Longrightarrow> rte_ring_create ?rf name count 0 \<noteq> None"
    "mg_netifs netif_manager = Map.empty"
    by (simp_all add: cfg_wf_def ex_two_ports_def datapath_config_defaults_def datapath_config_def list_ring_def
        netif_manager_def)
  note init = manager_init_ports [OF this, of Suc 0]
  have no_rtc: "\<not> (\<exists>r. dc_u ex_two_ports = u_rtc r \<and> 1 < rp_workers r)" and m: "dc_port_mask ex_two_ports = 3"
    by (simp_all add: ex_two_ports_def datapath_config_defaults_def)
  then obtain mg' ls where mg': "manager_init ?rf Suc 0 ex_two_ports netif_manager = Done (mg', ls)"
    "\<forall>p. get_netif mg' p = None \<longleftrightarrow> \<not> (0 \<le> p \<and> p < 32 \<and> bit (3 :: u32) (nat p))"
    using init unfolding if_not_P [OF no_rtc] m by blast
  then have "get_netif mg' 1 \<noteq> None" "get_netif mg' 2 = None"
    by (simp_all only: mg'(2)) simp_all
  with mg'(1) show ?thesis by blast
qed

text \<open>Without assumptions on the rings: whatever interfaces there are belong to enabled ports.\<close>

lemma netif_init_port:
  "netif_init rf port cfg nf = Done (fr, nf') \<Longrightarrow> nf_port_id nf' = port"
  by (auto simp: netif_init_def and_then_Done Let_def split: if_splits DatapathUnion.splits)

text \<open>Every interface belongs to an enabled port and is as its initialisation left it.\<close>

definition only_enabled :: "('r, 'a) ring_fns \<Rightarrow> DatapathConfig \<Rightarrow> (int \<rightharpoonup> 'r DpdkNetif) \<Rightarrow> bool" where
  "only_enabled rf cfg nets \<longleftrightarrow> (\<forall>p nf. nets p = Some nf \<longrightarrow>
     0 \<le> p \<and> p < 32 \<and> bit (dc_port_mask cfg) (nat p) \<and>
     (\<exists>fr. netif_init rf (word_of_nat (nat p)) cfg dpdk_netif = Done (fr, nf)))"

lemma add_port_only_enabled:
  assumes "add_port rf nl cfg i s = Done s'" and "only_enabled rf cfg (po_netifs s)" and "i < 32"
  shows "only_enabled rf cfg (po_netifs s')"
proof (cases "bit (dc_port_mask cfg) i")
  case False
  then show ?thesis using assms by (simp add: add_port_def)
next
  case True
  obtain fr nf where nf: "netif_init rf (word_of_nat i) cfg dpdk_netif = Done (fr, nf)"
    using assms(1) True by (auto simp: add_port_def and_then_Done)
  then have "po_netifs s' = po_netifs s \<or> po_netifs s' = (po_netifs s)(int i \<mapsto> nf)"
    using assms(1) True by (auto simp: add_port_def dest!: launch_port_netifs)
  moreover have new: "only_enabled rf cfg ((po_netifs s)(int i \<mapsto> nf))"
    unfolding only_enabled_def
  proof (intro allI impI)
    fix p nf' assume p: "((po_netifs s)(int i \<mapsto> nf)) p = Some nf'"
    show "0 \<le> p \<and> p < 32 \<and> bit (dc_port_mask cfg) (nat p) \<and>
      (\<exists>fr. netif_init rf (word_of_nat (nat p)) cfg dpdk_netif = Done (fr, nf'))"
    proof (cases "p = int i")
      case True
      then show ?thesis
        using p \<open>bit _ i\<close> nf assms(3) by simp
    next
      case False
      then have "po_netifs s p = Some nf'" using p by simp
      with assms(2) show ?thesis unfolding only_enabled_def by blast
    qed
  qed
  ultimately show ?thesis
    using assms(2) by (elim disjE) (simp_all only:)
qed

lemma for_each_only_enabled:
  "for_each (add_port rf nl cfg) is s = Done s' \<Longrightarrow> only_enabled rf cfg (po_netifs s) \<Longrightarrow>
   \<forall>i \<in> set is. i < 32 \<Longrightarrow> only_enabled rf cfg (po_netifs s')"
  by (induction "is" arbitrary: s) (auto simp: and_then_Done dest: add_port_only_enabled)

lemma add_ports_only_enabled:
  assumes "add_ports rf nl cfg rx tx mg = Done (mg', ls)" and "mg_netifs mg = Map.empty"
  shows "only_enabled rf cfg (mg_netifs mg')"
proof -
  let ?s0 = "\<lparr>po_netifs = mg_netifs mg, po_rx_id = rx, po_tx_id = tx, po_cnt = 0, po_launches = []\<rparr>"
  obtain s where s: "for_each (add_port rf nl cfg) [0..<32] ?s0 = Done s" "mg_netifs mg' = po_netifs s"
    using assms(1) unfolding add_ports_def and_then_Done by force
  have "only_enabled rf cfg (po_netifs ?s0)"
    using assms(2) by (simp add: only_enabled_def)
  from for_each_only_enabled [OF s(1) this] s(2) show ?thesis by simp
qed

lemma manager_init_only_enabled:
  assumes "manager_init rf nl lc cfg mg = Done (mg', ls)" and "mg_netifs mg = Map.empty"
  shows "only_enabled rf cfg (mg_netifs mg')"
proof -
  have "\<exists>rx tx. add_ports rf nl cfg rx tx mg = Done (mg', ls)"
    using assms(1) by (cases "dc_mode cfg"; cases "dc_u cfg") (auto simp: manager_init_def Let_def split: if_splits)
  then show ?thesis
    using add_ports_only_enabled assms(2) by blast
qed

section \<open>Two ports on one pair of cores\<close>

text \<open>
  \<open>rte_eal_remote_launch\<close> refuses a core that is still running a function, and the I/O loops run
  until they are stopped: of the launches on one core only the first takes effect.
\<close>

fun lcore_of :: "launch \<Rightarrow> nat" where
  "lcore_of (LaunchRecv p l) = l"
| "lcore_of (LaunchSend p l) = l"

fun port_of :: "launch \<Rightarrow> u16" where
  "port_of (LaunchRecv p l) = p"
| "port_of (LaunchSend p l) = p"

fun running :: "nat set \<Rightarrow> launch list \<Rightarrow> launch list" where
  "running busy [] = []"
| "running busy (l # ls) =
     (if lcore_of l \<in> busy then running busy ls else l # running (insert (lcore_of l) busy) ls)"

lemma add_ports_skip:
  "\<forall>i \<in> set is. \<not> bit (dc_port_mask cfg) i \<Longrightarrow> for_each (add_port rf nl cfg) is s = Done s"
  by (induction "is") (simp_all add: add_port_def)

text \<open>
  With two ports enabled, the second port is never served: the manager gives both ports the
  same pair of cores and launches all four loops, but the second port's launches find the cores
  busy, so neither its receive nor its transmit loop runs.
\<close>

theorem second_port_not_served:
  assumes "dc_mode cfg = Pipeline" and "dc_u cfg = u_pipeline p" and "dc_port_mask cfg = 3"
    and "pp_launch_rx_lcore p" and "pp_launch_tx_lcore p"
    and "\<And>name count. 0 < count \<Longrightarrow> rte_ring_create rf name count 0 \<noteq> None" and "mg_netifs mg = Map.empty"
  shows "\<exists>mg' ls. manager_init rf next_lcore lcore_id cfg mg = Done (mg', ls) \<and>
    get_netif mg' 1 \<noteq> None \<and> length ls = 4 \<and> 1 \<notin> port_of ` set (running {} ls)"
proof -
  have wf: "cfg_wf cfg"
    using assms(1,2) by (simp add: cfg_wf_def)
  obtain nf0 nf1 where nf: "netif_init rf 0 cfg dpdk_netif = Done ([], nf0)" "netif_init rf 1 cfg dpdk_netif = Done ([], nf1)"
    using netif_init_done [OF wf assms(6), of 0] netif_init_done [OF wf assms(6), of 1] by auto
  have rest: "\<forall>i \<in> set [2..<32]. \<not> bit (dc_port_mask cfg) i"
  proof -
    have "dc_port_mask cfg = mask 2" using assms(3) by (simp add: mask_eq_exp_minus_1)
    then show ?thesis by (auto simp: bit_mask_iff)
  qed
  have split: "[0..<32] = 0 # 1 # [2..<32]"
    by (simp add: upt_conv_Cons numeral_2_eq_2)
  show ?thesis
    unfolding manager_init_def add_ports_def split
    using assms(1-5,7) nf
    by (simp add: add_port_def launch_port_def add_ports_skip [OF rest] Let_def IO_PORTS_PER_RXTX_LCORE_PAIR_def get_netif_def)
qed

theorem second_port_not_served_witness:
  "\<exists>mg' ls. manager_init (list_ring :: (nat \<times> rte_mbuf list, rte_mbuf) ring_fns) Suc 0 ex_two_ports netif_manager = Done (mg', ls) \<and>
     get_netif mg' 1 \<noteq> None \<and> length ls = 4 \<and> 1 \<notin> port_of ` set (running {} ls)"
  by (rule second_port_not_served [where p = pipeline_params])
     (simp_all add: ex_two_ports_def datapath_config_defaults_def datapath_config_def pipeline_params_def
      DPDK_rx_config_default_def DPDK_tx_config_default_def IO_TX_RING_FULL_SLEEP_US_def list_ring_def netif_manager_def)

end
