(* ===== verification/Vgw_Log.thy ===== *)
theory Vgw_Log
  imports Vgw_Prelude
begin

text \<open>
  \<open>src/src/base/log.cpp\<close>: the set-up of logging. The logging library is not part of the repository;
  what the code hands to it is data, and its registry holds what the program has installed
  (\<open>None\<close>: the library's own default is in place).
\<close>

datatype log_level = LTrace | LDebug | LInfo | LWarn | LErr | LCritical | LOff

datatype log_sink = stdout_color_sink | rotating_file_sink string nat nat

record logger =
  lg_name :: string
  lg_sinks :: "log_sink list"
  lg_level :: log_level
  lg_pattern :: string

record spdlog =
  sp_default :: "logger option"
  sp_flush_on :: "log_level option"

definition spdlog_untouched :: spdlog where
  "spdlog_untouched = \<lparr>sp_default = None, sp_flush_on = None\<rparr>"

definition init_logging :: "string \<Rightarrow> spdlog \<Rightarrow> spdlog" where
  "init_logging log_file sp =
     (let sinks = [stdout_color_sink];
          sinks' = (if log_file \<noteq> [] then sinks @ [rotating_file_sink log_file (10 * 1024 * 1024) 3] else sinks);
          lg = \<lparr>lg_name = ''vgw'', lg_sinks = sinks', lg_level = LInfo,
                lg_pattern = ''[%Y-%m-%d %H:%M:%S.%e] [%^%l%$] %v''\<rparr>
      in sp\<lparr>sp_default := Some lg, sp_flush_on := Some LWarn\<rparr>)"

text \<open>A second call replaces the logger; the console is always a sink, a file only when named.\<close>

lemma init_logging_again: "init_logging f (init_logging g sp) = init_logging f sp"
  by (simp add: init_logging_def)

lemma init_logging_sinks:
  "\<exists>lg. sp_default (init_logging f sp) = Some lg \<and> hd (lg_sinks lg) = stdout_color_sink \<and>
     (length (lg_sinks lg) = 2 \<longleftrightarrow> f \<noteq> []) \<and> distinct (lg_sinks lg)"
  by (auto simp: init_logging_def Let_def)

end
