(* ===== verification/Vgw_Main.thy ===== *)
theory Vgw_Main
  imports Gateway_Queue Netif_Manager Vgw_Log
begin

text \<open>
  The process, \<open>VioletGW::init\<close> of \<open>src/src/vgw.cpp\<close> and \<open>src/src/main.cpp\<close>: the command line,
  logging, the configuration, start-up of packet I/O, the services and the hand-over to the worker loop.
  What is outside the repository enters as in the theories below: the flag parser, the device
  functions, the rings and the results of the system calls.
\<close>

section \<open>Initialisation\<close>

fun exec_of :: "exit_reason + 'a \<Rightarrow> 'a exec" where
  "exec_of (Inl e) = Exits e"
| "exec_of (Inr x) = Done x"

definition use_mac :: "VioletGW \<Rightarrow> rte_ether_addr \<Rightarrow> VioletGW" where
  "use_mac gw mac = gw\<lparr>gw_forwarder := map_option (\<lambda>c. set_gateway_mac c mac) (gw_forwarder gw),
     gw_arp := map_option (\<lambda>c. arp_set_gateway_mac c mac) (gw_arp gw)\<rparr>"

record 'r process =
  pr_gw :: VioletGW
  pr_manager :: "'r DpdkNetifManager"
  pr_dpdk :: dpdk_state
  pr_launches :: "launch list"
  pr_log :: spdlog

definition vgw_init ::
    "dev_fns \<Rightarrow> ('r, 'a) ring_fns \<Rightarrow> (nat \<Rightarrow> nat) \<Rightarrow> nat \<Rightarrow> os_results \<Rightarrow> (vgw_cp_shm \<Rightarrow> nat \<Rightarrow> vgw_cp_shm) \<Rightarrow>
     Flags \<Rightarrow> string list \<Rightarrow> 'r process \<Rightarrow> (int \<times> 'r process) exec" where
  "vgw_init df rf next_lcore lcore_id os seen flags argv pr =
     (let sp = init_logging [] (pr_log pr) in
     and_then (exec_of (datapath_config_from_flags flags)) (\<lambda>dp.
     and_then (dpdk_init df argv 0 (dc_port_mask dp) (pr_dpdk pr)) (\<lambda>ds.
     and_then (manager_init rf next_lcore lcore_id dp (pr_manager pr)) (\<lambda>(mg, ls).
       let netif = get_netif mg (uint (dc_worker_port dp));
           gw1 = (pr_gw pr)\<lparr>gw_datapath := dp, gw_netif := map_option nf_port_id netif\<rparr>;
           pr1 = pr\<lparr>pr_gw := gw1, pr_manager := mg, pr_dpdk := ds, pr_launches := ls, pr_log := sp\<rparr>
       in case netif of
            None \<Rightarrow> Done (1, pr1)
          | Some nf \<Rightarrow>
              let (rc, gw2, calls) = init_services os seen None gw1
              in if rc \<noteq> 0 then Done (rc, pr1\<lparr>pr_gw := gw2\<rparr>)
                 else
                   let gw3 = (if unat (nf_port_id nf) < 32
                              then use_mac gw2 (ds_ether_addr ds (nf_port_id nf)) else gw2)
                   in Done (0, pr1\<lparr>pr_gw := gw3\<rparr>)))))"

section \<open>The process\<close>

text \<open>\<open>run\<close> either returns 1 at once or enters the worker loop, which has no exit.\<close>

datatype 'r main_end = Returned int | WorkerLoop "'r process"

definition vgw_run :: "'r process \<Rightarrow> 'r main_end" where
  "vgw_run pr = (if \<not> ready_for_run (pr_gw pr) then Returned 1 else WorkerLoop pr)"

definition fresh_process :: "'r process" where
  "fresh_process = \<lparr>pr_gw = violet_gw, pr_manager = netif_manager,
     pr_dpdk = \<lparr>ds_mempool = False, ds_ether_addr = (\<lambda>_. zero_mac), ds_nb_rx_desc = DPDK_nb_rx_queue_desc,
       ds_nb_tx_desc = DPDK_nb_tx_queue_desc, ds_calls = []\<rparr>, pr_launches = [], pr_log = spdlog_untouched\<rparr>"

definition vgw_main ::
    "(string list \<Rightarrow> Flags \<Rightarrow> Flags option) \<Rightarrow> dev_fns \<Rightarrow> ('r, 'a) ring_fns \<Rightarrow> (nat \<Rightarrow> nat) \<Rightarrow> nat \<Rightarrow> os_results \<Rightarrow>
     (vgw_cp_shm \<Rightarrow> nat \<Rightarrow> vgw_cp_shm) \<Rightarrow> string \<Rightarrow> string list \<Rightarrow> 'r main_end exec option" where
  "vgw_main gflags df rf next_lcore lcore_id os seen argv0 args =
     (case parse_vgw_command_line_flags gflags argv0 args flag_defaults of
        None \<Rightarrow> None
      | Some (flags, eal_argv) \<Rightarrow> Some (
          and_then (vgw_init df rf next_lcore lcore_id os seen flags eal_argv fresh_process) (\<lambda>(rc, pr).
            Done (if rc \<noteq> 0 then Returned rc else vgw_run pr))))"

section \<open>A started gateway is ready\<close>

lemma gw_inv_frame: "gw_inv (gw\<lparr>gw_datapath := dp, gw_netif := n\<rparr>) = gw_inv gw"
  by (simp add: gw_inv_def)

lemma use_mac_inv: "gw_inv gw \<Longrightarrow> gw_inv (use_mac gw mac)"
  by (auto simp: use_mac_def gw_inv_def set_gateway_mac_def)

lemma vgw_init_done:
  assumes "vgw_init df rf nl lc os seen flags argv pr0 = Done (0, pr)"
  obtains dp ds mg ls nf gw2 calls where
    "datapath_config_from_flags flags = Inr dp" "dpdk_init df argv 0 (dc_port_mask dp) (pr_dpdk pr0) = Done ds"
    "manager_init rf nl lc dp (pr_manager pr0) = Done (mg, ls)" "get_netif mg (uint (dc_worker_port dp)) = Some nf"
    "init_services os seen None ((pr_gw pr0)\<lparr>gw_datapath := dp, gw_netif := Some (nf_port_id nf)\<rparr>) = (0, gw2, calls)"
    "pr_gw pr = (if unat (nf_port_id nf) < 32 then use_mac gw2 (ds_ether_addr ds (nf_port_id nf)) else gw2)"
    "pr_dpdk pr = ds" "pr_manager pr = mg"
proof -
  obtain dp where dp: "datapath_config_from_flags flags = Inr dp"
    using assms by (cases "datapath_config_from_flags flags") (auto simp: vgw_init_def)
  obtain ds where ds: "dpdk_init df argv 0 (dc_port_mask dp) (pr_dpdk pr0) = Done ds"
    using assms dp by (auto simp: vgw_init_def and_then_Done)
  obtain mg ls where mg: "manager_init rf nl lc dp (pr_manager pr0) = Done (mg, ls)"
    using assms dp ds by (auto simp: vgw_init_def and_then_Done)
  obtain nf where nf: "get_netif mg (uint (dc_worker_port dp)) = Some nf"
    using assms dp ds mg by (cases "get_netif mg (uint (dc_worker_port dp))") (auto simp: vgw_init_def Let_def)
  obtain rc gw2 calls where sv:
    "init_services os seen None ((pr_gw pr0)\<lparr>gw_datapath := dp, gw_netif := Some (nf_port_id nf)\<rparr>) = (rc, gw2, calls)"
    by (metis prod_cases3)
  have rc: "rc = 0"
    using assms dp ds mg nf sv by (auto simp: vgw_init_def Let_def split: if_splits)
  have g: "pr_gw pr = (if unat (nf_port_id nf) < 32 then use_mac gw2 (ds_ether_addr ds (nf_port_id nf)) else gw2)"
    and d: "pr_dpdk pr = ds" "pr_manager pr = mg"
    using assms dp ds mg nf sv rc by (auto simp: vgw_init_def Let_def)
  show thesis
    by (rule that [OF dp ds mg nf sv [unfolded rc] g d])
qed

lemma fresh_process_simps:
  "mg_netifs (pr_manager fresh_process) = Map.empty" "pr_gw fresh_process = violet_gw"
  by (simp_all add: fresh_process_def netif_manager_def)

lemma init_services_state:
  assumes "init_services os seen name gw = (0, gw', calls)"
  shows "gw_sessions gw' = Some (session_table (ipv4_from GATEWAY_IP_OCTETS) SESSION_IDLE_TIMEOUT_MS 10000 60000)"
    "gw_arp_pending gw' = gw_arp_pending gw" "gw_datapath gw' = gw_datapath gw" "gw_netif gw' = gw_netif gw"
    "\<exists>fcfg acfg shm. gw_forwarder gw' = Some fcfg \<and> gw_arp gw' = Some acfg \<and> gw_cp gw' = Some shm"
  using assms by (auto simp: init_services_def Let_def split: option.splits prod.splits)

text \<open>Whatever the result, an initialisation that returns has set up logging to the console only.\<close>

lemma init_logs_to_console:
  assumes "vgw_init df rf nl lc os seen flags argv pr0 = Done (rc, pr)"
  shows "\<exists>lg. sp_default (pr_log pr) = Some lg \<and> lg_sinks lg = [stdout_color_sink] \<and> lg_level lg = LInfo"
proof -
  have "pr_log pr = init_logging [] (pr_log pr0)"
    using assms by (auto simp: vgw_init_def Let_def and_then_Done case_prod_beta split: option.split_asm if_split_asm)
  then show ?thesis by (simp add: init_logging_def)
qed

text \<open>What a successful start of a fresh process leaves.\<close>

lemma init_fresh:
  fixes rf :: "('r, 'a) ring_fns"
  assumes "vgw_init df rf next_lcore lcore_id os seen flags argv fresh_process = Done (0, pr)"
  obtains dp wp fr nf gw2 where "gw_datapath (pr_gw pr) = dp" "dc_worker_port dp = wp"
    "datapath_config_from_flags flags = Inr dp"
    "dpdk_init df argv 0 (dc_port_mask dp) (pr_dpdk (fresh_process :: 'r process)) = Done (pr_dpdk pr)"
    "bit (dc_port_mask dp) (unat wp)" "get_netif (pr_manager pr) (uint wp) = Some nf"
    "netif_init rf wp dp dpdk_netif = Done (fr, nf)"
    "pr_gw pr = use_mac gw2 (ds_ether_addr (pr_dpdk pr) wp)" "gw_inv gw2"
    "gw_sessions gw2 = Some (session_table (ipv4_from GATEWAY_IP_OCTETS) SESSION_IDLE_TIMEOUT_MS 10000 60000)"
    "gw_arp_pending gw2 = []" "gw_netif gw2 = Some wp" "\<exists>fcfg acfg shm. gw_forwarder gw2 = Some fcfg \<and> gw_arp gw2 = Some acfg \<and> gw_cp gw2 = Some shm"
proof -
  from assms obtain dp ds mg ls nf gw2 calls where
    dp: "datapath_config_from_flags flags = Inr dp"
    and ds: "dpdk_init df argv 0 (dc_port_mask dp) (pr_dpdk (fresh_process :: 'r process)) = Done ds"
    and mg: "manager_init rf next_lcore lcore_id dp (pr_manager fresh_process) = Done (mg, ls)"
    and nf: "get_netif mg (uint (dc_worker_port dp)) = Some nf"
    and sv: "init_services os seen None ((pr_gw (fresh_process :: 'r process))\<lparr>gw_datapath := dp, gw_netif := Some (nf_port_id nf)\<rparr>) = (0, gw2, calls)"
    and g: "pr_gw pr = (if unat (nf_port_id nf) < 32 then use_mac gw2 (ds_ether_addr ds (nf_port_id nf)) else gw2)"
    and d: "pr_dpdk pr = ds" "pr_manager pr = mg"
    by (rule vgw_init_done) (rule that)
  define wp where "wp = dc_worker_port dp"
  obtain fr where port: "uint wp < 32" "bit (dc_port_mask dp) (nat (uint wp))"
    "netif_init rf (word_of_nat (nat (uint wp))) dp dpdk_netif = Done (fr, nf)"
    using manager_init_only_enabled [OF mg fresh_process_simps(1)] nf
    unfolding only_enabled_def get_netif_def wp_def by blast
  have "nat (uint wp) = unat wp" by (rule unat_eq_nat_uint [symmetric])
  moreover have "nat (uint wp) < 32" using port(1) by linarith
  ultimately have wp: "unat wp < 32" "bit (dc_port_mask dp) (unat wp)" "netif_init rf wp dp dpdk_netif = Done (fr, nf)"
    using port(2,3) by simp_all
  have id: "nf_port_id nf = wp" by (rule netif_init_port [OF wp(3)])
  note st = init_services_state [OF sv]
  have gw: "pr_gw pr = use_mac gw2 (ds_ether_addr ds wp)" using g wp(1) id by simp
  have "gw_inv ((pr_gw (fresh_process :: 'r process))\<lparr>gw_datapath := dp, gw_netif := Some (nf_port_id nf)\<rparr>)"
    by (simp add: fresh_process_simps gw_inv_frame violet_gw_inv)
  then have inv: "gw_inv gw2" using sv by (rule init_services_inv)
  show thesis
    by (rule that [OF _ wp_def [symmetric] dp _ wp(2) _ wp(3) _ inv st(1) _ _ st(5)])
       (use st gw ds d nf id in \<open>simp_all add: use_mac_def fresh_process_simps violet_gw_def wp_def\<close>)
qed

lemma init_ready:
  assumes "vgw_init df rf next_lcore lcore_id os seen flags argv fresh_process = Done (0, pr)"
  shows "gw_inv (pr_gw pr)" "ready_for_run (pr_gw pr)"
  by (rule init_fresh [OF assms], use use_mac_inv in metis)
     (rule init_fresh [OF assms], auto simp: use_mac_def ready_for_run_def)

text \<open>
  C20: when initialisation succeeds the gateway is ready to run: from a fresh process, a result of
  0 means that the flags were valid, that a link was found, that the worker's port is enabled in
  the port mask, that the state satisfies the gateway's invariant and passes the check of the
  worker loop, and that translation and address resolution both use the hardware address
  recorded for the worker's port, which is the device's own when the device exists.
\<close>

theorem init_success_ready:
  fixes rf :: "('r, 'a) ring_fns"
  assumes "vgw_init df rf next_lcore lcore_id os seen flags argv fresh_process = Done (0, pr)"
  shows "\<exists>fcfg acfg. flags_valid flags \<and> carries flags (gw_datapath (pr_gw pr)) \<and>
    (\<exists>a \<in> {1..4}. check_link_status df a (effective_mask (dc_port_mask (gw_datapath (pr_gw pr))))) \<and>
    bit (dc_port_mask (gw_datapath (pr_gw pr))) (unat (dc_worker_port (gw_datapath (pr_gw pr)))) \<and>
    gw_inv (pr_gw pr) \<and> ready_for_run (pr_gw pr) \<and>
    gw_forwarder (pr_gw pr) = Some fcfg \<and> gw_arp (pr_gw pr) = Some acfg \<and>
    fc_gateway_mac fcfg = ac_gateway_mac acfg \<and>
    fc_gateway_mac fcfg = ds_ether_addr (pr_dpdk pr) (dc_worker_port (gw_datapath (pr_gw pr))) \<and>
    (dc_worker_port (gw_datapath (pr_gw pr)) \<in> set (eth_devs df) \<longrightarrow>
       fc_gateway_mac fcfg = rte_eth_macaddr_get df (dc_worker_port (gw_datapath (pr_gw pr))))"
proof -
  from assms obtain dp wp fr nf gw2 where i: "gw_datapath (pr_gw pr) = dp" "dc_worker_port dp = wp"
    "datapath_config_from_flags flags = Inr dp"
    "dpdk_init df argv 0 (dc_port_mask dp) (pr_dpdk (fresh_process :: 'r process)) = Done (pr_dpdk pr)"
    "bit (dc_port_mask dp) (unat wp)" "pr_gw pr = use_mac gw2 (ds_ether_addr (pr_dpdk pr) wp)" "gw_inv gw2"
    "gw_sessions gw2 = Some (session_table (ipv4_from GATEWAY_IP_OCTETS) SESSION_IDLE_TIMEOUT_MS 10000 60000)"
    "gw_netif gw2 = Some wp" "\<exists>fcfg acfg shm. gw_forwarder gw2 = Some fcfg \<and> gw_arp gw2 = Some acfg \<and> gw_cp gw2 = Some shm"
    by (rule init_fresh) (rule that)
  then obtain fcfg acfg shm where fa: "gw_forwarder gw2 = Some fcfg" "gw_arp gw2 = Some acfg" "gw_cp gw2 = Some shm" by blast
  have valid: "flags_valid flags" "carries flags dp"
    using from_flags_result [of flags] i(3) by auto
  have pe: "port_enabled (effective_mask (dc_port_mask dp)) wp"
    using i(5) by (auto simp: port_enabled_def effective_mask_def)
  show ?thesis
    using dpdk_init_facts [OF i(4)] valid init_ready [OF assms] i(5) pe fa unfolding i(1,2)
    by (simp add: i(6) use_mac_def set_gateway_mac_def arp_set_gateway_mac_def)
qed

lemma init_services_frame:
  "init_services os seen name (gw\<lparr>gw_datapath := dp, gw_netif := n\<rparr>) =
     (case init_services os seen name gw of (rc, gw', calls) \<Rightarrow> (rc, gw'\<lparr>gw_datapath := dp, gw_netif := n\<rparr>, calls))"
  by (simp add: init_services_def Let_def split: option.splits prod.splits)

lemma default_flags_config: "datapath_config_from_flags flag_defaults = Inr datapath_config_defaults"
  by (simp add: datapath_config_from_flags_def flag_defaults_def parse_datapath_mode_def c_str_def
      check_uint16_flag_def or_exit_def datapath_config_defaults_def datapath_config_def pipeline_params_def
      DPDK_rx_config_default_def DPDK_tx_config_default_def IO_TX_RING_FULL_SLEEP_US_def)

lemma ex_manager:
  "\<exists>mg ls nf. manager_init (list_ring :: (nat \<times> rte_mbuf list, rte_mbuf) ring_fns) Suc 0 datapath_config_defaults netif_manager = Done (mg, ls) \<and>
     get_netif mg 0 = Some nf"
proof -
  let ?rf = "list_ring :: (nat \<times> rte_mbuf list, rte_mbuf) ring_fns"
  have "cfg_wf datapath_config_defaults" "\<And>name count. 0 < count \<Longrightarrow> rte_ring_create ?rf name count 0 \<noteq> None"
    "mg_netifs netif_manager = Map.empty"
    by (simp_all add: cfg_wf_def datapath_config_defaults_def datapath_config_def list_ring_def netif_manager_def)
  note init = manager_init_result [OF this, of Suc 0]
  have no_rtc: "\<not> (\<exists>r. dc_u datapath_config_defaults = u_rtc r \<and> 1 < rp_workers r)"
    and m: "dc_port_mask datapath_config_defaults = 1"
    by (simp_all add: datapath_config_defaults_def DPDK_vaild_port_marks_def)
  obtain mg ls where mg: "manager_init ?rf Suc 0 datapath_config_defaults netif_manager = Done (mg, ls)"
    "\<forall>p. get_netif mg p = None \<longleftrightarrow> \<not> (0 \<le> p \<and> p < 32 \<and> bit (1 :: u32) (nat p))"
    using init unfolding if_not_P [OF no_rtc] m by blast
  then have "get_netif mg 0 \<noteq> None"
    by (simp only: mg(2)) simp
  with mg(1) show ?thesis by blast
qed

lemma ex_init:
  "\<exists>pr. vgw_init ex_dev (list_ring :: (nat \<times> rte_mbuf list, rte_mbuf) ring_fns) Suc 0 ex_os (\<lambda>h _. h) flag_defaults eal
      fresh_process = Done (0, pr)"
proof -
  let ?rf = "list_ring :: (nat \<times> rte_mbuf list, rte_mbuf) ring_fns"
  have m: "dc_port_mask datapath_config_defaults = 1" "dc_worker_port datapath_config_defaults = 0"
    by (simp_all add: datapath_config_defaults_def DPDK_vaild_port_marks_def)
  obtain ds where "dpdk_init ex_dev eal 0 1 (pr_dpdk (fresh_process :: (nat \<times> rte_mbuf list) process)) = Done ds"
    using ex_dev_init by blast
  moreover obtain mg ls nf where "manager_init ?rf Suc 0 datapath_config_defaults netif_manager = Done (mg, ls)"
    "get_netif mg 0 = Some nf"
    using ex_manager by blast
  moreover have "pr_manager (fresh_process :: (nat \<times> rte_mbuf list) process) = netif_manager"
    by (simp add: fresh_process_def)
  ultimately show ?thesis
    by (simp add: vgw_init_def default_flags_config m fresh_process_simps init_services_frame ex_gw_init Let_def)
qed

theorem init_success_ready_witness:
  "\<exists>pr. vgw_init ex_dev (list_ring :: (nat \<times> rte_mbuf list, rte_mbuf) ring_fns) Suc 0 ex_os (\<lambda>h _. h) flag_defaults []
      fresh_process = Done (0, pr) \<and> gw_inv (pr_gw pr) \<and> ready_for_run (pr_gw pr)"
  using ex_init [of "[]"] init_success_ready by blast

end
