(* ===== verification/Pipeline_Cores.thy ===== *)
theory Pipeline_Cores
  imports Vgw_Main "HOL-Library.Sublist"
begin

text \<open>
  The pipeline mode as a system of three cores that share two rings: \<open>nic_recv\<close> on the receive
  core, the worker loop of \<open>VioletGW::run\<close>, and \<open>nic_send\<close> on the transmit core
  (\<open>src/src/dpdk/netif.cpp\<close>, \<open>src/src/vgw.cpp\<close>). A step is one operation on a ring or on the
  device together with the local work that follows it, so every interleaving of the ring
  operations of the cores is a sequence of steps. The local arrays of the loops are fields of the
  state: \<open>sy_rx_burst\<close> what the receive core has not queued yet, \<open>sy_tx_batch\<close> what the worker has
  not queued yet, \<open>sy_nic_tx\<close> what the transmit core took from the ring.

  The remaining fields only record what happened: the packets delivered by the device, queued for
  the worker, handled by it, put out by it, taken by the transmit core and accepted by the device;
  the buffers allocated, given back to the pool, and lost.
\<close>

section \<open>State and steps\<close>

record ('r, 'd, 'p) system =
  sy_gw :: VioletGW
  sy_timers :: run_timers
  sy_nf :: "'r DpdkNetif"
  sy_dev :: 'd
  sy_pool :: 'p
  sy_rx_burst :: "rte_mbuf list"
  sy_tx_batch :: "rte_mbuf list"
  sy_nic_tx :: "rte_mbuf list"
  sy_delivered :: "rte_mbuf list"
  sy_queued :: "rte_mbuf list"
  sy_handled :: "rte_mbuf list"
  sy_out :: "rte_mbuf list"
  sy_taken :: "rte_mbuf list"
  sy_sent :: "rte_mbuf list"
  sy_allocated :: "nat list"
  sy_freed :: "nat list"
  sy_lost :: "nat list"

text \<open>The receive core: a burst from the device, then attempts to queue it.\<close>

definition rx_poll :: "'d eth_fns \<Rightarrow> ('r, 'd, 'p) system \<Rightarrow> ('r, 'd, 'p) system" where
  "rx_poll ef s =
     (case rx_burst ef (sy_dev s) (nf_port_id (sy_nf s)) 0 (word_of_nat IO_RX_BURST) of (mbufs, d) \<Rightarrow>
        s\<lparr>sy_dev := d, sy_rx_burst := mbufs, sy_delivered := sy_delivered s @ mbufs\<rparr>)"

definition rx_push :: "('r, rte_mbuf) ring_fns \<Rightarrow> ('r, 'd, 'p) system \<Rightarrow> ('r, 'd, 'p) system option" where
  "rx_push rf s = do {
     ps \<leftarrow> pipeline_of (sy_nf s);
     let (got, ring) = push_burst rf (ps_rx_ring ps) (sy_rx_burst s);
     let s1 = s\<lparr>sy_nf := with_pipeline (sy_nf s) (ps\<lparr>ps_rx_ring := ring\<rparr>)\<rparr>;
     Some (if got = 0
       then s1\<lparr>sy_freed := sy_freed s @ map mb_addr (sy_rx_burst s), sy_rx_burst := []\<rparr>
       else s1\<lparr>sy_queued := sy_queued s @ take got (sy_rx_burst s), sy_rx_burst := drop got (sy_rx_burst s)\<rparr>)
   }"

text \<open>The worker: a turn up to the point where it begins to send, then attempts to queue.\<close>

definition worker_poll ::
    "cksum_fns \<Rightarrow> 'p allocator \<Rightarrow> ('r, rte_mbuf) ring_fns \<Rightarrow> (nat \<Rightarrow> vgw_cp_shm) \<Rightarrow> u64 \<Rightarrow>
     ('r, 'd, 'p) system \<Rightarrow> ('r, 'd, 'p) system option" where
  "worker_poll ck alloc rf mem now s = do {
     (t1, gw1, freed0) \<leftarrow> housekeeping mem now (sy_timers s) (sy_gw s);
     ps \<leftarrow> pipeline_of (sy_nf s);
     let (rx, ring) = pop_burst rf (ps_rx_ring ps) kBurst;
     b \<leftarrow> process_burst ck alloc now rx \<lparr>bs_gw = gw1, bs_tx = [], bs_drop = [], bs_pool = sy_pool s,
       bs_allocated = [], bs_freed = freed0, bs_lost = []\<rparr>;
     Some (s\<lparr>sy_gw := bs_gw b, sy_timers := t1, sy_nf := with_pipeline (sy_nf s) (ps\<lparr>ps_rx_ring := ring\<rparr>),
       sy_pool := bs_pool b, sy_tx_batch := bs_tx b, sy_handled := sy_handled s @ rx, sy_out := sy_out s @ bs_tx b,
       sy_allocated := sy_allocated s @ bs_allocated b,
       sy_freed := sy_freed s @ bs_freed b @ map mb_addr (bs_drop b), sy_lost := sy_lost s @ bs_lost b\<rparr>)
   }"

definition worker_push :: "('r, rte_mbuf) ring_fns \<Rightarrow> ('r, 'd, 'p) system \<Rightarrow> ('r, 'd, 'p) system option" where
  "worker_push rf s = do {
     ps \<leftarrow> pipeline_of (sy_nf s);
     let (en, ring) = push_burst rf (ps_tx_ring ps) (sy_tx_batch s);
     Some (s\<lparr>sy_nf := with_pipeline (sy_nf s) (ps\<lparr>ps_tx_ring := ring\<rparr>), sy_tx_batch := drop en (sy_tx_batch s)\<rparr>)
   }"

text \<open>The transmit core: a burst from the ring, then one call of the device; the rest is freed.\<close>

definition tx_pop :: "('r, rte_mbuf) ring_fns \<Rightarrow> ('r, 'd, 'p) system \<Rightarrow> ('r, 'd, 'p) system option" where
  "tx_pop rf s = do {
     ps \<leftarrow> pipeline_of (sy_nf s);
     let (mbufs, ring) = pop_burst rf (ps_tx_ring ps) IO_TX_BURST;
     Some (s\<lparr>sy_nf := with_pipeline (sy_nf s) (ps\<lparr>ps_tx_ring := ring\<rparr>), sy_nic_tx := mbufs,
       sy_taken := sy_taken s @ mbufs\<rparr>)
   }"

definition tx_emit :: "'d eth_fns \<Rightarrow> ('r, 'd, 'p) system \<Rightarrow> ('r, 'd, 'p) system" where
  "tx_emit ef s =
     (case tx_burst ef (sy_dev s) (nf_port_id (sy_nf s)) 0 (sy_nic_tx s) of (sent, d) \<Rightarrow>
        s\<lparr>sy_dev := d, sy_nic_tx := [], sy_sent := sy_sent s @ take sent (sy_nic_tx s),
          sy_freed := sy_freed s @ map mb_addr (drop sent (sy_nic_tx s))\<rparr>)"

text \<open>A call of \<open>nic_send\<close> is the two steps of the transmit core.\<close>

lemma nic_send_steps:
  assumes "nic_send rf ef (sy_nf s) (sy_dev s) = Some (freed, nf', d')"
  shows "\<exists>s1. tx_pop rf s = Some s1 \<and>
    (if sy_nic_tx s1 = [] then sy_nf s1 = nf' \<and> sy_dev s1 = d' \<and> freed = []
     else sy_nf (tx_emit ef s1) = nf' \<and> sy_dev (tx_emit ef s1) = d' \<and>
       sy_freed (tx_emit ef s1) = sy_freed s @ map mb_addr freed)"
proof -
  obtain ps where ps: "pipeline_of (sy_nf s) = Some ps"
    using assms by (auto simp: nic_send_def bind_eq_Some_conv)
  obtain ms ring where pop: "pop_burst rf (ps_tx_ring ps) IO_TX_BURST = (ms, ring)" by fastforce
  obtain k d where tx: "tx_burst ef (sy_dev s) (nf_port_id (sy_nf s)) 0 ms = (k, d)" by fastforce
  show ?thesis
    using assms ps pop tx
    by (auto simp: nic_send_def tx_pop_def tx_emit_def Let_def with_pipeline_def split: if_splits)
qed

section \<open>Ownership\<close>

definition addrs :: "rte_mbuf list \<Rightarrow> nat multiset" where
  "addrs ms = mset (map mb_addr ms)"

lemma addrs_simps [simp]: "addrs [] = {#}" "addrs (xs @ ys) = addrs xs + addrs ys"
  by (simp_all add: addrs_def)

lemma addrs_split: "addrs (take n xs) + addrs (drop n xs) = addrs xs"
  by (simp flip: addrs_simps(2))

definition ring_contents :: "('r \<Rightarrow> rte_mbuf list) \<Rightarrow> ('r PipelineState \<Rightarrow> 'r Ring) \<Rightarrow> 'r DpdkNetif \<Rightarrow> rte_mbuf list" where
  "ring_contents contents sel nf = (case pipeline_of nf of None \<Rightarrow> [] | Some ps \<Rightarrow> contents (ring_ring (sel ps)))"

abbreviation "rx_queue contents s \<equiv> ring_contents contents ps_rx_ring (sy_nf s)"
abbreviation "tx_queue contents s \<equiv> ring_contents contents ps_tx_ring (sy_nf s)"

text \<open>
  The buffers the program is responsible for: in an array of a core, in a ring, waiting for an
  address, or lost.
\<close>

definition owned :: "('r \<Rightarrow> rte_mbuf list) \<Rightarrow> ('r, 'd, 'p) system \<Rightarrow> nat multiset" where
  "owned contents s = addrs (sy_rx_burst s) + addrs (rx_queue contents s) + pend_addrs (gw_arp_pending (sy_gw s)) +
     addrs (sy_tx_batch s) + addrs (tx_queue contents s) + addrs (sy_nic_tx s) + mset (sy_lost s)"

text \<open>
  What the buffer pool promises over a step: a buffer is handed out only while it is not in use,
  so it is handed out at most once more often than it was given back if it was free before, and
  at most as often as it was given back if it was in use.
\<close>

definition pool_discipline :: "nat multiset \<Rightarrow> nat list \<Rightarrow> nat list \<Rightarrow> bool" where
  "pool_discipline used allocated freed \<longleftrightarrow>
     (\<forall>a \<in> set allocated. count (mset allocated) a + count used a \<le> Suc (count (mset freed) a))"

text \<open>What the device promises of a received burst: distinct well-formed buffers that are not in use.\<close>

definition fresh_burst :: "nat multiset \<Rightarrow> rte_mbuf list \<Rightarrow> bool" where
  "fresh_burst used ms \<longleftrightarrow> distinct (map mb_addr ms) \<and> (\<forall>m \<in> set ms. mbuf_ok m \<and> mb_addr m \<notin># used)"

inductive sys_step ::
    "cksum_fns \<Rightarrow> 'p allocator \<Rightarrow> ('r, rte_mbuf) ring_fns \<Rightarrow> 'd eth_fns \<Rightarrow> ('r \<Rightarrow> rte_mbuf list) \<Rightarrow>
     ('r, 'd, 'p) system \<Rightarrow> ('r, 'd, 'p) system \<Rightarrow> bool"
  for ck alloc rf ef contents where
  rx_polls: "sy_rx_burst s = [] \<Longrightarrow> fresh_burst (owned contents s) (sy_rx_burst (rx_poll ef s)) \<Longrightarrow>
     sys_step ck alloc rf ef contents s (rx_poll ef s)"
| rx_pushes: "sy_rx_burst s \<noteq> [] \<Longrightarrow> rx_push rf s = Some s' \<Longrightarrow> sys_step ck alloc rf ef contents s s'"
| worker_polls: "sy_tx_batch s = [] \<Longrightarrow> worker_poll ck alloc rf mem now s = Some s' \<Longrightarrow>
     sy_allocated s' = sy_allocated s @ al \<Longrightarrow> sy_freed s' = sy_freed s @ fr \<Longrightarrow>
     pool_discipline (owned contents s) al fr \<Longrightarrow> sys_step ck alloc rf ef contents s s'"
| worker_pushes: "sy_tx_batch s \<noteq> [] \<Longrightarrow> worker_push rf s = Some s' \<Longrightarrow> sys_step ck alloc rf ef contents s s'"
| tx_pops: "sy_nic_tx s = [] \<Longrightarrow> tx_pop rf s = Some s' \<Longrightarrow> sys_step ck alloc rf ef contents s s'"
| tx_emits: "sy_nic_tx s \<noteq> [] \<Longrightarrow> sys_step ck alloc rf ef contents s (tx_emit ef s)"

section \<open>The invariant\<close>

definition balanced_books :: "('r \<Rightarrow> rte_mbuf list) \<Rightarrow> ('r, 'd, 'p) system \<Rightarrow> bool" where
  "balanced_books contents s \<longleftrightarrow>
     addrs (sy_delivered s) + mset (sy_allocated s) = owned contents s + addrs (sy_sent s) + mset (sy_freed s)"

definition in_order :: "('r \<Rightarrow> rte_mbuf list) \<Rightarrow> ('r, 'd, 'p) system \<Rightarrow> bool" where
  "in_order contents s \<longleftrightarrow>
     subseq (sy_queued s @ sy_rx_burst s) (sy_delivered s) \<and>
     sy_queued s = sy_handled s @ rx_queue contents s \<and>
     sy_out s = sy_taken s @ tx_queue contents s @ sy_tx_batch s \<and>
     subseq (sy_sent s @ sy_nic_tx s) (sy_taken s)"

definition sys_ok :: "('r \<Rightarrow> rte_mbuf list) \<Rightarrow> ('r, 'd, 'p) system \<Rightarrow> bool" where
  "sys_ok contents s \<longleftrightarrow> pipeline_of (sy_nf s) \<noteq> None \<and> gw_inv (sy_gw s) \<and>
     (\<forall>m \<in> set (sy_rx_burst s @ rx_queue contents s). mbuf_ok m)"

definition no_sharing :: "('r \<Rightarrow> rte_mbuf list) \<Rightarrow> ('r, 'd, 'p) system \<Rightarrow> bool" where
  "no_sharing contents s \<longleftrightarrow> (\<forall>a. count (owned contents s) a \<le> 1)"

definition sys_inv :: "('r \<Rightarrow> rte_mbuf list) \<Rightarrow> ('r, 'd, 'p) system \<Rightarrow> bool" where
  "sys_inv contents s \<longleftrightarrow> sys_ok contents s \<and> balanced_books contents s \<and> no_sharing contents s \<and> in_order contents s"

lemma ring_contents_with [simp]:
  "pipeline_of (with_pipeline nf ps) = Some ps"
  "ring_contents contents sel (with_pipeline nf ps) = contents (ring_ring (sel ps))"
  by (simp_all add: ring_contents_def with_pipeline_def pipeline_of_def)

lemma ring_contents_live: "pipeline_of nf = Some ps \<Longrightarrow> ring_contents contents sel nf = contents (ring_ring (sel ps))"
  by (simp add: ring_contents_def)

text \<open>A step that only moves buffers and gives some away keeps them apart.\<close>

lemma no_sharing_shrinks:
  "no_sharing contents s \<Longrightarrow> owned contents s = owned contents s' + gone \<Longrightarrow> no_sharing contents s'"
  unfolding no_sharing_def by (metis add_leD1 count_union)

lemma no_sharing_pool:
  assumes ns: "no_sharing contents s" and pd: "pool_discipline (owned contents s) al fr"
    and bal: "owned contents s + mset al = owned contents s' + mset fr"
  shows "no_sharing contents s'"
  unfolding no_sharing_def
proof
  fix a
  have eq: "count (owned contents s) a + count (mset al) a = count (owned contents s') a + count (mset fr) a"
    using arg_cong [OF bal, of "\<lambda>m. count m a"] by simp
  show "count (owned contents s') a \<le> 1"
  proof (cases "a \<in> set al")
    case True
    then show ?thesis using pd eq by (auto simp: pool_discipline_def)
  next
    case False
    then have "count (mset al) a = 0" by (simp add: count_eq_zero_iff)
    moreover have "count (owned contents s) a \<le> 1" using ns by (simp add: no_sharing_def)
    ultimately show ?thesis using eq by linarith
  qed
qed

lemma no_sharing_fresh:
  assumes "no_sharing contents s" "fresh_burst (owned contents s) ms"
    and "owned contents s' = owned contents s + addrs ms"
  shows "no_sharing contents s'"
  unfolding no_sharing_def
proof
  fix a
  have d: "count (addrs ms) a \<le> 1"
    using assms(2) by (simp add: fresh_burst_def addrs_def distinct_count_atmost_1)
  show "count (owned contents s') a \<le> 1"
  proof (cases "a \<in># addrs ms")
    case True
    then have "a \<notin># owned contents s" using assms(2) by (auto simp: fresh_burst_def addrs_def)
    then show ?thesis using d by (simp add: assms(3) not_in_iff)
  next
    case False
    then show ?thesis using assms(1) by (simp add: assms(3) not_in_iff no_sharing_def)
  qed
qed

lemma sys_invD:
  assumes "sys_inv contents s"
  shows "pipeline_of (sy_nf s) \<noteq> None" "gw_inv (sy_gw s)" "\<forall>m \<in> set (sy_rx_burst s @ rx_queue contents s). mbuf_ok m"
    "balanced_books contents s" "no_sharing contents s"
    "subseq (sy_queued s @ sy_rx_burst s) (sy_delivered s)" "sy_queued s = sy_handled s @ rx_queue contents s"
    "sy_out s = sy_taken s @ tx_queue contents s @ sy_tx_batch s" "subseq (sy_sent s @ sy_nic_tx s) (sy_taken s)"
  using assms unfolding sys_inv_def sys_ok_def in_order_def by blast+

lemma in_orderI:
  assumes "subseq (sy_queued s @ sy_rx_burst s) (sy_delivered s)" "sy_queued s = sy_handled s @ rx_queue contents s"
    "sy_out s = sy_taken s @ tx_queue contents s @ sy_tx_batch s" "subseq (sy_sent s @ sy_nic_tx s) (sy_taken s)"
  shows "in_order contents s"
  using assms unfolding in_order_def by blast

lemma subseq_shorter: "subseq (xs @ take k ys) (xs @ ys)"
  by (metis prefix_imp_subseq same_prefix_prefix take_is_prefix)

lemma subseq_less: "subseq (xs @ ys) zs \<Longrightarrow> subseq (xs @ take k ys) zs"
  using subseq_shorter subseq_order.order_trans by blast

section \<open>Every step keeps the invariant\<close>

lemma rx_poll_inv:
  assumes inv: "sys_inv contents s" and idle: "sy_rx_burst s = []"
    and fresh: "fresh_burst (owned contents s) (sy_rx_burst (rx_poll ef s))"
  shows "sys_inv contents (rx_poll ef s)"
proof -
  obtain ms d where rx: "rx_burst ef (sy_dev s) (nf_port_id (sy_nf s)) 0 (word_of_nat IO_RX_BURST) = (ms, d)"
    by fastforce
  then have s': "rx_poll ef s = s\<lparr>sy_dev := d, sy_rx_burst := ms, sy_delivered := sy_delivered s @ ms\<rparr>"
    by (simp add: rx_poll_def)
  have own: "owned contents (rx_poll ef s) = owned contents s + addrs ms"
    using idle by (simp add: s' owned_def ac_simps)
  have fr: "fresh_burst (owned contents s) ms" using fresh by (simp add: s')
  have "no_sharing contents (rx_poll ef s)"
    using no_sharing_fresh [OF _ fr own] inv by (simp add: sys_inv_def)
  moreover have "sys_ok contents (rx_poll ef s)"
    using inv fr by (auto simp: sys_inv_def sys_ok_def s' fresh_burst_def)
  moreover have "balanced_books contents (rx_poll ef s)"
    using inv own by (simp add: sys_inv_def balanced_books_def s' ac_simps)
  moreover have "in_order contents (rx_poll ef s)"
    by (rule in_orderI) (use sys_invD(6-9) [OF inv] idle list_emb_append_mono [of _ "sy_queued s"] in \<open>auto simp: s'\<close>)
  ultimately show ?thesis by (simp add: sys_inv_def)
qed

lemma rx_push_inv:
  assumes ok: "rte_ring_ok rf contents cap" and inv: "sys_inv contents s" and step: "rx_push rf s = Some s'"
  shows "sys_inv contents s'"
proof -
  obtain ps where ps: "pipeline_of (sy_nf s) = Some ps" using inv by (auto simp: sys_inv_def sys_ok_def)
  obtain got ring where push: "push_burst rf (ps_rx_ring ps) (sy_rx_burst s) = (got, ring)" by fastforce
  let ?s1 = "s\<lparr>sy_nf := with_pipeline (sy_nf s) (ps\<lparr>ps_rx_ring := ring\<rparr>)\<rparr>"
  have s': "s' = (if got = 0
      then ?s1\<lparr>sy_freed := sy_freed s @ map mb_addr (sy_rx_burst s), sy_rx_burst := []\<rparr>
      else ?s1\<lparr>sy_queued := sy_queued s @ take got (sy_rx_burst s), sy_rx_burst := drop got (sy_rx_burst s)\<rparr>)"
    using step ps push by (simp add: rx_push_def Let_def)
  have c: "contents (ring_ring ring) = rx_queue contents s @ take got (sy_rx_burst s)"
    using push_burst_ok(2) [OF ok push] ps by (simp add: ring_contents_live)
  have tx: "tx_queue contents s' = tx_queue contents s"
    using ps by (simp add: s' ring_contents_live)
  have rx: "rx_queue contents s' = rx_queue contents s @ take got (sy_rx_burst s)"
    using c by (simp add: s')
  have own: "owned contents s = owned contents s' + (if got = 0 then addrs (sy_rx_burst s) else {#})"
  proof (cases "got = 0")
    case True
    then show ?thesis unfolding owned_def rx tx by (simp add: s' ac_simps)
  next
    case False
    have "owned contents s = addrs (take got (sy_rx_burst s)) + addrs (drop got (sy_rx_burst s)) +
        addrs (rx_queue contents s) + pend_addrs (gw_arp_pending (sy_gw s)) + addrs (sy_tx_batch s) +
        addrs (tx_queue contents s) + addrs (sy_nic_tx s) + mset (sy_lost s)"
      by (simp add: owned_def addrs_split)
    then show ?thesis using False unfolding owned_def rx tx by (simp add: s' ac_simps)
  qed
  have "no_sharing contents s'"
    using no_sharing_shrinks [OF _ own] inv by (simp add: sys_inv_def)
  moreover have "sys_ok contents s'"
    using inv rx by (auto simp: sys_inv_def sys_ok_def s' dest: in_set_takeD in_set_dropD)
  moreover have "balanced_books contents s'"
    using inv own by (auto simp: sys_inv_def balanced_books_def s' addrs_def ac_simps split: if_splits)
  moreover have "in_order contents s'"
    by (rule in_orderI)
       (use sys_invD(6-9) [OF inv] subseq_less [OF sys_invD(6) [OF inv], of 0] rx tx in \<open>auto simp: s'\<close>)
  ultimately show ?thesis by (simp add: sys_inv_def)
qed

lemma worker_push_inv:
  assumes ok: "rte_ring_ok rf contents cap" and inv: "sys_inv contents s" and step: "worker_push rf s = Some s'"
  shows "sys_inv contents s'"
proof -
  obtain ps where ps: "pipeline_of (sy_nf s) = Some ps" using inv by (auto simp: sys_inv_def sys_ok_def)
  obtain en ring where push: "push_burst rf (ps_tx_ring ps) (sy_tx_batch s) = (en, ring)" by fastforce
  have s': "s' = s\<lparr>sy_nf := with_pipeline (sy_nf s) (ps\<lparr>ps_tx_ring := ring\<rparr>), sy_tx_batch := drop en (sy_tx_batch s)\<rparr>"
    using step ps push by (simp add: worker_push_def)
  have tx: "tx_queue contents s' = tx_queue contents s @ take en (sy_tx_batch s)"
    using push_burst_ok(2) [OF ok push] ps by (simp add: s' ring_contents_live)
  have rx: "rx_queue contents s' = rx_queue contents s"
    using ps by (simp add: s' ring_contents_live)
  have own: "owned contents s = owned contents s' + {#}"
    using addrs_split [of en "sy_tx_batch s", symmetric] unfolding owned_def rx tx
    by (simp add: s' ac_simps)
  have "no_sharing contents s'"
    using no_sharing_shrinks [OF _ own] inv by (simp add: sys_inv_def)
  moreover have "in_order contents s'"
    by (rule in_orderI) (use sys_invD(6-9) [OF inv] rx tx in \<open>auto simp: s'\<close>)
  ultimately show ?thesis
    using inv rx own by (simp add: sys_inv_def sys_ok_def balanced_books_def s')
qed

lemma tx_pop_inv:
  assumes ok: "rte_ring_ok rf contents cap" and inv: "sys_inv contents s" and idle: "sy_nic_tx s = []"
    and step: "tx_pop rf s = Some s'"
  shows "sys_inv contents s'"
proof -
  obtain ps where ps: "pipeline_of (sy_nf s) = Some ps" using inv by (auto simp: sys_inv_def sys_ok_def)
  obtain ms ring where pop: "pop_burst rf (ps_tx_ring ps) IO_TX_BURST = (ms, ring)" by fastforce
  have s': "s' = s\<lparr>sy_nf := with_pipeline (sy_nf s) (ps\<lparr>ps_tx_ring := ring\<rparr>), sy_nic_tx := ms, sy_taken := sy_taken s @ ms\<rparr>"
    using step ps pop by (simp add: tx_pop_def)
  have tx: "tx_queue contents s = ms @ tx_queue contents s'"
    using pop_burst_ok(1,2) [OF ok pop] ps by (simp add: s' ring_contents_live)
  have rx: "rx_queue contents s' = rx_queue contents s"
    using ps by (simp add: s' ring_contents_live)
  have own: "owned contents s = owned contents s' + {#}"
    unfolding owned_def rx tx using idle by (simp add: s' ac_simps)
  have "no_sharing contents s'"
    using no_sharing_shrinks [OF _ own] inv by (simp add: sys_inv_def)
  moreover have "in_order contents s'"
    by (rule in_orderI) (use sys_invD(6-9) [OF inv] rx tx idle in \<open>auto simp: s' list_emb_append_mono\<close>)
  ultimately show ?thesis
    using inv rx own by (simp add: sys_inv_def sys_ok_def balanced_books_def s')
qed

lemma tx_emit_inv:
  assumes inv: "sys_inv contents s"
  shows "sys_inv contents (tx_emit ef s)"
proof -
  obtain k d where tx: "tx_burst ef (sy_dev s) (nf_port_id (sy_nf s)) 0 (sy_nic_tx s) = (k, d)" by fastforce
  then have s': "tx_emit ef s = s\<lparr>sy_dev := d, sy_nic_tx := [], sy_sent := sy_sent s @ take k (sy_nic_tx s),
      sy_freed := sy_freed s @ map mb_addr (drop k (sy_nic_tx s))\<rparr>"
    by (simp add: tx_emit_def)
  have own: "owned contents s = owned contents (tx_emit ef s) + addrs (sy_nic_tx s)"
    by (simp add: s' owned_def ac_simps)
  have "no_sharing contents (tx_emit ef s)"
    using no_sharing_shrinks [OF _ own] inv by (simp add: sys_inv_def)
  moreover have "balanced_books contents (tx_emit ef s)"
    using inv own addrs_split [of k "sy_nic_tx s", symmetric]
    by (simp add: sys_inv_def balanced_books_def s' addrs_def [of "drop k (sy_nic_tx s)"] ac_simps)
  moreover have "in_order contents (tx_emit ef s)"
    by (rule in_orderI)
       (use sys_invD(6-9) [OF inv] subseq_less [OF sys_invD(9) [OF inv], of k] in \<open>auto simp: s'\<close>)
  ultimately show ?thesis
    using inv by (simp add: sys_inv_def sys_ok_def s')
qed

text \<open>What a turn of the worker does to the buffers, from the theorem on bursts.\<close>

lemma worker_poll_facts:
  assumes ok: "rte_ring_ok rf contents cap" and inv: "sys_inv contents s" and idle: "sy_tx_batch s = []"
    and step: "worker_poll ck alloc rf mem now s = Some s'"
  obtains al fr where "sy_allocated s' = sy_allocated s @ al" "sy_freed s' = sy_freed s @ fr"
    "owned contents s + mset al = owned contents s' + mset fr" "gw_inv (sy_gw s')" "pipeline_of (sy_nf s') \<noteq> None"
    "sy_rx_burst s' = sy_rx_burst s" "sy_delivered s' = sy_delivered s" "sy_queued s' = sy_queued s"
    "sy_taken s' = sy_taken s" "sy_sent s' = sy_sent s" "sy_nic_tx s' = sy_nic_tx s"
    "sy_handled s' @ rx_queue contents s' = sy_handled s @ rx_queue contents s"
    "set (rx_queue contents s') \<subseteq> set (rx_queue contents s)"
    "tx_queue contents s' = tx_queue contents s" "sy_out s' = sy_out s @ sy_tx_batch s'"
proof -
  obtain t1 gw1 fr0 where hk: "housekeeping mem now (sy_timers s) (sy_gw s) = Some (t1, gw1, fr0)" "gw_inv gw1"
    "pend_addrs (gw_arp_pending gw1) + mset fr0 = pend_addrs (gw_arp_pending (sy_gw s))"
    using housekeeping_ok [OF sys_invD(2) [OF inv]] by metis
  obtain ps where ps: "pipeline_of (sy_nf s) = Some ps" using sys_invD(1) [OF inv] by blast
  obtain rx ring where pop: "pop_burst rf (ps_rx_ring ps) kBurst = (rx, ring)" by fastforce
  define b0 where "b0 = \<lparr>bs_gw = gw1, bs_tx = [], bs_drop = [], bs_pool = sy_pool s, bs_allocated = [],
    bs_freed = fr0, bs_lost = []\<rparr>"
  obtain b where b: "process_burst ck alloc now rx b0 = Some b"
    and s': "s' = s\<lparr>sy_gw := bs_gw b, sy_timers := t1, sy_nf := with_pipeline (sy_nf s) (ps\<lparr>ps_rx_ring := ring\<rparr>),
       sy_pool := bs_pool b, sy_tx_batch := bs_tx b, sy_handled := sy_handled s @ rx, sy_out := sy_out s @ bs_tx b,
       sy_allocated := sy_allocated s @ bs_allocated b,
       sy_freed := sy_freed s @ bs_freed b @ map mb_addr (bs_drop b), sy_lost := sy_lost s @ bs_lost b\<rparr>"
    using step hk(1) ps pop by (auto simp: worker_poll_def b0_def bind_eq_Some_conv)
  have c: "rx_queue contents s = rx @ rx_queue contents s'"
    using pop_burst_ok(1,2) [OF ok pop] ps by (simp add: s' ring_contents_live)
  have tx: "tx_queue contents s' = tx_queue contents s"
    using ps by (simp add: s' ring_contents_live)
  have b0: "burst_ok b0" "held b0 = pend_addrs (gw_arp_pending (sy_gw s))" "bs_allocated b0 = []"
    using hk(2,3) by (simp_all add: b0_def burst_ok_def held_def)
  have "\<forall>m \<in> set rx. mbuf_ok m" using sys_invD(3) [OF inv] c by auto
  note bo = process_burst_ok [OF b0(1) this b]
  have "held b = pend_addrs (gw_arp_pending (sy_gw s)) + addrs rx + mset (bs_allocated b)"
    using bo b0 by (simp add: balanced_def addrs_def)
  then have "owned contents s + mset (bs_allocated b) = owned contents s' + mset (bs_freed b @ map mb_addr (bs_drop b))"
    unfolding owned_def tx c by (simp add: s' idle held_def addrs_def ac_simps)
  then show thesis
    using that [of "bs_allocated b" "bs_freed b @ map mb_addr (bs_drop b)"] bo c tx idle
    by (auto simp: s' burst_ok_def)
qed

lemma worker_poll_inv:
  assumes ok: "rte_ring_ok rf contents cap" and inv: "sys_inv contents s" and idle: "sy_tx_batch s = []"
    and step: "worker_poll ck alloc rf mem now s = Some s'" "sy_allocated s' = sy_allocated s @ al"
      "sy_freed s' = sy_freed s @ fr" "pool_discipline (owned contents s) al fr"
  shows "sys_inv contents s'"
proof -
  obtain al' fr' where f: "sy_allocated s' = sy_allocated s @ al'" "sy_freed s' = sy_freed s @ fr'"
    "owned contents s + mset al' = owned contents s' + mset fr'" "gw_inv (sy_gw s')" "pipeline_of (sy_nf s') \<noteq> None"
    "sy_rx_burst s' = sy_rx_burst s" "sy_delivered s' = sy_delivered s" "sy_queued s' = sy_queued s"
    "sy_taken s' = sy_taken s" "sy_sent s' = sy_sent s" "sy_nic_tx s' = sy_nic_tx s"
    "sy_handled s' @ rx_queue contents s' = sy_handled s @ rx_queue contents s"
    "set (rx_queue contents s') \<subseteq> set (rx_queue contents s)"
    "tx_queue contents s' = tx_queue contents s" "sy_out s' = sy_out s @ sy_tx_batch s'"
    using worker_poll_facts [OF ok inv idle step(1)] by metis
  have eq: "al' = al" "fr' = fr" using f(1,2) step(2,3) by simp_all
  have "no_sharing contents s'"
    by (rule no_sharing_pool [OF sys_invD(5) [OF inv] step(4) f(3) [unfolded eq]])
  moreover have "sys_ok contents s'"
    using sys_invD(3) [OF inv] f(4,5,6,13) by (auto simp: sys_ok_def)
  moreover have "in_order contents s'"
    by (rule in_orderI) (use sys_invD(6-9) [OF inv] f idle in simp_all)
  moreover have "balanced_books contents s'"
  proof -
    have "addrs (sy_delivered s) + mset (sy_allocated s) + mset al = owned contents s + mset al + addrs (sy_sent s) + mset (sy_freed s)"
      using sys_invD(4) [OF inv] by (simp add: balanced_books_def ac_simps)
    also have "\<dots> = owned contents s' + mset fr + addrs (sy_sent s) + mset (sy_freed s)"
      using f(3) eq by simp
    finally show ?thesis using f eq by (simp add: balanced_books_def ac_simps)
  qed
  ultimately show ?thesis by (simp add: sys_inv_def)
qed

lemma sys_step_inv:
  assumes "rte_ring_ok rf contents cap" "sys_inv contents s" "sys_step ck alloc rf ef contents s s'"
  shows "sys_inv contents s'"
  using assms(3) assms(1,2)
proof cases
  case (worker_polls mem now al fr)
  then show ?thesis using worker_poll_inv assms(1,2) by metis
qed (auto intro: rx_poll_inv rx_push_inv worker_push_inv tx_pop_inv tx_emit_inv)

interpretation cores: kept_invariant "sys_step ck alloc rf ef contents" "\<lambda>s. rte_ring_ok rf contents cap \<longrightarrow> sys_inv contents s"
  for ck alloc rf ef contents cap
  by unfold_locales (blast intro: sys_step_inv)

text \<open>The system as \<open>init\<close> leaves it: empty rings, no packet anywhere.\<close>

definition sys_start :: "VioletGW \<Rightarrow> run_timers \<Rightarrow> 'r DpdkNetif \<Rightarrow> 'd \<Rightarrow> 'p \<Rightarrow> ('r, 'd, 'p) system" where
  "sys_start gw t nf d p = \<lparr>sy_gw = gw, sy_timers = t, sy_nf = nf, sy_dev = d, sy_pool = p, sy_rx_burst = [],
     sy_tx_batch = [], sy_nic_tx = [], sy_delivered = [], sy_queued = [], sy_handled = [], sy_out = [], sy_taken = [],
     sy_sent = [], sy_allocated = [], sy_freed = [], sy_lost = []\<rparr>"

lemma sys_start_inv:
  assumes "gw_inv gw" "gw_arp_pending gw = []" "pipeline_of nf = Some ps"
    "contents (ring_ring (ps_rx_ring ps)) = []" "contents (ring_ring (ps_tx_ring ps)) = []"
  shows "sys_inv contents (sys_start gw t nf d p)"
  using assms by (simp add: sys_inv_def sys_ok_def balanced_books_def no_sharing_def in_order_def sys_start_def
      owned_def ring_contents_def)

lemma fresh_pipeline:
  assumes "rte_ring_ok rf contents cap" and "dc_mode cfg = Pipeline" and "netif_init rf port cfg dpdk_netif = Done (fr, nf)"
  shows "\<exists>ps. pipeline_of nf = Some ps \<and> contents (ring_ring (ps_rx_ring ps)) = [] \<and> contents (ring_ring (ps_tx_ring ps)) = []"
proof -
  obtain n1 n2 c1 c2 r1 r2 ps where "rte_ring_create rf n1 c1 0 = Some r1" "rte_ring_create rf n2 c2 0 = Some r2"
    "pipeline_of nf = Some ps" "ring_ring (ps_rx_ring ps) = r1" "ring_ring (ps_tx_ring ps) = r2"
    using assms(2,3)
    by (auto simp: netif_init_def reset_state_def make_ring_def dpdk_netif_def IO_RING_FLAGS_def pipeline_of_def Let_def
        split: option.splits if_splits DatapathMode.splits DatapathUnion.splits)
  then show ?thesis
    using create_ok(1) [OF assms(1)] by metis
qed

lemma reachable_inv:
  assumes "rte_ring_ok rf contents cap"
    and "gw_inv gw" "gw_arp_pending gw = []"
    and "dc_mode cfg = Pipeline" "netif_init rf port cfg dpdk_netif = Done (fr, nf)"
    and "(sys_step ck alloc rf ef contents)\<^sup>*\<^sup>* (sys_start gw t nf d p) s"
  shows "sys_inv contents s"
proof -
  obtain ps where "pipeline_of nf = Some ps" "contents (ring_ring (ps_rx_ring ps)) = []" "contents (ring_ring (ps_tx_ring ps)) = []"
    using fresh_pipeline [OF assms(1,4,5)] by blast
  then have "sys_inv contents (sys_start gw t nf d p)"
    using assms(2,3) by (intro sys_start_inv)
  then show ?thesis
    using cores.run_keeps [OF assms(6), of cap] assms(1) by blast
qed

lemma sys_inv_order:
  assumes "sys_inv contents s"
  shows "subseq (sy_handled s) (sy_delivered s) \<and> prefix (sy_handled s) (sy_queued s) \<and>
    prefix (sy_taken s) (sy_out s) \<and> subseq (sy_sent s) (sy_out s)"
proof -
  note inv = sys_invD [OF assms]
  have "subseq (sy_handled s) (sy_delivered s)"
    using inv(6) unfolding inv(7) by (metis append.assoc append_Nil2 subseq_less take_0)
  moreover have "subseq (sy_sent s) (sy_taken s)"
    using subseq_less [OF inv(9), of 0] by simp
  moreover have "prefix (sy_handled s) (sy_queued s)" "prefix (sy_taken s) (sy_out s)"
    using inv(7,8) by simp_all
  ultimately show ?thesis
    by (metis prefix_imp_subseq subseq_order.order_trans)
qed

section \<open>Properties\<close>

text \<open>
  C7: in pipeline mode every packet buffer is in at most one place. Whatever the interleaving of
  the receive core, the worker and the transmit core, in every reachable state a buffer is held at
  most once among the arrays of the cores, the rings, the queues of waiting packets and the lost
  buffers; and the buffers delivered by the device or allocated are exactly those held, accepted
  by the device or given back to the pool.
\<close>

theorem pipeline_buffers_unshared:
  assumes "rte_ring_ok rf contents cap"
    and "gw_inv gw" "gw_arp_pending gw = []"
    and "dc_mode cfg = Pipeline" "netif_init rf port cfg dpdk_netif = Done (fr, nf)"
    and "(sys_step ck alloc rf ef contents)\<^sup>*\<^sup>* (sys_start gw t nf d p) s"
  shows "gw_inv (sy_gw s) \<and> (\<forall>a. count (owned contents s) a \<le> 1) \<and>
    addrs (sy_delivered s) + mset (sy_allocated s) = owned contents s + addrs (sy_sent s) + mset (sy_freed s)"
  using reachable_inv [OF assms] by (simp add: sys_inv_def sys_ok_def no_sharing_def balanced_books_def)

definition ex_nf0 :: "(nat \<times> rte_mbuf list) DpdkNetif" where
  "ex_nf0 = with_pipeline dpdk_netif \<lparr>ps_rx_ring = \<lparr>ring_ring = (31, []), ring_free_space = 32\<rparr>,
     ps_tx_ring = \<lparr>ring_ring = (31, []), ring_free_space = 32\<rparr>, ps_stop = False, ps_tx_ring_full_sleep_us = 10\<rparr>"

lemma ex_nf0_init: "netif_init list_ring 0 datapath_config_defaults dpdk_netif = Done ([], ex_nf0)"
  by (simp add: netif_init_def reset_state_def make_ring_def dpdk_netif_def datapath_config_defaults_def datapath_config_def
      list_ring_def IO_RING_SIZE_def IO_TX_RING_FULL_SLEEP_US_def ex_nf0_def with_pipeline_def Let_def)

definition ex_sys :: "(nat \<times> rte_mbuf list, rte_mbuf list, unit) system" where
  "ex_sys = sys_start ex_gw ex_timers ex_nf0 [ex_request] ()"

definition ex_queued :: "(nat \<times> rte_mbuf list, rte_mbuf list, unit) system" where
  "ex_queued = the (rx_push list_ring (rx_poll ex_eth ex_sys))"

lemmas ex_sys_defs = ex_queued_def rx_push_def rx_poll_def rx_burst_def ex_eth_def ex_sys_def sys_start_def ex_nf0_def
  with_pipeline_def pipeline_of_def push_burst_def list_ring_def Let_def

lemma ex_queued_simps:
  "sy_delivered ex_queued = [ex_request]" "sy_queued ex_queued = [ex_request]" "rx_queue snd ex_queued = [ex_request]"
  by (simp_all add: ex_sys_defs ring_contents_def IO_RX_BURST_def)

lemma ex_queued_reached: "(sys_step ex_cksum (\<lambda>p. (None, p)) list_ring ex_eth snd)\<^sup>*\<^sup>* ex_sys ex_queued"
proof -
  let ?step = "sys_step ex_cksum (\<lambda>p. (None, p)) list_ring ex_eth snd"
  have rx: "sy_rx_burst (rx_poll ex_eth ex_sys) = [ex_request]" and own: "owned snd ex_sys = {#}"
    by (simp_all add: rx_poll_def rx_burst_def ex_eth_def ex_sys_def sys_start_def IO_RX_BURST_def owned_def ex_gw_def
        ring_contents_def ex_nf0_def with_pipeline_def pipeline_of_def)
  have "?step ex_sys (rx_poll ex_eth ex_sys)"
    by (rule rx_polls) (simp_all add: rx own fresh_burst_def ex_request_ok, simp add: ex_sys_def sys_start_def)
  moreover have "rx_push list_ring (rx_poll ex_eth ex_sys) = Some ex_queued"
    by (simp add: ex_sys_defs)
  then have "?step (rx_poll ex_eth ex_sys) ex_queued"
    by (rule rx_pushes [rotated]) (simp add: rx)
  ultimately show ?thesis by (meson rtranclp.simps)
qed

lemma datapath_defaults_mode: "dc_mode datapath_config_defaults = Pipeline"
  by (simp add: datapath_config_defaults_def datapath_config_def)

lemma ex_gw_idle: "gw_arp_pending ex_gw = []"
  by (simp add: ex_gw_def)

theorem pipeline_buffers_unshared_witness:
  "sy_delivered ex_queued = [ex_request] \<and> (\<forall>a. count (owned snd ex_queued) a \<le> 1) \<and>
   addrs (sy_delivered ex_queued) + mset (sy_allocated ex_queued) =
     owned snd ex_queued + addrs (sy_sent ex_queued) + mset (sy_freed ex_queued)"
  using pipeline_buffers_unshared [OF list_ring_ok ex_gw_inv ex_gw_idle datapath_defaults_mode ex_nf0_init
      ex_queued_reached [unfolded ex_sys_def]] ex_queued_simps(1) by blast

text \<open>
  Pipeline mode keeps the order. In every reachable state the worker has handled the packets
  the receive core queued in the order of their arrival, and the device has been given the packets
  the worker put out in the order in which it put them out; packets are left out only where they
  were given back, never reordered.
\<close>

theorem pipeline_keeps_order:
  assumes "rte_ring_ok rf contents cap"
    and "gw_inv gw" "gw_arp_pending gw = []"
    and "dc_mode cfg = Pipeline" "netif_init rf port cfg dpdk_netif = Done (fr, nf)"
    and "(sys_step ck alloc rf ef contents)\<^sup>*\<^sup>* (sys_start gw t nf d p) s"
  shows "subseq (sy_handled s) (sy_delivered s) \<and> prefix (sy_handled s) (sy_queued s) \<and>
    prefix (sy_taken s) (sy_out s) \<and> subseq (sy_sent s) (sy_out s)"
  by (rule sys_inv_order [OF reachable_inv [OF assms]])

theorem pipeline_keeps_order_witness:
  "sy_queued ex_queued = [ex_request] \<and> subseq (sy_handled ex_queued) (sy_delivered ex_queued) \<and>
   prefix (sy_handled ex_queued) (sy_queued ex_queued)"
  using pipeline_keeps_order [OF list_ring_ok ex_gw_inv ex_gw_idle datapath_defaults_mode ex_nf0_init
      ex_queued_reached [unfolded ex_sys_def]] ex_queued_simps(2) by blast

end
