(* ===== verification/Gateway_Sessions.thy ===== *)
theory Gateway_Sessions
  imports Gateway_Queue
begin

text \<open>
  What a turn of the worker loop (\<open>VioletGW::run\<close> of \<open>src/src/vgw.cpp\<close>) does to the session table
  and to the upstreams: the composition of expiry, the poll of the control plane, the upstream
  picker and the forwarder. A turn is \<open>run_turn\<close> of \<open>Gateway\<close>; the theory adds no operations of its
  own, only the step relation \<open>clock_step\<close> of turns under a clock that does not go back.
\<close>

section \<open>How packets change the sessions\<close>

definition session_endpoint :: "Session \<Rightarrow> UpstreamEndpoint" where
  "session_endpoint s = \<lparr>ue_ip_be = s_upstream_ip s, ue_port = s_upstream_port s\<rparr>"

text \<open>
  \<open>evolved now eps st st'\<close>: every session of \<open>st\<close> is still there, unchanged but perhaps for the
  activity time \<open>now\<close>, and every other session of \<open>st'\<close> was opened at \<open>now\<close> for one of the
  upstreams \<open>eps\<close>.
\<close>

definition evolved :: "u64 \<Rightarrow> UpstreamEndpoint list \<Rightarrow> SessionTable \<Rightarrow> SessionTable \<Rightarrow> bool" where
  "evolved now eps st st' \<longleftrightarrow> same_config st st' \<and>
     (\<forall>p. case st_heap st p of
        Some s0 \<Rightarrow> st_heap st' p = Some s0 \<or> st_heap st' p = Some (s0\<lparr>s_last_active_ms := now\<rparr>)
      | None \<Rightarrow> \<forall>s. st_heap st' p = Some s \<longrightarrow> s_last_active_ms s = now \<and> session_endpoint s \<in> set eps)"

lemma evolvedD:
  assumes "evolved now eps st st'"
  shows "same_config st st'"
    "st_heap st p = Some s0 \<Longrightarrow> st_heap st' p = Some s0 \<or> st_heap st' p = Some (s0\<lparr>s_last_active_ms := now\<rparr>)"
    "st_heap st p = None \<Longrightarrow> st_heap st' p = Some s \<Longrightarrow> s_last_active_ms s = now \<and> session_endpoint s \<in> set eps"
    "st_heap st' p = Some s \<Longrightarrow> (\<exists>s0. st_heap st p = Some s0 \<and> (s = s0 \<or> s = s0\<lparr>s_last_active_ms := now\<rparr>)) \<or>
        st_heap st p = None \<and> s_last_active_ms s = now \<and> session_endpoint s \<in> set eps"
  using assms unfolding evolved_def by (auto split: option.splits dest: spec [of _ p])

lemma evolved_refl [simp]: "evolved now eps st st"
  by (auto simp: evolved_def same_config_def split: option.split)

lemma evolved_trans:
  assumes "evolved now eps st st1" "evolved now eps st1 st2"
  shows "evolved now eps st st2"
proof -
  have "same_config st st2" using assms by (simp add: evolved_def same_config_def)
  moreover have "st_heap st2 p = Some s0 \<or> st_heap st2 p = Some (s0\<lparr>s_last_active_ms := now\<rparr>)" if "st_heap st p = Some s0" for p s0
    using evolvedD(2) [OF assms(1) that] evolvedD(2) [OF assms(2), of p] by fastforce
  moreover have "s_last_active_ms s = now \<and> session_endpoint s \<in> set eps" if "st_heap st p = None" "st_heap st2 p = Some s" for p s
    using evolvedD(3) [OF assms(1) that(1)] evolvedD(4) [OF assms(2) that(2)] by (auto simp: session_endpoint_def)
  ultimately show ?thesis by (auto simp: evolved_def split: option.split)
qed

lemma touch_evolved: "touch st (Some p) now = Some st' \<Longrightarrow> evolved now eps st st'"
  by (auto simp: evolved_def touch_def same_config_def split: option.splits if_splits)

lemma create_evolved:
  assumes "st_inv st" "create st k ip po now = (r, st')" "\<lparr>ue_ip_be = ip, ue_port = po\<rparr> \<in> set eps"
  shows "evolved now eps st st'"
  using assms(1,2)
proof (cases rule: create_cases)
  case (created sn c fr ses)
  then show ?thesis
    using assms(3) st_inv_fresh [OF assms(1)] by (auto simp: evolved_def same_config_def session_endpoint_def split: option.split)
qed (auto simp: evolved_def same_config_def split: option.split)

lemma gw_picker_member:
  assumes "gw_picker = Some pk" "pk u key = (r, u1)"
  shows "ut_nodes u1 = ut_nodes u"
    "r = Some up \<Longrightarrow> \<lparr>ue_ip_be = up_ip_be up, ue_port = up_port up\<rparr> \<in> set (ut_nodes u)"
proof -
  obtain e u2 where e: "pick u key = (e, u2)" by fastforce
  have r: "u1 = u2" "r = map_option (\<lambda>ep. \<lparr>up_ip_be = ue_ip_be ep, up_port = ue_port ep\<rparr>) e"
    using assms e by (auto simp: gw_picker_def split: option.splits)
  show "ut_nodes u1 = ut_nodes u" using ut.sel_members [of u key] e r by simp
  have whole: "\<lparr>ue_ip_be = ue_ip_be ep, ue_port = ue_port ep\<rparr> = ep" for ep :: UpstreamEndpoint
    by simp
  show "\<lparr>ue_ip_be = up_ip_be up, ue_port = up_port up\<rparr> \<in> set (ut_nodes u)" if "r = Some up"
    using ut.sel_member [of u key] e r that by (cases e) (auto simp: whole simp del: UpstreamEndpoint.simps)
qed

lemma flush_pending_frames:
  "flush_pending ck gw ip now tx cap = Some (gw', tx', fr) \<Longrightarrow> gw_sessions gw' = gw_sessions gw \<and> gw_upstreams gw' = gw_upstreams gw"
  by (auto simp: flush_pending_def bind_eq_Some_conv simp del: flush_entries.simps split: option.splits if_splits list.splits)

lemma enqueue_pending_frames:
  "enqueue_pending gw ip mo now = (gw', fr) \<Longrightarrow> gw_sessions gw' = gw_sessions gw \<and> gw_upstreams gw' = gw_upstreams gw"
  by (auto simp: enqueue_pending_def Let_def split: option.splits if_splits)

lemma maybe_probe_frames:
  "maybe_probe_arp gw alloc ip now tx cap = Some (gw', tx', b, fr) \<Longrightarrow>
     gw_sessions gw' = gw_sessions gw \<and> gw_upstreams gw' = gw_upstreams gw"
  by (auto simp: maybe_probe_arp_def bind_eq_Some_conv split: option.splits if_splits)

lemma place_frames:
  assumes "place alloc now o' m s = Some s'"
  shows "gw_sessions (bs_gw s') = gw_sessions (bs_gw s) \<and> gw_upstreams (bs_gw s') = gw_upstreams (bs_gw s)"
proof (cases "ho_result o' = pending_arp")
  case True
  obtain gw1 fr1 where e: "enqueue_pending (bs_gw s) (ho_arp_wait_ip_be o') (Some m) now = (gw1, fr1)" by fastforce
  obtain buf pool1 where al: "alloc (bs_pool s) = (buf, pool1)" by fastforce
  obtain gw2 tx1 asked fr2 where p: "maybe_probe_arp gw1 buf (ho_arp_wait_ip_be o') now (bs_tx s) kBurst = Some (gw2, tx1, asked, fr2)"
    and "bs_gw s' = gw2"
    using assms True e al by (auto simp: place_def Let_def bind_eq_Some_conv)
  then show ?thesis using enqueue_pending_frames [OF e] maybe_probe_frames [OF p] by simp
next
  case False
  then show ?thesis using assms by (auto simp: place_def split: if_splits)
qed

text \<open>
  The flow of a received UDP frame, and the flows of a burst in order. The frame is parsed without
  verification, so the checksum routines play no role; any will do.
\<close>

definition any_cksum :: cksum_fns where
  "any_cksum = \<lparr>rte_ipv4_cksum = (\<lambda>_. 0), rte_ipv4_udptcp_cksum = (\<lambda>_ _. 0)\<rparr>"

definition packet_flow :: "rte_mbuf \<Rightarrow> FlowKey option" where
  "packet_flow m = (case parse_udp_ipv4 any_cksum (Some m) False of
     Some (status, v, mo) \<Rightarrow> if status = ok then flow_key_from_view m v else None
   | None \<Rightarrow> None)"

definition burst_flows :: "rte_mbuf list \<Rightarrow> FlowKey list" where
  "burst_flows rx = List.map_filter packet_flow rx"

lemma burst_flows_simps:
  "burst_flows [] = []" "burst_flows (m # rx) = (case packet_flow m of None \<Rightarrow> burst_flows rx | Some k \<Rightarrow> k # burst_flows rx)"
  by (simp_all add: burst_flows_def map_filter_simps split: option.split)

lemma burst_flows_Cons: "burst_flows (m # rx) = burst_flows [m] @ burst_flows rx"
  by (simp add: burst_flows_simps split: option.split)

lemma packet_flow_accepted:
  assumes "mbuf_ok m" "parse_udp_ipv4 ck (Some m) vf = Some (ok, v, mo)"
  shows "packet_flow m = flow_key_from_view m v" "mo = Some m"
  using assms parse_udp_ipv4_iff [OF assms(1), of any_cksum False v "Some m"] parse_udp_ipv4_iff [OF assms(1), of ck vf v mo]
  by (auto simp: packet_flow_def)

definition gw_related ::
    "(u64 \<Rightarrow> UpstreamEndpoint list \<Rightarrow> FlowKey list \<Rightarrow> SessionTable \<Rightarrow> SessionTable \<Rightarrow> bool) \<Rightarrow>
     u64 \<Rightarrow> FlowKey list \<Rightarrow> VioletGW \<Rightarrow> VioletGW \<Rightarrow> bool" where
  "gw_related rel now fs gw gw' \<longleftrightarrow> ut_nodes (gw_upstreams gw') = ut_nodes (gw_upstreams gw) \<and>
     (case gw_sessions gw of None \<Rightarrow> gw_sessions gw' = None
      | Some st \<Rightarrow> \<exists>st'. gw_sessions gw' = Some st' \<and> rel now (ut_nodes (gw_upstreams gw)) fs st st')"

text \<open>
  What packets can do to the sessions, as a contract: a relation over the time of the packets,
  the current upstreams, the flows of the packets in order and the tables before and after that
  holds for the operations through which the forwarder uses the table. It then holds for a packet
  and for a burst.
\<close>

locale packet_effect =
  fixes rel :: "u64 \<Rightarrow> UpstreamEndpoint list \<Rightarrow> FlowKey list \<Rightarrow> SessionTable \<Rightarrow> SessionTable \<Rightarrow> bool"
  assumes rel_refl: "rel now eps fs st st"
    and rel_trans: "rel now eps fs st st1 \<Longrightarrow> rel now eps gs st1 st2 \<Longrightarrow> rel now eps (fs @ gs) st st2"
    and rel_touch_forward: "st_inv st \<Longrightarrow> lookup_forward st k = Some p \<Longrightarrow> touch st (Some p) now = Some st' \<Longrightarrow> rel now eps [k] st st'"
    and rel_touch_reverse: "st_inv st \<Longrightarrow> lookup_reverse st k = Some p \<Longrightarrow> touch st (Some p) now = Some st' \<Longrightarrow> rel now eps [k] st st'"
    and rel_create: "st_inv st \<Longrightarrow> lookup_forward st k = None \<Longrightarrow> create st k ip po now = (r, st') \<Longrightarrow>
      \<lparr>ue_ip_be = ip, ue_port = po\<rparr> \<in> set eps \<Longrightarrow> rel now eps [k] st st'"

begin

declare rel_refl [simp]

lemma flow_session_rel:
  assumes "st_inv st" "flow_session gw_picker st u key now = Some (sp, st1, u1)"
  shows "rel now (ut_nodes u) [key] st st1 \<and> ut_nodes u1 = ut_nodes u"
proof (cases "lookup_forward st key")
  case (Some p)
  then show ?thesis
    using assms(2) rel_touch_forward [OF assms(1) Some] by (auto simp: flow_session_def bind_eq_Some_conv)
next
  case None
  obtain pk where pk: "gw_picker = Some pk" by (simp add: gw_picker_def)
  obtain r u' where r: "pk u key = (r, u')" by fastforce
  note mem = gw_picker_member [OF pk r]
  show ?thesis
  proof (cases "\<exists>up. r = Some up \<and> up_ip_be up \<noteq> 0")
    case True
    then obtain up where up: "r = Some up" "up_ip_be up \<noteq> 0" by blast
    then have "create st key (up_ip_be up) (up_port up) now = (sp, st1)" "u1 = u'"
      using assms(2) r by (simp_all add: flow_session_def None pk split: prod.splits)
    then show ?thesis
      using rel_create [OF assms(1) None] mem up by blast
  next
    case False
    then have "st1 = st" "u1 = u'"
      using assms(2) r by (auto simp: flow_session_def None pk split: option.splits if_splits)
    then show ?thesis using mem by simp
  qed
qed

lemma fwd_handle_rel:
  assumes "st_inv st" "mbuf_ok m" "fwd_handle ck cfg gw_picker nbrs (Some m) now st u = Some (o', mo', st', u')"
  shows "rel now (ut_nodes u) (burst_flows [m]) st st' \<and> ut_nodes u' = ut_nodes u"
proof -
  have fw: "rel now (ut_nodes u) [k] st st1 \<and> ut_nodes u1 = ut_nodes u"
    if "handle_forward ck cfg gw_picker nbrs m v now st u = Some (o1, m1, st1, u1)" "flow_key_from_view m v = Some k" for v o1 m1 st1 u1 k
    using that flow_session_rel [OF assms(1), of u _ now]
    by (auto simp: handle_forward_def bind_eq_Some_conv split: option.splits)
  have rv: "rel now (ut_nodes u) [k] st st1"
    if "handle_reverse ck cfg nbrs m v now st = Some (o1, m1, st1)" "flow_key_from_view m v = Some k" for v o1 m1 st1 k
    using that rel_touch_reverse [OF assms(1)]
    by (auto simp: handle_reverse_def bind_eq_Some_conv split: option.splits)
  obtain status v mo1 where p: "parse_udp_ipv4 ck (Some m) (fc_verify_checksum cfg) = Some (status, v, mo1)"
    using assms(3) by (auto simp: fwd_handle_def bind_eq_Some_conv)
  show ?thesis
  proof (cases "mo1 = None \<or> status \<noteq> ok")
    case True
    then show ?thesis using assms(3) by (auto simp: fwd_handle_def p split: option.splits)
  next
    case False
    then have m: "status = ok" "mo1 = Some m" "packet_flow m = flow_key_from_view m v"
      using packet_flow_accepted [OF assms(2), of ck _ v mo1] p by auto
    obtain udp len where f: "udp_frame m udp len" "v = udp_view udp len"
      using parse_udp_ipv4_iff [OF assms(2)] p m(1) by blast
    obtain k where k: "flow_key_from_view m v = Some k" "burst_flows [m] = [k]"
      using frame_flow_defined [OF udp_frame_bounds [OF assms(2) f(1)]] m(3) by (auto simp: flow_key_of_frame f(2) burst_flows_simps)
    obtain dst dport where d: "dst_ip m v = Some dst" "dst_port m v = Some dport"
      using assms(3) by (auto simp: fwd_handle_def p m bind_eq_Some_conv)
    note h = assms(3) [unfolded fwd_handle_def p]
    consider "dst = vip_ip_be (fc_vip cfg) \<and> dport = vip_ep_port (fc_vip cfg)"
      | "\<not> (dst = vip_ip_be (fc_vip cfg) \<and> dport = vip_ep_port (fc_vip cfg))" "dst = fc_gateway_ip_be cfg"
      | "\<not> (dst = vip_ip_be (fc_vip cfg) \<and> dport = vip_ep_port (fc_vip cfg))" "dst \<noteq> fc_gateway_ip_be cfg"
      by blast
    then show ?thesis
    proof cases
      case 1
      then show ?thesis using h m d fw k by (auto simp: bind_eq_Some_conv)
    next
      case 2
      then show ?thesis using h m d rv k by (auto simp: bind_eq_Some_conv)
    next
      case 3
      then show ?thesis using h m d by auto
    qed
  qed
qed

lemma gw_rel_same:
  "gw_sessions gw' = gw_sessions gw \<Longrightarrow> gw_upstreams gw' = gw_upstreams gw \<Longrightarrow> gw_related rel now fs gw gw'"
  by (simp add: gw_related_def split: option.split)

lemma gw_rel_trans:
  assumes "gw_related rel now fs gw gw1" "gw_related rel now gs gw1 gw2"
  shows "gw_related rel now (fs @ gs) gw gw2"
  using assms by (auto simp: gw_related_def split: option.splits intro: rel_trans)

lemma vgw_handle_rel:
  assumes inv: "gw_inv gw" "mbuf_ok m" and h: "vgw_handle ck gw (Some m) now = Some (o', mo', gw')"
  shows "gw_related rel now (burst_flows [m]) gw gw'"
proof -
  have fwd: "gw_related rel now (burst_flows [m]) gw (gw\<lparr>gw_neighbors := nb, gw_sessions := Some st1, gw_upstreams := u1\<rparr>)"
    if "gw_sessions gw = Some st" "fwd_handle ck fcfg gw_picker nbrs (Some m) now st (gw_upstreams gw) = Some (ho, mo1, st1, u1)"
    for st nb nbrs fcfg ho mo1 st1 u1
    using fwd_handle_rel [OF _ inv(2) that(2)] inv that(1) by (auto simp: gw_related_def gw_inv_def)
  show ?thesis
    using h fwd
    by (auto simp: vgw_handle_def bind_eq_Some_conv intro: gw_rel_same split: option.splits if_splits)
qed

lemma process_packet_rel:
  assumes inv: "gw_inv (bs_gw s)" "mbuf_ok m" and p: "process_packet ck alloc now m s = Some s'"
  shows "gw_related rel now (burst_flows [m]) (bs_gw s) (bs_gw s')"
proof -
  obtain o' mo gw1 m1 gw2 tx1 fr where h: "vgw_handle ck (bs_gw s) (Some m) now = Some (o', mo, gw1)"
    and fl: "(if ho_learned_ip_be o' \<noteq> 0 then flush_pending ck gw1 (ho_learned_ip_be o') now (bs_tx s) kBurst
      else Some (gw1, bs_tx s, [])) = Some (gw2, tx1, fr)"
    and pl: "place alloc now o' m1 (s\<lparr>bs_gw := gw2, bs_tx := tx1, bs_freed := bs_freed s @ fr\<rparr>) = Some s'"
    using p by (auto simp: process_packet_def bind_eq_Some_conv)
  have "gw_sessions gw2 = gw_sessions gw1 \<and> gw_upstreams gw2 = gw_upstreams gw1"
    using fl by (auto split: if_splits dest: flush_pending_frames)
  with place_frames [OF pl] have "gw_related rel now [] gw1 (bs_gw s')"
    by (intro gw_rel_same) simp_all
  with vgw_handle_rel [OF inv h] show ?thesis using gw_rel_trans [of now "burst_flows [m]" "bs_gw s" gw1 "[]"] by simp
qed

lemma process_burst_rel:
  assumes "burst_ok s" "\<forall>m \<in> set rx. mbuf_ok m" "process_burst ck alloc now rx s = Some s'"
  shows "gw_related rel now (burst_flows rx) (bs_gw s) (bs_gw s')"
  using assms
proof (induction rx arbitrary: s)
  case Nil
  then show ?case by (simp add: gw_rel_same)
next
  case (Cons m rx)
  then obtain s1 where s1: "process_packet ck alloc now m s = Some s1" "process_burst ck alloc now rx s1 = Some s'"
    by (auto simp: bind_eq_Some_conv)
  have "burst_ok s1"
    using process_burst_ok [of s "[m]" ck alloc now s1] Cons.prems s1(1) by simp
  then have "gw_related rel now (burst_flows rx) (bs_gw s1) (bs_gw s')"
    using Cons.IH [OF _ _ s1(2)] Cons.prems by simp
  moreover have "gw_related rel now (burst_flows [m]) (bs_gw s) (bs_gw s1)"
    using process_packet_rel [OF _ _ s1(1)] Cons.prems(1,2) by (simp add: burst_ok_def)
  ultimately have "gw_related rel now (burst_flows [m] @ burst_flows rx) (bs_gw s) (bs_gw s')" by (rule gw_rel_trans [rotated])
  then show ?case by (simp only: burst_flows_Cons [of m rx])
qed

end

interpretation evo: packet_effect "\<lambda>now eps fs. evolved now eps"
  by unfold_locales (auto intro: evolved_trans touch_evolved create_evolved)

section \<open>How housekeeping changes them\<close>

lemma expire_pending_frames:
  "gw_sessions (fst (expire_pending gw now)) = gw_sessions gw" "gw_upstreams (fst (expire_pending gw now)) = gw_upstreams gw"
  "gw_cp (fst (expire_pending gw now)) = gw_cp gw"
  by (simp_all add: expire_pending_def)

lemma expire_neighbors_frames:
  "gw_sessions (expire_neighbors gw now) = gw_sessions gw" "gw_upstreams (expire_neighbors gw now) = gw_upstreams gw"
  "gw_cp (expire_neighbors gw now) = gw_cp gw"
  by (simp_all add: expire_neighbors_def split: option.split)

lemma poll_control_sessions: "gw_sessions (snd (poll_control mem gw)) = gw_sessions gw"
  by (simp add: poll_control_def split: option.split prod.split)

definition sweep_due :: "run_timers \<Rightarrow> u64 \<Rightarrow> bool" where
  "sweep_due t now \<longleftrightarrow> now - rt_last_expire_ms t \<ge> SESSION_EXPIRE_INTERVAL_MS"

lemma housekeeping_sessions:
  assumes inv: "gw_inv gw" and st: "gw_sessions gw = Some st" and hk: "housekeeping mem now t gw = Some (t', gw', fr)"
  obtains st' where "gw_sessions gw' = Some st'"
    "if sweep_due t now then \<exists>n. expire st now = Some (n, st') else st' = st"
    "rt_last_expire_ms t' = (if sweep_due t now then now else rt_last_expire_ms t)"
    "gw_upstreams gw' = (if now - rt_last_cp_poll_ms t \<ge> CP_POLL_INTERVAL_MS
       then gw_upstreams (snd (poll_control mem gw)) else gw_upstreams gw)"
proof -
  have si: "st_inv st" using inv st by (simp add: gw_inv_def)
  obtain n st1 where ex: "expire st now = Some (n, st1)" using expire_spec [OF si] by blast
  let ?gw1 = "if sweep_due t now then gw\<lparr>gw_sessions := Some st1\<rparr> else gw"
  let ?t1 = "if sweep_due t now then t\<lparr>rt_last_expire_ms := now\<rparr> else t"
  have s1: "(if now - rt_last_expire_ms t \<ge> SESSION_EXPIRE_INTERVAL_MS
      then do { gw1 \<leftarrow> expire_sessions gw now; Some (t\<lparr>rt_last_expire_ms := now\<rparr>, gw1) } else Some (t, gw)) = Some (?t1, ?gw1)"
    using st ex by (simp add: sweep_due_def expire_sessions_def)
  obtain t2 gw2 fr2 where s2: "(if now - rt_last_arp_expire_ms ?t1 \<ge> ARP_EXPIRE_INTERVAL_MS
      then (case expire_pending (expire_neighbors ?gw1 now) now of (gw2, freed) \<Rightarrow> (?t1\<lparr>rt_last_arp_expire_ms := now\<rparr>, gw2, freed))
      else (?t1, ?gw1, [])) = (t2, gw2, fr2)" by (metis prod_cases3)
  have f2: "gw_sessions gw2 = gw_sessions ?gw1" "gw_upstreams gw2 = gw_upstreams gw" "gw_cp gw2 = gw_cp gw"
    "rt_last_expire_ms t2 = rt_last_expire_ms ?t1" "rt_last_cp_poll_ms t2 = rt_last_cp_poll_ms t"
    using s2 expire_pending_frames [of "expire_neighbors ?gw1 now" now] expire_neighbors_frames [of ?gw1 now]
    by (auto split: if_splits prod.splits)
  have r: "(t', gw') = (if now - rt_last_cp_poll_ms t2 \<ge> CP_POLL_INTERVAL_MS
      then (t2\<lparr>rt_last_cp_poll_ms := now\<rparr>, snd (poll_control mem gw2)) else (t2, gw2))"
    using hk unfolding housekeeping_def s1 by (auto simp: s2 split: if_splits)
  have up: "gw_upstreams (snd (poll_control mem gw2)) = gw_upstreams (snd (poll_control mem gw))"
    using f2(2,3) by (simp add: poll_control_def split: option.split prod.split)
  show thesis
  proof (rule that [of "if sweep_due t now then st1 else st"])
    show "gw_sessions gw' = Some (if sweep_due t now then st1 else st)"
      using r f2(1) st poll_control_sessions [of mem gw2] by (auto split: if_splits)
    show "rt_last_expire_ms t' = (if sweep_due t now then now else rt_last_expire_ms t)"
      using r f2(4) by (auto split: if_splits)
    show "gw_upstreams gw' = (if now - rt_last_cp_poll_ms t \<ge> CP_POLL_INTERVAL_MS
       then gw_upstreams (snd (poll_control mem gw)) else gw_upstreams gw)"
      using r f2(2,5) up by (auto split: if_splits)
  qed (simp add: ex)
qed

lemma swept_sessions:
  assumes "st_inv st" and "if due then \<exists>n. expire st now = Some (n, st') else st' = st"
  shows "st_inv st'" "same_config st st'" "st_heap st' p = (if due \<and> idle st now p then None else st_heap st p)"
proof -
  have sw: "swept now 0 st st'" if due using expire_swept [OF assms(1)] assms(2) that by auto
  show "st_inv st'" "same_config st st'"
    using assms sw by (cases due; simp add: swept_def same_config_def)+
  show "st_heap st' p = (if due \<and> idle st now p then None else st_heap st p)"
    using assms(2) swept_heap [OF assms(1) sw] by (cases due) simp_all
qed

text \<open>A whole turn: housekeeping, then packets.\<close>

lemma run_turn_parts:
  assumes inv: "gw_inv gw" and run: "run_turn ck alloc send mem now rx t gw pool n = Some (t', s, n')"
  obtains gw1 fr b0 b where "housekeeping mem now t gw = Some (t', gw1, fr)" "gw_inv gw1" "bs_gw b0 = gw1" "burst_ok b0"
    "process_burst ck alloc now rx b0 = Some b" "bs_gw s = bs_gw b"
proof -
  obtain t1 gw1 fr where hk: "housekeeping mem now t gw = Some (t1, gw1, fr)" "gw_inv gw1"
    using housekeeping_ok [OF inv] by metis
  define b0 where "b0 = \<lparr>bs_gw = gw1, bs_tx = [], bs_drop = [], bs_pool = pool, bs_allocated = [], bs_freed = fr, bs_lost = []\<rparr>"
  obtain b where "process_burst ck alloc now rx b0 = Some b" "bs_gw s = bs_gw b" "t' = t1"
    using run hk(1) by (cases "rx = []") (auto simp: run_turn_def Let_def b0_def bind_eq_Some_conv case_prod_beta)
  moreover have "burst_ok b0" using hk(2) by (simp add: burst_ok_def b0_def)
  ultimately show thesis using that [of gw1 fr b0 b] hk by (simp add: b0_def)
qed

lemma run_turn_sessions:
  assumes inv: "gw_inv gw" and rx: "\<forall>m \<in> set rx. mbuf_ok m" and st: "gw_sessions gw = Some st"
    and run: "run_turn ck alloc send mem now rx t gw pool n = Some (t', s, n')"
  obtains st0 st' where "same_config st st0"
    "\<And>p. st_heap st0 p = (if sweep_due t now \<and> idle st now p then None else st_heap st p)"
    "rt_last_expire_ms t' = (if sweep_due t now then now else rt_last_expire_ms t)"
    "gw_sessions (bs_gw s) = Some st'" "evolved now (ut_nodes (gw_upstreams (bs_gw s))) st0 st'"
    "ut_nodes (gw_upstreams (bs_gw s)) = ut_nodes (if now - rt_last_cp_poll_ms t \<ge> CP_POLL_INTERVAL_MS
       then gw_upstreams (snd (poll_control mem gw)) else gw_upstreams gw)"
proof -
  obtain gw1 fr b0 b where p: "housekeeping mem now t gw = Some (t', gw1, fr)" "bs_gw b0 = gw1" "burst_ok b0"
    "process_burst ck alloc now rx b0 = Some b" "bs_gw s = bs_gw b"
    using run_turn_parts [OF inv run] by metis
  obtain st0 where h: "gw_sessions gw1 = Some st0" "if sweep_due t now then \<exists>n. expire st now = Some (n, st0) else st0 = st"
    "rt_last_expire_ms t' = (if sweep_due t now then now else rt_last_expire_ms t)"
    "gw_upstreams gw1 = (if now - rt_last_cp_poll_ms t \<ge> CP_POLL_INTERVAL_MS
       then gw_upstreams (snd (poll_control mem gw)) else gw_upstreams gw)"
    using housekeeping_sessions [OF inv st p(1)] by blast
  have "st_inv st" using inv st by (simp add: gw_inv_def)
  note sw = swept_sessions [OF this h(2)]
  from evo.process_burst_rel [OF p(3) rx p(4)] obtain st' where st': "gw_sessions (bs_gw s) = Some st'"
    "evolved now (ut_nodes (gw_upstreams gw1)) st0 st'" "ut_nodes (gw_upstreams (bs_gw s)) = ut_nodes (gw_upstreams gw1)"
    using h(1) by (auto simp: gw_related_def p(2,5))
  show thesis
    by (rule that [OF sw(2,3) h(3) st'(1)]) (use h(4) st' in simp_all)
qed

section \<open>Time\<close>

text \<open>Turns under the steady clock: the time of a turn is not before that of the turn before.\<close>

inductive clock_step :: "u64 \<times> run_timers \<times> VioletGW \<Rightarrow> u64 \<times> run_timers \<times> VioletGW \<Rightarrow> bool" where
  "run_turn ck (alloc :: nat allocator) (send :: nat \<Rightarrow> rte_mbuf list \<Rightarrow> nat \<times> nat) mem now rx t gw pool n = Some (t', s, n') \<Longrightarrow>
    \<forall>m \<in> set rx. mbuf_ok m \<Longrightarrow> before \<le> now \<Longrightarrow> clock_step (before, t, gw) (now, t', bs_gw s)"

definition recently_active :: "u64 \<Rightarrow> u64 \<times> run_timers \<times> VioletGW \<Rightarrow> bool" where
  "recently_active timeout = (\<lambda>(now, t, gw). gw_inv gw \<and> rt_last_expire_ms t \<le> now \<and>
     unat now < unat (rt_last_expire_ms t) + 1000 \<and>
     (\<exists>st. gw_sessions gw = Some st \<and> st_idle_timeout_ms st = timeout \<and>
       (\<forall>p s. st_heap st p = Some s \<longrightarrow> s_last_active_ms s \<le> now \<and>
          unat (rt_last_expire_ms t) < unat (s_last_active_ms s) + unat timeout)))"

lemma unat_sub_le: "(b :: u64) \<le> a \<Longrightarrow> unat (a - b) = unat a - unat b"
  by (simp add: unat_sub word_le_nat_alt)

lemma sweep_due_iff:
  "rt_last_expire_ms t \<le> now \<Longrightarrow> sweep_due t now \<longleftrightarrow> unat (rt_last_expire_ms t) + 1000 \<le> unat now"
  by (auto simp: sweep_due_def SESSION_EXPIRE_INTERVAL_MS_def word_le_nat_alt unat_sub_le)

lemma clock_step_active:
  assumes "0 < timeout" "recently_active timeout x" "clock_step x y"
  shows "recently_active timeout y"
  using assms(3)
proof cases
  case (1 ck alloc send mem now rx t gw pool n t' s n' before)
  have "gw_inv gw" and le: "rt_last_expire_ms t \<le> before" using assms(2) by (simp_all add: recently_active_def 1)
  obtain st where st: "gw_sessions gw = Some st" "st_idle_timeout_ms st = timeout"
    "\<And>p s. st_heap st p = Some s \<Longrightarrow> s_last_active_ms s \<le> before \<and> unat (rt_last_expire_ms t) < unat (s_last_active_ms s) + unat timeout"
    using assms(2) by (auto simp: recently_active_def 1)
  obtain st0 st' where r: "same_config st st0"
    "\<And>p. st_heap st0 p = (if sweep_due t now \<and> idle st now p then None else st_heap st p)"
    "rt_last_expire_ms t' = (if sweep_due t now then now else rt_last_expire_ms t)"
    "gw_sessions (bs_gw s) = Some st'" "evolved now (ut_nodes (gw_upstreams (bs_gw s))) st0 st'"
    using run_turn_sessions [OF \<open>gw_inv gw\<close> 1(4) st(1) 1(3)] by blast
  have now: "rt_last_expire_ms t \<le> now" using le 1(5) by simp
  have late: "rt_last_expire_ms t' \<le> now" "unat now < unat (rt_last_expire_ms t') + 1000"
    using now r(3) sweep_due_iff [OF now] by auto
  have kept: "s_last_active_ms q \<le> now \<and> unat (rt_last_expire_ms t') < unat (s_last_active_ms q) + unat timeout"
    if q: "st_heap st0 p = Some q" for p q
  proof -
    have old: "st_heap st p = Some q" "\<not> (sweep_due t now \<and> idle st now p)"
      using q r(2) [of p] by (auto split: if_splits)
    have qle: "s_last_active_ms q \<le> now" using st(3) [OF old(1)] 1(5) by (blast intro: order_trans)
    have "unat now < unat (s_last_active_ms q) + unat timeout" if "sweep_due t now"
      using old that st(2) qle by (auto simp: idle_def word_le_nat_alt unat_sub_le not_le)
    then show ?thesis using st(3) [OF old(1)] qle r(3) by auto
  qed
  have "s_last_active_ms q \<le> now \<and> unat (rt_last_expire_ms t') < unat (s_last_active_ms q) + unat timeout"
    if "st_heap st' p = Some q" for p q
  proof -
    note q = evolvedD(4) [OF r(5) that]
    consider q0 where "st_heap st0 p = Some q0" "q = q0" | "s_last_active_ms q = now"
      using q by auto
    then show ?thesis
    proof cases
      case 1
      then show ?thesis using kept by blast
    next
      case 2
      moreover have "0 < unat timeout" using assms(1) by (simp add: word_less_nat_alt)
      moreover have "unat (rt_last_expire_ms t') \<le> unat now" using late(1) by (simp add: word_le_nat_alt)
      ultimately show ?thesis by simp
    qed
  qed
  moreover have "gw_inv (bs_gw s)" using run_turn_ok [OF \<open>gw_inv gw\<close> 1(4) 1(3)] by blast
  moreover have "st_idle_timeout_ms st' = timeout" using r(1,5) st(2) by (simp add: evolved_def same_config_def)
  ultimately show ?thesis using r(4) late by (auto simp: recently_active_def 1)
qed

interpretation clock: kept_invariant clock_step "\<lambda>x. 0 < timeout \<longrightarrow> recently_active timeout x" for timeout
  by unfold_locales (blast intro: clock_step_active)

section \<open>Properties\<close>

text \<open>
  C12: no session outlives its idle timeout by more than the sweep interval. From the start of the
  worker loop with an empty session table, whatever traffic arrives and however long the turns
  take, at the end of every turn each session in the table was active less than the idle timeout
  plus one second before the time of the turn, as long as the clock does not go back.
\<close>

theorem idle_sessions_bounded:
  assumes "gw_inv gw" "gw_sessions gw = Some st" "st_heap st = Map.empty" "0 < st_idle_timeout_ms st"
    and "rt_last_expire_ms t = start"
    and "clock_step\<^sup>*\<^sup>* (start, t, gw) (now, t', gw')"
  shows "\<exists>st'. gw_sessions gw' = Some st' \<and> (\<forall>p s. st_heap st' p = Some s \<longrightarrow>
    s_last_active_ms s \<le> now \<and>
    unat (now - s_last_active_ms s) < unat (st_idle_timeout_ms st) + unat SESSION_EXPIRE_INTERVAL_MS)"
proof -
  have "recently_active (st_idle_timeout_ms st) (start, t, gw)"
    using assms(1-5) by (simp add: recently_active_def)
  then have "recently_active (st_idle_timeout_ms st) (now, t', gw')"
    using clock.run_keeps [OF assms(6), of "st_idle_timeout_ms st"] assms(4) by blast
  then show ?thesis
    by (fastforce simp: recently_active_def unat_sub_le SESSION_EXPIRE_INTERVAL_MS_def)
qed

lemma ex_gw_sessions:
  "gw_sessions ex_gw = Some (session_table (le32 192 168 1 10) 60000 10000 60000)"
  by (simp add: ex_gw_def)

lemma ex_clock_step:
  "\<exists>t' s. clock_step (5, ex_timers\<lparr>rt_last_expire_ms := 5\<rparr>, ex_gw) (9, t', bs_gw (s :: nat burst_state)) \<and>
     gw_inv (bs_gw s)"
proof -
  have rx: "\<forall>m \<in> set [ex_request]. mbuf_ok m" using ex_request_ok by simp
  obtain t' s n' where run: "run_turn ex_cksum (\<lambda>p. (None, p)) (\<lambda>n tx. (length tx, n)) (\<lambda>_. fresh_segment None) 9 [ex_request]
      (ex_timers\<lparr>rt_last_expire_ms := 5\<rparr>) ex_gw (0 :: nat) (0 :: nat) = Some (t', s, n')"
    using run_turn_defined [OF ex_gw_inv rx, of ex_cksum "\<lambda>p. (None, p)" "\<lambda>n tx. (length tx, n)" "\<lambda>_. fresh_segment None" 9
        "ex_timers\<lparr>rt_last_expire_ms := 5\<rparr>" 0 0] by (auto simp: ex_gw_def)
  then have "clock_step (5, ex_timers\<lparr>rt_last_expire_ms := 5\<rparr>, ex_gw) (9, t', bs_gw s)"
    by (rule clock_step.intros [OF _ rx]) simp
  then show ?thesis
    using run_turn_ok [OF ex_gw_inv rx run] by blast
qed

theorem idle_sessions_bounded_witness:
  "\<exists>t' gw' st'. clock_step\<^sup>*\<^sup>* (5, ex_timers\<lparr>rt_last_expire_ms := 5\<rparr>, ex_gw) (9, t', gw') \<and> gw_sessions gw' = Some st' \<and>
     (\<forall>p s. st_heap st' p = Some s \<longrightarrow> unat (9 - s_last_active_ms s) < 61000)"
proof -
  obtain t' gw' where step: "clock_step\<^sup>*\<^sup>* (5, ex_timers\<lparr>rt_last_expire_ms := 5\<rparr>, ex_gw) (9, t', gw')"
    using ex_clock_step by blast
  from idle_sessions_bounded [OF ex_gw_inv ex_gw_sessions _ _ _ step] obtain st' where
    "gw_sessions gw' = Some st'" "\<forall>p s. st_heap st' p = Some s \<longrightarrow> unat (9 - s_last_active_ms s) < 61000"
    by (auto simp: session_table_def SESSION_EXPIRE_INTERVAL_MS_def)
  with step show ?thesis by blast
qed

text \<open>
  C13: what the control plane publishes reaches the traffic, and only new flows. In the first turn
  after a publish in which the poll is due, the published endpoints replace the upstreams before
  any packet of the turn is handled. Every session that was in the table, unless this turn sweeps
  it as idle, is there afterwards with the same flow, upstream and port (at most its activity time
  is new), and every other session goes to one of the published endpoints.
\<close>

theorem published_upstreams_take_effect:
  assumes gw: "gw_inv gw" "gw_sessions gw = Some st" "gw_cp gw = Some shm"
    and seg: "shm_ok h" "cs_magic h = VGW_CP_SHM_MAGIC" "length (seed_endpoints seed) \<le> 64"
      "sh_last_applied shm \<noteq> next_version h"
    and due: "now - rt_last_cp_poll_ms t \<ge> CP_POLL_INTERVAL_MS"
    and run: "\<forall>m \<in> set rx. mbuf_ok m"
      "run_turn ck alloc send (\<lambda>_. publish h seed) now rx t gw pool n = Some (t', s, n')"
  shows "\<exists>st'. gw_sessions (bs_gw s) = Some st' \<and> ut_nodes (gw_upstreams (bs_gw s)) = seed_endpoints seed \<and>
    (\<forall>p. case if sweep_due t now \<and> idle st now p then None else st_heap st p of
       Some old \<Rightarrow> st_heap st' p = Some old \<or> st_heap st' p = Some (old\<lparr>s_last_active_ms := now\<rparr>)
     | None \<Rightarrow> \<forall>ses. st_heap st' p = Some ses \<longrightarrow> session_endpoint ses \<in> set (seed_endpoints seed))"
proof -
  have take_all: "take (unat (seed_count seed)) (seed_endpoints seed) = seed_endpoints seed"
    using seg(3) by (simp add: unat_seed_count)
  have "poll_apply (Some (\<lambda>_. publish h seed)) (sh_last_applied shm) (Some (gw_upstreams gw)) =
      (True, next_version h, Some (seeded (gw_upstreams gw) seed))"
    using poll_sees_seed [OF seg(1), of "\<lambda>_. publish h seed" "next_version h" "sh_last_applied shm" seed] seg
    by (simp add: publish_def write_seed_eq [OF seg(1)] next_version_nz)
  then have ups: "ut_nodes (gw_upstreams (snd (poll_control (\<lambda>_. publish h seed) gw))) = seed_endpoints seed"
    using gw(3) take_all by (simp add: poll_control_def seeded_def ut_set_def set_policy_def)
  obtain st0 st' where r: "same_config st st0"
    "\<And>p. st_heap st0 p = (if sweep_due t now \<and> idle st now p then None else st_heap st p)"
    "gw_sessions (bs_gw s) = Some st'" "evolved now (ut_nodes (gw_upstreams (bs_gw s))) st0 st'"
    "ut_nodes (gw_upstreams (bs_gw s)) = seed_endpoints seed"
  proof (rule run_turn_sessions [OF gw(1) run(1) gw(2) run(2)])
    fix st0 st' assume h: "same_config st st0"
      "\<And>p. st_heap st0 p = (if sweep_due t now \<and> idle st now p then None else st_heap st p)"
      "gw_sessions (bs_gw s) = Some st'" "evolved now (ut_nodes (gw_upstreams (bs_gw s))) st0 st'"
      "ut_nodes (gw_upstreams (bs_gw s)) = ut_nodes (if now - rt_last_cp_poll_ms t \<ge> CP_POLL_INTERVAL_MS
         then gw_upstreams (snd (poll_control (\<lambda>_. publish h seed) gw)) else gw_upstreams gw)"
    show thesis by (rule that [OF h(1-4)]) (use h(5) due ups in simp)
  qed
  show ?thesis
    using r(3,5) evolvedD(2,3) [OF r(4)] unfolding r(2) [symmetric] r(5)
    by (auto split: option.split)
qed

theorem published_upstreams_take_effect_witness:
  "\<exists>t' s n'. run_turn ex_cksum (\<lambda>p. (None, p)) (\<lambda>n tx. (length tx, n)) (\<lambda>_. publish ex_segment (ex_seed policy_rr [7, 8])) 2000
      [ex_request] ex_timers (ex_gw\<lparr>gw_cp := Some \<lparr>sh_name = CP_SHM_NAME, sh_fd = 3, sh_last_applied = 0\<rparr>\<rparr>) (0 :: nat) (0 :: nat) =
        Some (t', s, n') \<and>
     ut_nodes (gw_upstreams (bs_gw s)) = [\<lparr>ue_ip_be = 7, ue_port = 53\<rparr>, \<lparr>ue_ip_be = 8, ue_port = 53\<rparr>]"
proof -
  let ?gw = "ex_gw\<lparr>gw_cp := Some \<lparr>sh_name = CP_SHM_NAME, sh_fd = 3, sh_last_applied = 0\<rparr>\<rparr>"
  have rx: "\<forall>m \<in> set [ex_request]. mbuf_ok m" using ex_request_ok by simp
  have gw: "gw_inv ?gw" "gw_sessions ?gw = Some (session_table (le32 192 168 1 10) 60000 10000 60000)"
    "gw_arp_pending ?gw = []"
    using ex_gw_inv by (simp_all add: gw_inv_def ex_gw_def)
  obtain t' s n' where run: "run_turn ex_cksum (\<lambda>p. (None, p)) (\<lambda>n tx. (length tx, n)) (\<lambda>_. publish ex_segment (ex_seed policy_rr [7, 8]))
      2000 [ex_request] ex_timers ?gw (0 :: nat) (0 :: nat) = Some (t', s, n')"
    using run_turn_defined [OF gw(1) rx, of ex_cksum "\<lambda>p. (None, p)" "\<lambda>n tx. (length tx, n)"
        "\<lambda>_. publish ex_segment (ex_seed policy_rr [7, 8])" 2000 ex_timers 0 0] gw(3) by auto
  have "ut_nodes (gw_upstreams (bs_gw s)) = seed_endpoints (ex_seed policy_rr [7, 8])"
    using published_upstreams_take_effect [OF gw(1,2) _ ex_segment_simps(1,2) _ _ _ rx run]
    by (auto simp: ex_seed_def next_version_def ex_segment_simps ex_timers_def CP_POLL_INTERVAL_MS_def Let_def)
  then show ?thesis using run by (auto simp: ex_seed_def)
qed

end
