(* ===== verification/Gateway_Nat.thy ===== *)
theory Gateway_Nat
  imports Gateway_Sessions "HOL-Library.Sublist"
begin

text \<open>
  The gateway as a translator: seen from outside, the worker loop of \<open>src/src/vgw.cpp\<close> with its
  services is a map from client flows to translations and a list of upstreams, changed by events.
  The specification has no buffers, pointers, timers or neighbors; the theory shows that the turns
  of the loop implement it, and which events each turn stands for.
\<close>

section \<open>Specification\<close>

text \<open>
  An event of a flow changes the map as \<open>nat_step\<close> says, where a flow may be opened only towards an
  upstream of the list in force; a publication replaces that list and touches no flow.
\<close>

datatype gw_event = Flow st_event | Published "UpstreamEndpoint list"

fun opens_to :: "UpstreamEndpoint list \<Rightarrow> st_event \<Rightarrow> bool" where
  "opens_to eps (Opened k ip po sn now) = (\<lparr>ue_ip_be = ip, ue_port = po\<rparr> \<in> set eps)"
| "opens_to eps e = True"

inductive gateway_spec ::
    "u32 \<Rightarrow> u64 \<Rightarrow> u16 set \<Rightarrow> nat_map \<times> UpstreamEndpoint list \<Rightarrow> gw_event \<Rightarrow> nat_map \<times> UpstreamEndpoint list \<Rightarrow> bool"
  for gw :: u32 and timeout :: u64 and pool :: "u16 set" where
  flows: "nat_step gw timeout pool m e m' \<Longrightarrow> opens_to eps e \<Longrightarrow> gateway_spec gw timeout pool (m, eps) (Flow e) (m', eps)"
| publishes: "gateway_spec gw timeout pool (m, eps) (Published eps') (m, eps')"

definition gw_abs :: "VioletGW \<Rightarrow> nat_map \<times> UpstreamEndpoint list" where
  "gw_abs gw = (case gw_sessions gw of None \<Rightarrow> Map.empty | Some st \<Rightarrow> sess_abs st, ut_nodes (gw_upstreams gw))"

section \<open>The events of a turn\<close>

text \<open>What a turn is given: its timers, the version applied last, the loads of the poll, the time and the packets.\<close>

record turn =
  tn_timers :: run_timers
  tn_applied :: "u32 option"
  tn_mem :: "nat \<Rightarrow> vgw_cp_shm"
  tn_now :: u64
  tn_rx :: "rte_mbuf list"

text \<open>The endpoints the loads of a poll find, and whether the poll takes them.\<close>

definition seen_endpoints :: "(nat \<Rightarrow> vgw_cp_shm) \<Rightarrow> UpstreamEndpoint list" where
  "seen_endpoints mem = map (\<lambda>i. \<lparr>ue_ip_be = ce_ip_be (cs_endpoints (mem (4 + 2 * i)) ! i),
     ue_port = ce_port (cs_endpoints (mem (5 + 2 * i)) ! i)\<rparr>) [0..<min 64 (unat (cs_count (mem 3)))]"

definition poll_takes :: "turn \<Rightarrow> bool" where
  "poll_takes tn \<longleftrightarrow> tn_now tn - rt_last_cp_poll_ms (tn_timers tn) \<ge> CP_POLL_INTERVAL_MS \<and>
     cs_magic (tn_mem tn 0) = VGW_CP_SHM_MAGIC \<and> cs_version (tn_mem tn 1) \<noteq> 0 \<and>
     tn_applied tn \<noteq> None \<and> tn_applied tn \<noteq> Some (cs_version (tn_mem tn 1)) \<and>
     cs_version (tn_mem tn (4 + 2 * length (seen_endpoints (tn_mem tn)))) = cs_version (tn_mem tn 1)"

text \<open>An event that a packet of the flow \<open>k\<close> causes at time \<open>now\<close>.\<close>

fun packet_event :: "u64 \<Rightarrow> FlowKey \<Rightarrow> st_event \<Rightarrow> bool" where
  "packet_event now k (Opened k' ip po sn t) = (k' = k \<and> t = now)"
| "packet_event now k (Refused k' t) = (k' = k \<and> t = now)"
| "packet_event now k (Refreshed k' t) = (k' = k \<and> t = now)"
| "packet_event now k (Answered k' t) = (k' = k \<and> t = now)"
| "packet_event now k (Swept t n) = False"

text \<open>Events of packets, at most one for each flow of the burst and in its order.\<close>

definition served :: "u64 \<Rightarrow> FlowKey list \<Rightarrow> st_event list \<Rightarrow> bool" where
  "served now fs es \<longleftrightarrow> (\<exists>gs. subseq gs fs \<and> list_all2 (packet_event now) gs es)"

text \<open>
  The events of a turn: one sweep when it is due, then one publication when the poll takes what it
  sees, then the events of the packets.
\<close>

definition turn_shows :: "turn \<Rightarrow> gw_event list \<Rightarrow> bool" where
  "turn_shows tn evs \<longleftrightarrow> (\<exists>n es. served (tn_now tn) (burst_flows (tn_rx tn)) es \<and>
     evs = (if sweep_due (tn_timers tn) (tn_now tn) then [Flow (Swept (tn_now tn) n)] else []) @
       (if poll_takes tn then [Published (seen_endpoints (tn_mem tn))] else []) @ map Flow es)"

section \<open>Packets\<close>

lemma served_append: "served now fs es \<Longrightarrow> served now gs es' \<Longrightarrow> served now (fs @ gs) (es @ es')"
  unfolding served_def by (blast intro: list_emb_append_mono list_all2_appendI)

definition packet_history :: "u64 \<Rightarrow> UpstreamEndpoint list \<Rightarrow> FlowKey list \<Rightarrow> SessionTable \<Rightarrow> SessionTable \<Rightarrow> bool" where
  "packet_history now eps fs st st' \<longleftrightarrow>
     (\<exists>es. served now fs es \<and> (\<forall>e \<in> set es. opens_to eps e) \<and> history st_does st es st')"

lemma one_packet_history: "st_does st e st' \<Longrightarrow> packet_event now k e \<Longrightarrow> opens_to eps e \<Longrightarrow> packet_history now eps [k] st st'"
  unfolding packet_history_def served_def by (intro exI [of _ "[e]"] conjI exI [of _ "[k]"]) simp_all

interpretation hist: packet_effect packet_history
proof (unfold_locales, goal_cases)
  case (1 now eps fs st)
  then show ?case by (auto simp: packet_history_def served_def intro: exI [of _ "[]"])
next
  case (2 now eps fs st st1 gs st2)
  then obtain es es' where es: "served now fs es" "\<forall>e \<in> set es. opens_to eps e" "history st_does st es st1"
    and es': "served now gs es'" "\<forall>e \<in> set es'. opens_to eps e" "history st_does st1 es' st2"
    unfolding packet_history_def by blast
  then show ?case
    unfolding packet_history_def
    by (intro exI [of _ "es @ es'"] conjI) (auto intro: served_append history_append)
next
  case (3 st k p now st' eps)
  then show ?case by (intro one_packet_history [OF st_does.refreshes]) simp_all
next
  case (4 st k p now st' eps)
  then show ?case by (intro one_packet_history [OF st_does.answers]) simp_all
next
  case (5 st k ip po now r st' eps)
  show ?case
  proof (cases r)
    case None
    then show ?thesis using 5 by (intro one_packet_history [OF st_does.refuses]) simp_all
  next
    case (Some p)
    then obtain s where "st_heap st' p = Some s" using snat.mk_new [OF 5(1,2), of ip po now p st'] 5(3) by auto
    then show ?thesis using 5 Some by (intro one_packet_history [OF st_does.opens]) simp_all
  qed
qed

section \<open>Simulation\<close>

lemma flow_history:
  assumes "history st_does st es st'" "\<forall>e \<in> set es. opens_to eps e" "st_inv st" "same_config st0 st"
  shows "st_inv st' \<and> same_config st0 st' \<and>
    history (gateway_spec (st_gateway_ip st0) (st_idle_timeout_ms st0) {q. in_pool st0 q}) (sess_abs st, eps) (map Flow es) (sess_abs st', eps)"
  using assms
proof (induction rule: history.induct)
  case (cons st e st1 es st')
  have st1: "st_inv st1" "same_config st0 st1"
    using nat_sim.step_keeps [of st st0 st1] cons.prems cons.hyps(1) by blast+
  have "nat_step (st_gateway_ip st0) (st_idle_timeout_ms st0) {q. in_pool st0 q} (sess_abs st) e (sess_abs st1)"
    using nat_sim.simulated [of st st0 e st1] cons.prems cons.hyps(1) by auto
  then have "gateway_spec (st_gateway_ip st0) (st_idle_timeout_ms st0) {q. in_pool st0 q} (sess_abs st, eps) (Flow e) (sess_abs st1, eps)"
    using cons.prems(1) by (simp add: flows)
  then show ?case using cons.IH st1 cons.prems(1) by (auto simp: history_cons)
qed simp

lemma poll_nodes:
  "ut_nodes (gw_upstreams (snd (poll_control mem gw))) =
     (if \<exists>shm. gw_cp gw = Some shm \<and> cs_magic (mem 0) = VGW_CP_SHM_MAGIC \<and> cs_version (mem 1) \<noteq> 0 \<and>
         cs_version (mem 1) \<noteq> sh_last_applied shm \<and> cs_version (mem (4 + 2 * length (seen_endpoints mem))) = cs_version (mem 1)
      then seen_endpoints mem else ut_nodes (gw_upstreams gw))"
proof -
  have "unat (if (64 :: u16) < c then 64 else c) = min 64 (unat c)" for c
    by (simp add: word_less_nat_alt min_def)
  then show ?thesis
    by (cases "gw_cp gw") (auto simp: poll_control_def poll_apply_def seen_endpoints_def Let_def ut_set_def set_policy_def)
qed

text \<open>A turn of the worker loop is a history of the specification, with the events of the turn.\<close>

definition turn_of :: "(nat \<Rightarrow> vgw_cp_shm) \<Rightarrow> u64 \<Rightarrow> rte_mbuf list \<Rightarrow> run_timers \<Rightarrow> VioletGW \<Rightarrow> turn" where
  "turn_of mem now rx t gw =
     \<lparr>tn_timers = t, tn_applied = map_option sh_last_applied (gw_cp gw), tn_mem = mem, tn_now = now, tn_rx = rx\<rparr>"

lemma turn_spec:
  assumes inv: "gw_inv gw" and st: "gw_sessions gw = Some st" "same_config st0 st" and rx: "\<forall>m \<in> set rx. mbuf_ok m"
    and run: "run_turn ck alloc send mem now rx t gw pool n = Some (t', s, n')"
  shows "(\<exists>st'. gw_sessions (bs_gw s) = Some st' \<and> same_config st0 st') \<and>
    (\<exists>evs. turn_shows (turn_of mem now rx t gw) evs \<and>
      history (gateway_spec (st_gateway_ip st0) (st_idle_timeout_ms st0) {q. in_pool st0 q}) (gw_abs gw) evs (gw_abs (bs_gw s)))"
proof -
  let ?spec = "gateway_spec (st_gateway_ip st0) (st_idle_timeout_ms st0) {q. in_pool st0 q}" and ?tn = "turn_of mem now rx t gw"
  obtain gw1 fr b0 b where p: "housekeeping mem now t gw = Some (t', gw1, fr)" "bs_gw b0 = gw1" "burst_ok b0"
    "process_burst ck alloc now rx b0 = Some b" "bs_gw s = bs_gw b"
    using run_turn_parts [OF inv run] by metis
  obtain st1 where h: "gw_sessions gw1 = Some st1" "if sweep_due t now then \<exists>n. expire st now = Some (n, st1) else st1 = st"
    "gw_upstreams gw1 = (if now - rt_last_cp_poll_ms t \<ge> CP_POLL_INTERVAL_MS
       then gw_upstreams (snd (poll_control mem gw)) else gw_upstreams gw)"
    using housekeeping_sessions [OF inv st(1) p(1)] by blast
  let ?eps = "ut_nodes (gw_upstreams gw)" and ?eps1 = "ut_nodes (gw_upstreams gw1)"
  have si: "st_inv st" using inv st(1) by (simp add: gw_inv_def)
  obtain k where "history st_does st (if sweep_due t now then [Swept now k] else []) st1"
    using h(2) by (cases "sweep_due t now") (auto intro: st_does.sweeps that)
  note sweep = flow_history [OF this _ si st(2), of ?eps]
  have "?eps1 = (if poll_takes ?tn then seen_endpoints mem else ?eps)"
    using h(3) poll_nodes [of mem gw] by (auto simp: poll_takes_def turn_of_def)
  then have poll: "history ?spec (sess_abs st1, ?eps) (if poll_takes ?tn then [Published (seen_endpoints mem)] else []) (sess_abs st1, ?eps1)"
    by (simp add: publishes)
  obtain st' es where st': "gw_sessions (bs_gw s) = Some st'" "ut_nodes (gw_upstreams (bs_gw s)) = ?eps1"
    and es: "served now (burst_flows rx) es" "\<forall>e \<in> set es. opens_to ?eps1 e" "history st_does st1 es st'"
    using hist.process_burst_rel [OF p(3) rx p(4)] h(1) by (auto simp: gw_related_def packet_history_def p(2,5))
  have st1: "st_inv st1" "same_config st0 st1"
    and sw: "history ?spec (sess_abs st, ?eps) (if sweep_due t now then [Flow (Swept now k)] else []) (sess_abs st1, ?eps)"
    using sweep by (auto split: if_splits)
  note burst = flow_history [OF es(3,2) st1]
  let ?evs = "(if sweep_due t now then [Flow (Swept now k)] else []) @
    (if poll_takes ?tn then [Published (seen_endpoints mem)] else []) @ map Flow es"
  have "history ?spec (gw_abs gw) ?evs (gw_abs (bs_gw s))"
    using history_append [OF sw history_append [OF poll]] burst st(1) st' by (simp add: gw_abs_def)
  moreover have "turn_shows ?tn ?evs"
    unfolding turn_shows_def using es(1) by (intro exI [of _ k] exI [of _ es]) (simp add: turn_of_def)
  ultimately show ?thesis using st'(1) burst by blast
qed

text \<open>Turns of the worker loop with any traffic, any clock and any control plane.\<close>

inductive gw_turn :: "run_timers \<times> VioletGW \<Rightarrow> turn \<Rightarrow> run_timers \<times> VioletGW \<Rightarrow> bool" where
  "run_turn ck (alloc :: nat allocator) (send :: nat \<Rightarrow> rte_mbuf list \<Rightarrow> nat \<times> nat) mem now rx t gw pool n = Some (t', s, n') \<Longrightarrow>
    \<forall>m \<in> set rx. mbuf_ok m \<Longrightarrow> gw_turn (t, gw) (turn_of mem now rx t gw) (t', bs_gw s)"

inductive_cases gw_turnE: "gw_turn x tn y"

interpretation gw_sim: simulation gw_turn
  "\<lambda>(t, gw). gw_inv gw \<and> (\<exists>st. gw_sessions gw = Some st \<and> same_config st0 st)" "\<lambda>(t, gw). gw_abs gw"
  "gateway_spec (st_gateway_ip st0) (st_idle_timeout_ms st0) {q. in_pool st0 q}" turn_shows for st0
proof (unfold_locales, goal_cases)
  case (1 x y)
  then obtain tn where "gw_turn x tn y" by blast
  then show ?case using 1(1) turn_spec run_turn_ok by (elim gw_turnE) fastforce
next
  case (2 x tn y)
  from 2(2) show ?case using 2(1) turn_spec by (elim gw_turnE) fastforce
qed

section \<open>Properties\<close>

text \<open>
  C3: the gateway implements a network address translator, turn by turn. Over its whole life,
  whatever packets arrive, whatever the control plane writes and whenever the timers fire, what
  each turn does to the flows is exactly: a sweep, when it is due, that removes the flows idle for
  the timeout and no others; a new list of upstreams, when the poll takes one, and that list is
  the one its loads found in the segment; and for packets of the turn, in their order and at its
  time, new flows, each on a port of the pool that no other flow holds and towards an upstream of
  the list then in force, refusals when all ports are held, and refreshed flows. A translation
  never changes while it lives, and a flow goes away in no other way.
\<close>

theorem gateway_refines_nat:
  assumes "gw_inv gw" "gw_sessions gw = Some (session_table ip timeout b e)" "b < e"
    and "history gw_turn (t, gw) turns (t', gw')"
  shows "\<exists>evss. list_all2 turn_shows turns evss \<and>
    history (gateway_spec ip timeout {q. b \<le> q \<and> q < e}) (Map.empty, ut_nodes (gw_upstreams gw)) (concat evss) (gw_abs gw')"
proof -
  let ?t = "session_table ip timeout b e"
  have "case (t, gw) of (t, gw) \<Rightarrow> gw_inv gw \<and> (\<exists>st. gw_sessions gw = Some st \<and> same_config ?t st)"
    using assms(1,2) by (simp add: same_config_def)
  note run = gw_sim.run_simulated [OF assms(4) this]
  have "st_gateway_ip ?t = ip" "st_idle_timeout_ms ?t = timeout" "{q. in_pool ?t q} = {q. b \<le> q \<and> q < e}"
    "gw_abs gw = (Map.empty, ut_nodes (gw_upstreams gw))"
    using assms(2,3) by (auto simp: session_table_def in_pool_def gw_abs_def sess_abs_def lookup_forward_def fun_eq_iff)
  with run show ?thesis by auto
qed

theorem gateway_refines_nat_witness:
  "\<exists>t' gw' evss. gw_turn (ex_timers, ex_gw) (turn_of (\<lambda>_. fresh_segment None) 5 [ex_request] ex_timers ex_gw) (t', gw') \<and>
     list_all2 turn_shows [turn_of (\<lambda>_. fresh_segment None) 5 [ex_request] ex_timers ex_gw] evss \<and>
     history (gateway_spec (le32 192 168 1 10) 60000 {q. 10000 \<le> q \<and> q < 60000})
       (Map.empty, [\<lparr>ue_ip_be = le32 10 0 0 1, ue_port = 53\<rparr>]) (concat evss) (gw_abs gw')"
proof -
  have rx: "\<forall>m \<in> set [ex_request]. mbuf_ok m" using ex_request_ok by simp
  obtain t' s n' where "run_turn ex_cksum (\<lambda>p. (None, p)) (\<lambda>n tx. (length tx, n)) (\<lambda>_. fresh_segment None)
      5 [ex_request] ex_timers ex_gw (0 :: nat) (0 :: nat) = Some (t', s, n')"
    using run_turn_defined [OF ex_gw_inv rx, of ex_cksum "\<lambda>p. (None, p)" "\<lambda>n tx. (length tx, n)"
        "\<lambda>_. fresh_segment None" 5 ex_timers 0 0] by (auto simp: ex_gw_def)
  then have step: "gw_turn (ex_timers, ex_gw) (turn_of (\<lambda>_. fresh_segment None) 5 [ex_request] ex_timers ex_gw) (t', bs_gw s)"
    using rx by (rule gw_turn.intros)
  have "ut_nodes (gw_upstreams ex_gw) = [\<lparr>ue_ip_be = le32 10 0 0 1, ue_port = 53\<rparr>]" by (simp add: ex_gw_def)
  then show ?thesis
    using gateway_refines_nat [OF ex_gw_inv ex_gw_sessions, of ex_timers _ t' "bs_gw s"] step by fastforce
qed

end
