(* ===== verification/System.thy ===== *)
theory System
  imports Pipeline_Cores Gateway_Nat
begin

text \<open>
  The running system in pipeline mode against the specification of the translator: every
  interleaving of the cores of \<open>Pipeline_Cores\<close> is a history of \<open>gateway_spec\<close>, whose events are
  those of the turns the worker took, and the process that \<open>main\<close> of \<open>src/src/main.cpp\<close> has
  started is a state from which this holds.
\<close>

section \<open>A step of the worker is a turn of the loop\<close>

text \<open>
  The steps of the cores with what the worker does in them: the turn it takes, or nothing. A turn
  handles the packets by which the record of handled packets grows.
\<close>

definition moved :: "('r, 'd, 'p) system \<Rightarrow> ('r, 'd, 'p) system \<Rightarrow> bool" where
  "moved s s' \<longleftrightarrow> sy_gw s' = sy_gw s \<and> sy_timers s' = sy_timers s \<and> sy_handled s' = sy_handled s"

inductive sys_does ::
    "cksum_fns \<Rightarrow> 'p allocator \<Rightarrow> ('r, rte_mbuf) ring_fns \<Rightarrow> 'd eth_fns \<Rightarrow> ('r \<Rightarrow> rte_mbuf list) \<Rightarrow>
     ('r, 'd, 'p) system \<Rightarrow> turn option \<Rightarrow> ('r, 'd, 'p) system \<Rightarrow> bool"
  for ck alloc rf ef contents where
  turns: "sys_step ck alloc rf ef contents s s' \<Longrightarrow> worker_poll ck alloc rf mem now s = Some s' \<Longrightarrow>
     sy_handled s' = sy_handled s @ rx \<Longrightarrow>
     sys_does ck alloc rf ef contents s (Some (turn_of mem now rx (sy_timers s) (sy_gw s))) s'"
| moves: "sys_step ck alloc rf ef contents s s' \<Longrightarrow> moved s s' \<Longrightarrow> sys_does ck alloc rf ef contents s None s'"

inductive_cases sys_doesE: "sys_does ck alloc rf ef contents s l s'"

lemma sys_does_step: "sys_does ck alloc rf ef contents s l s' \<Longrightarrow> sys_step ck alloc rf ef contents s s'"
  by (elim sys_doesE)

definition step_shows :: "turn option \<Rightarrow> gw_event list \<Rightarrow> bool" where
  "step_shows l evs \<longleftrightarrow> (case l of None \<Rightarrow> evs = [] | Some tn \<Rightarrow> turn_shows tn evs)"

lemma worker_poll_rx:
  assumes ok: "rte_ring_ok rf contents cap" and inv: "sys_inv contents s"
    and step: "worker_poll ck alloc rf mem now s = Some s'"
  obtains rx t' b n' where "\<forall>m \<in> set rx. mbuf_ok m" "sy_gw s' = bs_gw b" "sy_handled s' = sy_handled s @ rx"
    "run_turn ck alloc (\<lambda>n tx. (length tx, n)) mem now rx (sy_timers s) (sy_gw s) (sy_pool s) () = Some (t', b, n')"
    "rx = take 32 (rx_queue contents s)"
proof -
  obtain t1 gw1 fr0 where hk: "housekeeping mem now (sy_timers s) (sy_gw s) = Some (t1, gw1, fr0)"
    using housekeeping_ok [OF sys_invD(2) [OF inv]] by metis
  obtain ps where ps: "pipeline_of (sy_nf s) = Some ps" using sys_invD(1) [OF inv] by blast
  obtain rx ring where pop: "pop_burst rf (ps_rx_ring ps) kBurst = (rx, ring)" by fastforce
  define b0 where "b0 = \<lparr>bs_gw = gw1, bs_tx = [], bs_drop = [], bs_pool = sy_pool s, bs_allocated = [], bs_freed = fr0, bs_lost = []\<rparr>"
  obtain b where b: "process_burst ck alloc now rx b0 = Some b" "sy_gw s' = bs_gw b" "sy_handled s' = sy_handled s @ rx"
    using step hk ps pop by (auto simp: worker_poll_def b0_def bind_eq_Some_conv)
  have rx: "rx = take 32 (rx_queue contents s)"
    using pop_burst_ok(1) [OF ok pop] ps by (simp add: ring_contents_live)
  then have "\<forall>m \<in> set rx. mbuf_ok m" using sys_invD(3) [OF inv] by (auto dest: in_set_takeD)
  moreover obtain t' b' n' where "run_turn ck alloc (\<lambda>n tx. (length tx, n)) mem now rx (sy_timers s) (sy_gw s) (sy_pool s) () =
      Some (t', b', n')" "bs_gw b' = bs_gw b"
    using hk b(1) by (cases "rx = []") (auto simp: run_turn_def Let_def b0_def case_prod_beta)
  ultimately show thesis using that b(2,3) rx by metis
qed

text \<open>
  The worker is never stuck on a small load: if the waiting packets plus twice the packets it can
  take from the ring fit the transmit array, its turn has defined behaviour.
\<close>

lemma worker_poll_defined:
  assumes ok: "rte_ring_ok rf contents cap" and inv: "sys_inv contents s"
    and room: "size (pend_addrs (gw_arp_pending (sy_gw s))) + 2 * length (take 32 (rx_queue contents s)) \<le> 33"
  shows "worker_poll ck alloc rf mem now s \<noteq> None"
proof -
  obtain t1 gw1 fr0 where hk: "housekeeping mem now (sy_timers s) (sy_gw s) = Some (t1, gw1, fr0)" "gw_inv gw1"
    "pend_addrs (gw_arp_pending gw1) + mset fr0 = pend_addrs (gw_arp_pending (sy_gw s))"
    using housekeeping_ok [OF sys_invD(2) [OF inv]] by metis
  obtain ps where ps: "pipeline_of (sy_nf s) = Some ps" using sys_invD(1) [OF inv] by blast
  obtain rx ring where pop: "pop_burst rf (ps_rx_ring ps) kBurst = (rx, ring)" by fastforce
  have rx: "rx = take 32 (rx_queue contents s)"
    using pop_burst_ok(1) [OF ok pop] ps by (simp add: ring_contents_live)
  then have "\<forall>m \<in> set rx. mbuf_ok m" using sys_invD(3) [OF inv] by (auto dest: in_set_takeD)
  moreover have "size (pend_addrs (gw_arp_pending gw1)) \<le> size (pend_addrs (gw_arp_pending (sy_gw s)))"
    using arg_cong [OF hk(3), of size] by simp
  ultimately have "process_burst ck alloc now rx \<lparr>bs_gw = gw1, bs_tx = [], bs_drop = [], bs_pool = sy_pool s, bs_allocated = [],
      bs_freed = fr0, bs_lost = []\<rparr> \<noteq> None"
    using hk(2) room rx by (intro process_burst_room) (simp_all add: burst_ok_def tx_demand_def)
  then show ?thesis
    using hk(1) ps pop by (auto simp: worker_poll_def)
qed

text \<open>The I/O cores do not touch the services.\<close>

lemma io_step_frames:
  "moved s (rx_poll ef s)" "rx_push rf s = Some s' \<Longrightarrow> moved s s'"
  "worker_push rf s = Some s' \<Longrightarrow> moved s s'" "tx_pop rf s = Some s' \<Longrightarrow> moved s s'"
  "moved s (tx_emit ef s)"
  by (auto simp: moved_def rx_poll_def rx_push_def worker_push_def tx_pop_def tx_emit_def bind_eq_Some_conv case_prod_beta Let_def)

lemma sys_step_does:
  assumes "rte_ring_ok rf contents cap" "sys_inv contents s" "sys_step ck alloc rf ef contents s s'"
  shows "\<exists>l. sys_does ck alloc rf ef contents s l s'"
  using assms(3)
proof cases
  case (worker_polls mem now al fr)
  obtain rx where "sy_handled s' = sy_handled s @ rx" using worker_poll_rx [OF assms(1,2) worker_polls(2)] by metis
  then show ?thesis using turns [OF assms(3) worker_polls(2)] by blast
qed (use moves [OF assms(3)] io_step_frames in blast)+

lemma sys_does_spec:
  assumes "rte_ring_ok rf contents cap" "sys_inv contents s" "gw_sessions (sy_gw s) = Some st" "same_config st0 st"
    and "sys_does ck alloc rf ef contents s l s'"
  shows "(\<exists>st'. gw_sessions (sy_gw s') = Some st' \<and> same_config st0 st') \<and>
    (\<exists>evs. step_shows l evs \<and>
      history (gateway_spec (st_gateway_ip st0) (st_idle_timeout_ms st0) {q. in_pool st0 q}) (gw_abs (sy_gw s)) evs (gw_abs (sy_gw s')))"
  using assms(5)
proof cases
  case (turns mem now rx)
  obtain rx' t' b n' where t: "\<forall>m \<in> set rx'. mbuf_ok m" "sy_gw s' = bs_gw b" "sy_handled s' = sy_handled s @ rx'"
    "run_turn ck alloc (\<lambda>n tx. (length tx, n)) mem now rx' (sy_timers s) (sy_gw s) (sy_pool s) () = Some (t', b, n')"
    using worker_poll_rx [OF assms(1,2) turns(3)] by metis
  have "rx' = rx" using t(3) turns(4) by simp
  then show ?thesis
    using turn_spec [OF sys_invD(2) [OF assms(2)] assms(3,4) t(1,4)] by (simp add: t(2) turns(1) step_shows_def)
next
  case moves
  then show ?thesis using assms(3,4) by (simp add: step_shows_def moved_def)
qed

interpretation sys_sim: simulation "sys_does ck alloc rf ef contents"
  "\<lambda>s. rte_ring_ok rf contents cap \<and> sys_inv contents s \<and> (\<exists>st. gw_sessions (sy_gw s) = Some st \<and> same_config st0 st)"
  "\<lambda>s. gw_abs (sy_gw s)" "gateway_spec (st_gateway_ip st0) (st_idle_timeout_ms st0) {q. in_pool st0 q}" step_shows
  for ck alloc rf ef contents cap st0
proof (unfold_locales, goal_cases)
  case (1 s s')
  then show ?case
    using cores.step_keeps [of rf contents cap s ck alloc ef s'] sys_does_step sys_does_spec by metis
next
  case (2 s l s')
  then show ?case using sys_does_spec by blast
qed

text \<open>Every run of the cores is such a labelled run, and the labels account for the handled packets.\<close>

lemma run_does:
  assumes "(sys_step ck alloc rf ef contents)\<^sup>*\<^sup>* s s'" "rte_ring_ok rf contents cap" "sys_inv contents s"
  shows "\<exists>ls. history (sys_does ck alloc rf ef contents) s ls s'"
  using assms
proof (induction rule: converse_rtranclp_induct)
  case (step s s1)
  then have "sys_inv contents s1" using cores.step_keeps [of rf contents cap s ck alloc ef s1] by blast
  with step obtain ls l where "history (sys_does ck alloc rf ef contents) s1 ls s'" "sys_does ck alloc rf ef contents s l s1"
    using sys_step_does [OF step.prems step.hyps(1)] by blast
  then show ?case by (blast intro: history.cons)
qed (auto intro: exI [of _ "[]"])

lemma does_run: "history (sys_does ck alloc rf ef contents) s ls s' \<Longrightarrow> (sys_step ck alloc rf ef contents)\<^sup>*\<^sup>* s s'"
  by (induction rule: history.induct) (auto dest: sys_does_step intro: converse_rtranclp_into_rtranclp)

definition turn_packets :: "turn option list \<Rightarrow> rte_mbuf list" where
  "turn_packets ls = concat (map (case_option [] tn_rx) ls)"

lemma does_handled:
  "history (sys_does ck alloc rf ef contents) s ls s' \<Longrightarrow> sy_handled s' = sy_handled s @ turn_packets ls"
  by (induction rule: history.induct) (auto simp: turn_packets_def turn_of_def moved_def elim!: sys_doesE)

section \<open>From \<open>main\<close> to the cores\<close>

lemma main_worker_loop:
  assumes "vgw_main gflags df rf next_lcore lcore_id os seen argv0 args = Some (Done (WorkerLoop pr))"
  obtains flags eal_argv where "vgw_init df rf next_lcore lcore_id os seen flags eal_argv fresh_process = Done (0, pr)"
    "ready_for_run (pr_gw pr)"
  using assms
  by (auto simp: vgw_main_def vgw_run_def and_then_Done split: option.splits if_splits)

lemma started_process:
  assumes "vgw_main gflags df rf next_lcore lcore_id os seen argv0 args = Some (Done (WorkerLoop pr))"
  obtains fr nf where "get_netif (pr_manager pr) (uint (dc_worker_port (gw_datapath (pr_gw pr)))) = Some nf"
    "netif_init rf (dc_worker_port (gw_datapath (pr_gw pr))) (gw_datapath (pr_gw pr)) dpdk_netif = Done (fr, nf)"
    "gw_inv (pr_gw pr)" "gw_arp_pending (pr_gw pr) = []"
    "gw_sessions (pr_gw pr) = Some (session_table (ipv4_from GATEWAY_IP_OCTETS) SESSION_IDLE_TIMEOUT_MS 10000 60000)"
proof -
  obtain flags eal_argv where i: "vgw_init df rf next_lcore lcore_id os seen flags eal_argv fresh_process = Done (0, pr)"
    using main_worker_loop [OF assms] by metis
  show thesis
    by (rule init_fresh [OF i])
       (rule that, auto simp: use_mac_inv, auto simp: use_mac_def)
qed

section \<open>A concrete start\<close>

lemma ex_main:
  "\<exists>pr. vgw_main (\<lambda>argv flags. Some flags) ex_dev (list_ring :: (nat \<times> rte_mbuf list, rte_mbuf) ring_fns) Suc 0 ex_os (\<lambda>h _. h) ''vgw'' [] =
     Some (Done (WorkerLoop pr)) \<and> gw_datapath (pr_gw pr) = datapath_config_defaults"
proof -
  let ?rf = "list_ring :: (nat \<times> rte_mbuf list, rte_mbuf) ring_fns"
  have parse: "parse_vgw_command_line_flags (\<lambda>argv flags. Some flags) ''vgw'' [] flag_defaults = Some (flag_defaults, [''vgw''])"
    by (simp add: parse_vgw_command_line_flags_def)
  obtain pr where i: "vgw_init ex_dev ?rf Suc 0 ex_os (\<lambda>h _. h) flag_defaults [''vgw''] fresh_process = Done (0, pr)"
    using ex_init by blast
  have "gw_datapath (pr_gw pr) = datapath_config_defaults"
    by (rule init_fresh [OF i]) (simp add: default_flags_config)
  then show ?thesis
    using i init_ready(2) [OF i] by (auto simp: vgw_main_def parse vgw_run_def)
qed

text \<open>An allocator that has nothing to give.\<close>

lemma nothing_allocated:
  "process_burst ck (\<lambda>p. (None, p)) now rx b = Some b' \<Longrightarrow> bs_allocated b' = bs_allocated b"
proof (induction rx arbitrary: b)
  case (Cons m rx)
  have place: "bs_allocated s' = bs_allocated s" if "place (\<lambda>p. (None, p)) now o' m1 s = Some s'" for o' m1 s s'
    using that by (auto simp: place_def bind_eq_Some_conv Let_def case_prod_beta split: if_splits)
  obtain b1 where b1: "process_packet ck (\<lambda>p. (None, p)) now m b = Some b1" "process_burst ck (\<lambda>p. (None, p)) now rx b1 = Some b'"
    using Cons.prems by (auto simp: bind_eq_Some_conv)
  then have "bs_allocated b1 = bs_allocated b"
    unfolding process_packet_def by (auto simp: bind_eq_Some_conv case_prod_beta simp del: split_paired_Ex dest!: place)
  then show ?case using Cons.IH [OF b1(2)] by simp
qed simp

text \<open>
  The first packet: it is received, queued, and handled by the first turn of the worker. The
  interface is the one that the default configuration initialises.
\<close>

lemma first_turn:
  assumes gw: "gw_inv gw" "gw_arp_pending gw = []"
  obtains s where "history (sys_does ck (\<lambda>p. (None, p)) list_ring ex_eth snd) (sys_start gw t ex_nf0 [ex_request] ())
      [None, None, Some (turn_of mem now [ex_request] t gw)] s" "sy_handled s = [ex_request]"
proof -
  let ?s0 = "sys_start gw t ex_nf0 [ex_request] ()" and ?step = "sys_step ck (\<lambda>p. (None, p)) list_ring ex_eth snd"
  define s1 s2 where "s1 = rx_poll ex_eth ?s0" and "s2 = the (rx_push list_ring s1)"
  note defs = s1_def s2_def rx_push_def rx_poll_def rx_burst_def ex_eth_def sys_start_def ex_nf0_def
    with_pipeline_def pipeline_of_def push_burst_def list_ring_def Let_def ring_contents_def IO_RX_BURST_def
  have s1: "sy_rx_burst s1 = [ex_request]" and own: "owned snd ?s0 = {#}" using gw(2) by (simp_all add: defs owned_def)
  have p1: "?step ?s0 s1"
    unfolding s1_def by (rule rx_polls) (simp_all add: s1 [unfolded s1_def] own fresh_burst_def ex_request_ok, simp add: sys_start_def)
  have push: "rx_push list_ring s1 = Some s2" by (simp add: defs)
  then have p2: "?step s1 s2" by (rule rx_pushes [rotated]) (simp add: s1)
  have s2: "sy_tx_batch s2 = []" "rx_queue snd s2 = [ex_request]" "sy_gw s2 = gw" "sy_timers s2 = t" "sy_handled s2 = []"
    by (simp_all add: defs)
  have "?step\<^sup>*\<^sup>* ?s0 s2" using p1 p2 by (rule rtranclp.rtrancl_into_rtrancl [OF r_into_rtranclp])
  then have inv: "sys_inv snd s2"
    by (rule reachable_inv [OF list_ring_ok gw datapath_defaults_mode ex_nf0_init])
  obtain s3 where s3: "worker_poll ck (\<lambda>p. (None, p)) list_ring mem now s2 = Some s3"
    using worker_poll_defined [OF list_ring_ok inv, of ck "\<lambda>p. (None, p)" mem now] s2 gw(2) by auto
  then have handled: "sy_handled s3 = sy_handled s2 @ [ex_request]"
    using worker_poll_rx [OF list_ring_ok inv s3] s2(2) by (metis take_Suc_Cons take_Nil numeral_eq_Suc)
  have "sy_allocated s3 = sy_allocated s2 @ []" "\<exists>fr. sy_freed s3 = sy_freed s2 @ fr"
    using s3 by (auto simp: worker_poll_def bind_eq_Some_conv Let_def case_prod_beta dest!: nothing_allocated)
  then have "?step s2 s3" using worker_polls [OF s2(1) s3] by (auto simp: pool_discipline_def)
  then have "sys_does ck (\<lambda>p. (None, p)) list_ring ex_eth snd s2 (Some (turn_of mem now [ex_request] t gw)) s3"
    using turns [OF _ s3 handled] s2(3,4) by simp
  moreover have "sys_does ck (\<lambda>p. (None, p)) list_ring ex_eth snd ?s0 None s1" "sys_does ck (\<lambda>p. (None, p)) list_ring ex_eth snd s1 None s2"
    using moves [OF p1] moves [OF p2] io_step_frames(1) [of ?s0 ex_eth] io_step_frames(2) [OF push] by (simp_all add: s1_def)
  ultimately show thesis using that handled s2(5) by (auto simp: history_cons)
qed

end
