(* ===== verification/Worker.thy ===== *)
theory Worker
  imports Vgw_Main Gateway_Sessions
begin

text \<open>
  The body of the worker loop on a real port: \<open>VioletGW::run\<close> of \<open>src/src/vgw.cpp\<close> with the
  \<open>recv_burst\<close>, \<open>send_burst\<close> and \<open>free_burst\<close> of \<open>src/src/dpdk/netif.cpp\<close> in both modes. The loop
  over a burst is \<open>process_burst\<close> of \<open>Gateway\<close>. \<open>None\<close> is undefined behaviour or, in pipeline mode,
  a send that never returns; \<open>drain\<close> is what the transmit core takes out of the ring meanwhile.
\<close>

section \<open>The loop body\<close>

text \<open>\<open>now_ms\<close>: the steady clock counts nanoseconds, the conversion cuts towards zero.\<close>

definition now_ms :: "int \<Rightarrow> u64" where
  "now_ms ns = word_of_int (if ns < 0 then - (- ns div 1000000) else ns div 1000000)"

text \<open>\<open>free_burst\<close> gives a number of buffers back to the pool; a call for none does nothing.\<close>

definition free_burst :: "rte_mbuf list \<Rightarrow> nat list" where
  "free_burst pkts = (if length pkts = 0 then [] else map mb_addr pkts)"

function send_loop ::
    "('r, rte_mbuf) ring_fns \<Rightarrow> 'd eth_fns \<Rightarrow> (nat \<Rightarrow> nat) \<Rightarrow> 'r DpdkNetif \<Rightarrow> 'd \<Rightarrow> rte_mbuf list \<Rightarrow>
     (rte_mbuf list \<times> 'r DpdkNetif \<times> 'd) option" where
  "send_loop rf ef drain nf d tx =
     (if tx = [] then Some ([], nf, d)
      else case send_burst rf ef drain nf d tx of
        None \<Rightarrow> None
      | Some (m, nf1, d1) \<Rightarrow> if m = 0 then Some (tx, nf1, d1) else send_loop rf ef drain nf1 d1 (drop m tx))"
  by pat_completeness auto
termination
  by (relation "measure (\<lambda>(rf, ef, drain, nf, d, tx). length tx)") auto

declare send_loop.simps [simp del]

definition worker_turn ::
    "cksum_fns \<Rightarrow> 'p allocator \<Rightarrow> ('r, rte_mbuf) ring_fns \<Rightarrow> 'd eth_fns \<Rightarrow> (nat \<Rightarrow> nat) \<Rightarrow> (nat \<Rightarrow> vgw_cp_shm) \<Rightarrow> u64 \<Rightarrow>
     run_timers \<Rightarrow> VioletGW \<Rightarrow> 'p \<Rightarrow> 'r DpdkNetif \<Rightarrow> 'd \<Rightarrow> (run_timers \<times> 'p burst_state \<times> 'r DpdkNetif \<times> 'd) option" where
  "worker_turn ck alloc rf ef drain mem now t gw pool nf d = do {
     (t1, gw1, freed0) \<leftarrow> housekeeping mem now t gw;
     (rx, nf1, d1) \<leftarrow> recv_burst rf ef nf d kBurst;
     let s0 = \<lparr>bs_gw = gw1, bs_tx = [], bs_drop = [], bs_pool = pool, bs_allocated = [], bs_freed = freed0, bs_lost = []\<rparr>;
     if rx = [] then Some (t1, s0, nf1, d1)
     else do {
       s \<leftarrow> process_burst ck alloc now rx s0;
       (rest, nf2, d2) \<leftarrow> send_loop rf ef drain nf1 d1 (bs_tx s);
       Some (t1, s\<lparr>bs_freed := bs_freed s @ free_burst rest @ free_burst (bs_drop s)\<rparr>, nf2, d2)
     }
   }"

lemma free_burst_eq [simp]: "free_burst pkts = map mb_addr pkts"
  by (simp add: free_burst_def)

section \<open>Run to completion\<close>

text \<open>The device as the transmit function of \<open>run_turn\<close>.\<close>

definition rtc_send :: "'d eth_fns \<Rightarrow> 'r DpdkNetif \<Rightarrow> 'd \<Rightarrow> rte_mbuf list \<Rightarrow> nat \<times> 'd" where
  "rtc_send ef nf d tx = tx_burst ef d (nf_port_id nf) (nf_queue_id nf) (take 65535 tx)"

lemma send_loop_rtc:
  assumes "nf_mode nf = Rtc"
  shows "send_loop rf ef drain nf d tx = (case send_all (rtc_send ef nf) d tx of (rest, d1) \<Rightarrow> Some (rest, nf, d1))"
  using assms
proof (induction "rtc_send ef nf" d tx rule: send_all.induct)
  case (1 d tx)
  show ?case
  proof (cases "tx = []")
    case False
    obtain k d1 where k: "rtc_send ef nf d tx = (k, d1)" by fastforce
    then have sb: "send_burst rf ef drain nf d tx = Some (k, nf, d1)"
      using 1(2) by (simp add: send_burst_def rtc_send_def)
    show ?thesis
    proof (cases "k = 0")
      case True
      then show ?thesis using False k sb by (simp add: send_loop.simps [of rf ef drain nf d tx] send_all.simps [of "rtc_send ef nf" d tx])
    next
      case nz: False
      then show ?thesis
        using 1(1) [OF False k [symmetric] nz 1(2)] False k sb
        by (simp add: send_loop.simps [of rf ef drain nf d tx] send_all.simps [of "rtc_send ef nf" d tx])
    qed
  qed (simp add: send_loop.simps send_all.simps)
qed

lemma rtc_turn:
  assumes "nf_mode nf = Rtc" and "rx_burst ef d (nf_port_id nf) (nf_queue_id nf) (word_of_nat kBurst) = (rx, d1)"
  shows "worker_turn ck alloc rf ef drain mem now t gw pool nf d =
    map_option (\<lambda>(t', s, d'). (t', s, nf, d')) (run_turn ck alloc (rtc_send ef nf) mem now rx t gw pool d1)"
proof -
  have "recv_burst rf ef nf d 32 = Some (rx, nf, d1)"
    using assms by (simp add: recv_burst_def clamp16_def)
  then show ?thesis
    by (auto simp: worker_turn_def run_turn_def send_loop_rtc [OF assms(1)] map_option_case Let_def
        split: option.splits prod.splits Option.bind_splits)
qed

section \<open>Pipeline\<close>

text \<open>In pipeline mode one call of \<open>send_burst\<close> takes everything.\<close>

lemma send_loop_pipeline:
  assumes "nf_mode nf = Pipeline" "pipeline_of nf = Some ps"
  shows "send_loop rf ef drain nf d tx =
    (if tx = [] then Some ([], nf, d)
     else map_option (\<lambda>ring. ([], with_pipeline nf (ps\<lparr>ps_tx_ring := ring\<rparr>), d)) (push_all rf drain 0 (ps_tx_ring ps) tx))"
proof -
  have "send_burst rf ef drain nf d tx =
      map_option (\<lambda>ring. (length tx, with_pipeline nf (ps\<lparr>ps_tx_ring := ring\<rparr>), d)) (push_all rf drain 0 (ps_tx_ring ps) tx)"
    using assms by (simp add: send_burst_def map_option_case split: option.split)
  then show ?thesis
    by (subst send_loop.simps) (auto simp: send_loop.simps [of _ _ _ _ _ "[]"] split: option.splits)
qed

section \<open>From the device to the device\<close>

text \<open>The address of every upstream that may serve a flow has a known next hop.\<close>

definition hops_known :: "ForwardConfig \<Rightarrow> NeighborTable option \<Rightarrow> SessionTable \<Rightarrow> UpstreamTable \<Rightarrow> bool" where
  "hops_known fcfg nbrs st u \<longleftrightarrow>
     (\<forall>ep \<in> set (ut_nodes u). lookup_next_hop_mac nbrs (ue_ip_be ep) (fc_upstream_mac fcfg) \<noteq> None) \<and>
     (\<forall>p ses. st_heap st p = Some ses \<longrightarrow> lookup_next_hop_mac nbrs (s_upstream_ip ses) (fc_upstream_mac fcfg) \<noteq> None)"

lemma served_datagram_handled:
  assumes inv: "gw_inv gw" and cfg: "gw_forwarder gw = Some fcfg" "gw_sessions gw = Some st"
    and m: "mbuf_ok m" "acceptable ck fcfg m udp len" "frame_flow (mb_buf m) udp = Some key" "to_vip fcfg key"
    and serve: "\<not> no_session gw_picker st (gw_upstreams gw) key"
    and hop: "passive_learn_ipv4 (Some m) (gw_neighbors gw) now = Some nbrs" "hops_known fcfg nbrs st (gw_upstreams gw)"
    and quiet: "map_of (gw_arp_pending gw) (fc_gateway_ip_be fcfg) = None"
  obtains m' gw' st' p ses where "vgw_handle ck gw (Some m) now = Some (outcome tx_forward, Some m', gw')"
    "gw_sessions gw' = Some st'" "lookup_forward st' key = Some p" "st_heap st' p = Some ses"
    "s_forward_key ses = key" "s_last_active_ms ses = now" "same_config st st'"
    "translated ck m udp len (forward_flow (fc_gateway_ip_be fcfg) ses) m'"
    "ld_mac (mb_buf m') eth_src_addr = Some (fc_gateway_mac fcfg)"
    "ld_mac (mb_buf m') eth_dst_addr = lookup_next_hop_mac nbrs (s_upstream_ip ses) (fc_upstream_mac fcfg)"
    "gw_neighbors gw' = nbrs" "gw_forwarder gw' = Some fcfg" "gw_arp_pending gw' = gw_arp_pending gw"
proof -
  have f: "udp_frame m udp len" using m(2) by (simp add: acceptable_def)
  note src = src_of_frame [OF m(1) f m(3)]
  have si: "st_inv st" using inv cfg(2) by (simp add: gw_inv_def)
  obtain ho m1 st1 u1 where hf:
    "handle_forward ck fcfg gw_picker nbrs m (udp_view udp len) now st (gw_upstreams gw) = Some (ho, m1, st1, u1)"
    "(ho, m1) = (outcome hr_drop, m) \<and> lookup_forward st key = None \<and> st_heap st1 = st_heap st \<or>
     forwarded ck fcfg nbrs m udp len key now st1 ho m1"
    using handle_forward_spec [OF si m(1) f m(3) gw_inv_safe [OF inv cfg(1)], of ck gw_picker nbrs now "gw_upstreams gw"] by metis
  have fh: "fwd_handle ck fcfg gw_picker nbrs (Some m) now st (gw_upstreams gw) = Some (ho, Some m1, st1, u1)"
    using hf(1) m(4) by (simp add: fwd_handle_accepted [OF m(1,2,3)])
  have "ho_result ho \<noteq> hr_drop" using handle_forward_drop [OF si m(1) f m(3) hf(1)] serve by simp
  then have "forwarded ck fcfg nbrs m udp len key now st1 ho m1" using hf(2) by (auto simp: outcome_def)
  then obtain p ses where s: "lookup_forward st1 key = Some p" "st_heap st1 p = Some ses" "s_forward_key ses = key" "s_last_active_ms ses = now"
    and d: "delivered ck fcfg nbrs m udp len (forward_flow (fc_gateway_ip_be fcfg) ses) tx_forward (fc_upstream_mac fcfg) ho m1"
    by (auto simp: forwarded_def)
  have ev: "evolved now (ut_nodes (gw_upstreams gw)) st st1" using evo.fwd_handle_rel [OF si m(1) fh] by blast
  then have "lookup_next_hop_mac nbrs (s_upstream_ip ses) (fc_upstream_mac fcfg) \<noteq> None"
    using evolvedD(4) [OF ev s(2)] hop(2) by (auto simp: hops_known_def session_endpoint_def)
  then obtain mac where mac: "lookup_next_hop_mac nbrs (s_upstream_ip ses) (fc_upstream_mac fcfg) = Some mac" by blast
  have dst: "fk_dst_ip (forward_flow (fc_gateway_ip_be fcfg) ses) = s_upstream_ip ses" by (simp add: forward_flow_def)
  have o: "ho = outcome tx_forward" and t: "translated ck m udp len (forward_flow (fc_gateway_ip_be fcfg) ses) m1"
    and l2: "ld_mac (mb_buf m1) eth_src_addr = Some (fc_gateway_mac fcfg)" "ld_mac (mb_buf m1) eth_dst_addr = Some mac"
    using d mac by (simp_all add: delivered_def dst)
  have src': "ipv4_src_be (Some m1) = Some (fc_gateway_ip_be fcfg)"
    using src_of_frame(1) [of m1 udp len "forward_flow (fc_gateway_ip_be fcfg) ses"] t
    by (auto simp: translated_def forward_flow_def)
  note v = vgw_handle_ipv4 [OF src(2) cfg hop(1) src(1) fh src']
  show thesis
    using that [of m1 "gw\<lparr>gw_neighbors := nbrs, gw_sessions := Some st1, gw_upstreams := u1\<rparr>" st1 p ses] v o quiet s t l2 mac evolvedD(1) [OF ev] cfg(1)
    by simp
qed

lemma send_one: "send_all send d [m] = (case send d [m] of (k, d1) \<Rightarrow> (if k = 0 then [m] else [], d1))"
  by (simp add: send_all.simps [of send d "[m]"] send_all.simps [of send _ "[]"] split: prod.split)

text \<open>A turn in which one packet arrives and is put out: what is sent, and what is freed.\<close>

lemma single_packet_turn:
  assumes nf: "nf_mode nf = Rtc" "rx_burst ef d (nf_port_id nf) (nf_queue_id nf) 32 = ([m], d1)"
    and hk: "housekeeping mem now t gw0 = Some (t1, gw, freed)"
    and h: "vgw_handle ck gw (Some m) now = Some (outcome r, Some m', gw')" "r \<noteq> hr_drop" "r \<noteq> pending_arp"
    and addr: "mb_addr m' = mb_addr m"
  obtains s where "worker_turn ck alloc rf ef drain mem now t gw0 pool nf d = Some (t1, s, nf, snd (rtc_send ef nf d1 [m']))"
    "bs_gw s = gw'" "bs_tx s = [m']" "bs_freed s = freed @ (if fst (rtc_send ef nf d1 [m']) = 0 then [mb_addr m] else [])"
proof -
  let ?s0 = "\<lparr>bs_gw = gw, bs_tx = [], bs_drop = [], bs_pool = pool, bs_allocated = [], bs_freed = freed, bs_lost = []\<rparr>"
  have pb: "process_burst ck alloc now [m] ?s0 = Some (?s0\<lparr>bs_gw := gw', bs_tx := [m']\<rparr>)"
    using h by (simp add: process_packet_def place_def outcome_def)
  obtain k d2 where k: "rtc_send ef nf d1 [m'] = (k, d2)" by fastforce
  have rx: "rx_burst ef d (nf_port_id nf) (nf_queue_id nf) (word_of_nat 32) = ([m], d1)" using nf(2) by simp
  have "worker_turn ck alloc rf ef drain mem now t gw0 pool nf d = Some (t1,
      ?s0\<lparr>bs_gw := gw', bs_tx := [m'], bs_freed := freed @ (if k = 0 then [mb_addr m] else [])\<rparr>, nf, d2)"
    unfolding rtc_turn [OF nf(1) rx, of ck alloc rf drain mem now t gw0 pool]
    using hk pb k by (simp add: run_turn_def send_one addr)
  then show thesis by (rule that [unfolded k fst_conv snd_conv]) simp_all
qed

lemma translated_addr: "translated ck m udp len k m' \<Longrightarrow> mb_addr m' = mb_addr m"
  by (simp add: translated_def) (metis rte_mbuf.ext_inject rte_mbuf.surjective rte_mbuf.update_convs(2))

text \<open>
  C6: in run-to-completion mode a client datagram goes from the port to the port in one turn. If
  the device delivers a datagram for the virtual service whose flow can be served and the next
  hops of the upstreams are known, then the turn has defined behaviour and hands the device
  exactly one frame: the datagram translated for its session, which is in the table, with the
  gateway's hardware address as source and the next hop's as destination. If the device refuses
  it the buffer is given back, and nothing else is freed by the turn but what expired.
\<close>

theorem rtc_datagram_transmitted:
  assumes nf: "nf_mode nf = Rtc" "rx_burst ef d (nf_port_id nf) (nf_queue_id nf) 32 = ([m], d1)"
    and hk: "gw_inv gw0" "housekeeping mem now t gw0 = Some (t1, gw, freed)"
    and cfg: "gw_forwarder gw = Some fcfg" "gw_sessions gw = Some st"
    and m: "mbuf_ok m" "acceptable ck fcfg m udp len" "frame_flow (mb_buf m) udp = Some key" "to_vip fcfg key"
    and serve: "\<not> no_session gw_picker st (gw_upstreams gw) key"
    and hop: "passive_learn_ipv4 (Some m) (gw_neighbors gw) now = Some nbrs" "hops_known fcfg nbrs st (gw_upstreams gw)"
    and quiet: "map_of (gw_arp_pending gw) (fc_gateway_ip_be fcfg) = None"
  shows "\<exists>m' s st' p ses. worker_turn ck alloc rf ef drain mem now t gw0 pool nf d =
      Some (t1, s, nf, snd (rtc_send ef nf d1 [m'])) \<and>
    gw_sessions (bs_gw s) = Some st' \<and> lookup_forward st' key = Some p \<and> st_heap st' p = Some ses \<and>
    translated ck m udp len (forward_flow (fc_gateway_ip_be fcfg) ses) m' \<and>
    ld_mac (mb_buf m') eth_src_addr = Some (fc_gateway_mac fcfg) \<and>
    ld_mac (mb_buf m') eth_dst_addr = lookup_next_hop_mac nbrs (s_upstream_ip ses) (fc_upstream_mac fcfg) \<and>
    bs_freed s = freed @ (if fst (rtc_send ef nf d1 [m']) = 0 then [mb_addr m] else [])"
proof -
  have inv: "gw_inv gw"
    using housekeeping_ok [OF hk(1), of mem now t] hk(2) by auto
  obtain m' gw' st' p ses where h: "vgw_handle ck gw (Some m) now = Some (outcome tx_forward, Some m', gw')"
    and r: "gw_sessions gw' = Some st'" "lookup_forward st' key = Some p" "st_heap st' p = Some ses"
      "translated ck m udp len (forward_flow (fc_gateway_ip_be fcfg) ses) m'"
      "ld_mac (mb_buf m') eth_src_addr = Some (fc_gateway_mac fcfg)"
      "ld_mac (mb_buf m') eth_dst_addr = lookup_next_hop_mac nbrs (s_upstream_ip ses) (fc_upstream_mac fcfg)"
    using served_datagram_handled [OF inv cfg m serve hop quiet] by metis
  from single_packet_turn [OF nf hk(2) h _ _ translated_addr [OF r(4)]] r show ?thesis
    by (metis HandleResult.distinct(1) HandleResult.distinct(13))
qed

definition ex_rtc :: "(nat \<times> rte_mbuf list) DpdkNetif" where
  "ex_rtc = \<lparr>nf_mode = Rtc, nf_port_id = 0, nf_queue_id = 0, nf_state = Some ns_rtc\<rparr>"

lemma ex_quiet: "housekeeping (\<lambda>_. fresh_segment None) 5 ex_timers ex_gw = Some (ex_timers, ex_gw, [])"
  by (simp add: housekeeping_def ex_timers_def SESSION_EXPIRE_INTERVAL_MS_def ARP_EXPIRE_INTERVAL_MS_def CP_POLL_INTERVAL_MS_def)

lemma ex_learned:
  "\<exists>nt. passive_learn_ipv4 (Some ex_request) (gw_neighbors ex_gw) 5 = Some (Some nt) \<and> nt_lookup nt (le32 10 0 0 1) \<noteq> None"
  by (simp add: gwh_eval eval_simps del: alloc_scan_numeral alloc_scan.simps)

lemma ex_served: "\<not> no_session gw_picker (session_table (le32 192 168 1 10) 60000 10000 60000) (gw_upstreams ex_gw) (ex_flow 5000)"
proof -
  let ?st = "session_table (le32 192 168 1 10) 60000 10000 60000"
  have "in_pool ?st 10000" "\<not> st_port_in_use ?st 10000"
    by (simp_all add: in_pool_def session_table_def)
  then show ?thesis
    by (auto simp: no_session_def gw_picker_def pick_def ex_gw_def le32_def)
qed

theorem rtc_datagram_transmitted_witness:
  "\<exists>m' s. worker_turn ex_cksum (\<lambda>p. (None, p)) list_ring ex_eth (\<lambda>_. 0) (\<lambda>_. fresh_segment None) 5 ex_timers ex_gw ()
      ex_rtc [ex_request] = Some (ex_timers, s, ex_rtc, snd (rtc_send ex_eth ex_rtc [] [m'])) \<and>
     ld_mac (mb_buf m') eth_src_addr = Some (MAC 2 0 0 0 0 1)"
proof -
  let ?fcfg = "the (gw_forwarder ex_gw)"
  have cfg: "gw_forwarder ex_gw = Some ?fcfg" "fc_gateway_mac ?fcfg = MAC 2 0 0 0 0 1"
    by (simp_all add: ex_gw_def)
  have acc: "acceptable ex_cksum ?fcfg ex_request 34 8" "to_vip ?fcfg (ex_flow 5000)"
    using ex_request_frame by (simp_all add: acceptable_def ex_gw_def to_vip_def ex_flow_def eval_simps)
  obtain nt where nt: "passive_learn_ipv4 (Some ex_request) (gw_neighbors ex_gw) 5 = Some (Some nt)"
    "nt_lookup nt (le32 10 0 0 1) \<noteq> None"
    using ex_learned by blast
  have hops: "hops_known ?fcfg (Some nt) (session_table (le32 192 168 1 10) 60000 10000 60000) (gw_upstreams ex_gw)"
    using nt(2) by (auto simp: hops_known_def ex_gw_def session_table_def lookup_next_hop_mac_def)
  have rx: "nf_mode ex_rtc = Rtc" "rx_burst ex_eth [ex_request] (nf_port_id ex_rtc) (nf_queue_id ex_rtc) 32 = ([ex_request], [])"
    by (simp_all add: ex_rtc_def rx_burst_def ex_eth_def)
  have quiet: "map_of (gw_arp_pending ex_gw) (fc_gateway_ip_be ?fcfg) = None" by (simp add: ex_gw_def)
  from rtc_datagram_transmitted [OF rx ex_gw_inv ex_quiet cfg(1) ex_gw_sessions ex_request_ok acc(1) ex_request_frame(2) acc(2)
      ex_served nt(1) hops quiet, of "\<lambda>p. (None, p)" list_ring "\<lambda>_. 0" "()"] show ?thesis
    unfolding cfg(2) by blast
qed

end
