(* ===== verification/Round_Trip.thy ===== *)
theory Round_Trip
  imports Worker
begin

text \<open>
  A client is served: the request of a client and the reply of the upstream through two turns of
  the worker loop (\<open>VioletGW::run\<close> of \<open>src/src/vgw.cpp\<close>) in run-to-completion mode, with the
  housekeeping of \<open>session.cpp\<close> and \<open>neighbor.cpp\<close> in between. The theory adds no operations.
\<close>

section \<open>What housekeeping leaves alone\<close>

lemma housekeeping_stages:
  assumes "housekeeping mem now t gw = Some (t', gw', fr)"
  obtains gw1 gw2 where "gw1 = gw \<or> expire_sessions gw now = Some gw1"
    "gw2 = gw1 \<or> gw2 = fst (expire_pending (expire_neighbors gw1 now) now)"
    "gw' = gw2 \<or> gw' = snd (poll_control mem gw2)"
proof -
  obtain t1 gw1 where 1: "(if now - rt_last_expire_ms t \<ge> SESSION_EXPIRE_INTERVAL_MS
        then do { gw1 \<leftarrow> expire_sessions gw now; Some (t\<lparr>rt_last_expire_ms := now\<rparr>, gw1) } else Some (t, gw)) = Some (t1, gw1)"
    using assms by (auto simp: housekeeping_def bind_eq_Some_conv split: if_splits)
  obtain t2 gw2 fr2 where 2: "(if now - rt_last_arp_expire_ms t1 \<ge> ARP_EXPIRE_INTERVAL_MS
        then (case expire_pending (expire_neighbors gw1 now) now of (gw2, freed) \<Rightarrow> (t1\<lparr>rt_last_arp_expire_ms := now\<rparr>, gw2, freed))
        else (t1, gw1, [])) = (t2, gw2, fr2)"
    by (metis prod_cases3)
  have "gw' = gw2 \<or> gw' = snd (poll_control mem gw2)"
    using assms unfolding housekeeping_def 1 by (auto simp: 2 split: if_splits)
  moreover have "gw1 = gw \<or> expire_sessions gw now = Some gw1" using 1 by (auto simp: bind_eq_Some_conv split: if_splits)
  moreover have "gw2 = gw1 \<or> gw2 = fst (expire_pending (expire_neighbors gw1 now) now)" using 2 by (auto split: if_splits prod.splits)
  ultimately show thesis using that by blast
qed

lemma stage_frames:
  "expire_sessions gw now = Some gw1 \<Longrightarrow>
     gw_forwarder gw1 = gw_forwarder gw \<and> gw_neighbors gw1 = gw_neighbors gw \<and> gw_arp_pending gw1 = gw_arp_pending gw"
  "gw_forwarder (fst (expire_pending (expire_neighbors gw now) now)) = gw_forwarder gw"
  "gw_neighbors (fst (expire_pending (expire_neighbors gw now) now)) = map_option (\<lambda>nt. nt_expire nt now) (gw_neighbors gw)"
  "map_of (gw_arp_pending gw) ip = None \<Longrightarrow>
     map_of (gw_arp_pending (fst (expire_pending (expire_neighbors gw now) now))) ip = None"
  "gw_forwarder (snd (poll_control mem gw)) = gw_forwarder gw" "gw_neighbors (snd (poll_control mem gw)) = gw_neighbors gw"
  "gw_arp_pending (snd (poll_control mem gw)) = gw_arp_pending gw"
  by (auto simp: expire_sessions_def bind_eq_Some_conv expire_pending_def expire_neighbors_def poll_control_def
      map_of_eq_None_iff image_iff split: option.splits prod.splits)

lemma housekeeping_frames:
  assumes "housekeeping mem now t gw = Some (t', gw', fr)"
  shows "gw_forwarder gw' = gw_forwarder gw"
    "gw_neighbors gw' = gw_neighbors gw \<or> gw_neighbors gw' = map_option (\<lambda>nt. nt_expire nt now) (gw_neighbors gw)"
    "map_of (gw_arp_pending gw) ip = None \<Longrightarrow> map_of (gw_arp_pending gw') ip = None"
proof -
  from housekeeping_stages [OF assms] obtain gw1 gw2 where s: "gw1 = gw \<or> expire_sessions gw now = Some gw1"
    "gw2 = gw1 \<or> gw2 = fst (expire_pending (expire_neighbors gw1 now) now)" "gw' = gw2 \<or> gw' = snd (poll_control mem gw2)"
    by blast
  have 1: "gw_forwarder gw1 = gw_forwarder gw" "gw_neighbors gw1 = gw_neighbors gw" "gw_arp_pending gw1 = gw_arp_pending gw"
    using s(1) stage_frames(1) by auto
  have 3: "gw_forwarder gw' = gw_forwarder gw2" "gw_neighbors gw' = gw_neighbors gw2" "gw_arp_pending gw' = gw_arp_pending gw2"
    using s(3) stage_frames(5-7) by auto
  show "gw_forwarder gw' = gw_forwarder gw"
    "gw_neighbors gw' = gw_neighbors gw \<or> gw_neighbors gw' = map_option (\<lambda>nt. nt_expire nt now) (gw_neighbors gw)"
    "map_of (gw_arp_pending gw) ip = None \<Longrightarrow> map_of (gw_arp_pending gw') ip = None"
    unfolding 3 using s(2) stage_frames(2,3,4) [of gw1] 1 by auto
qed

text \<open>A session that is not idle survives with its translation.\<close>

lemma housekeeping_keeps_session:
  assumes inv: "gw_inv gw" and st: "gw_sessions gw = Some st" "st_heap st p = Some ses"
    and age: "now - s_last_active_ms ses < st_idle_timeout_ms st" and hk: "housekeeping mem now t gw = Some (t', gw', fr)"
  obtains st' where "gw_sessions gw' = Some st'" "st_inv st'" "st_heap st' p = Some ses"
    "lookup_reverse st' (s_reverse_key ses) = Some p" "same_config st st'"
proof -
  obtain st' where h: "gw_sessions gw' = Some st'" "if sweep_due t now then \<exists>n. expire st now = Some (n, st') else st' = st"
    using housekeeping_sessions [OF inv st(1) hk] by blast
  have "st_inv st" using inv st(1) by (simp add: gw_inv_def)
  note sw = swept_sessions [OF this h(2)]
  have "\<not> idle st now p" using st(2) age by (simp add: idle_def)
  then have "st_heap st' p = Some ses" using sw(3) [of p] st(2) by simp
  then show thesis using that [OF h(1) sw(1) _ _ sw(2)] snat.live [OF sw(1)] by blast
qed

section \<open>The way back\<close>

lemma returned_datagram_handled:
  assumes inv: "gw_inv gw" and cfg: "gw_forwarder gw = Some fcfg" "gw_sessions gw = Some st"
    and m: "mbuf_ok m" "acceptable ck fcfg m udp len" "frame_flow (mb_buf m) udp = Some key"
      "fk_dst_ip key = fc_gateway_ip_be fcfg" "vip_ip_be (fc_vip fcfg) \<noteq> fc_gateway_ip_be fcfg"
    and ses: "lookup_reverse st key = Some p" "st_heap st p = Some ses"
    and hop: "passive_learn_ipv4 (Some m) (gw_neighbors gw) now = Some nbrs"
      "lookup_next_hop_mac nbrs (s_client_ip ses) (fc_client_side_mac fcfg) = Some mac"
    and quiet: "map_of (gw_arp_pending gw) (s_vip_ip ses) = None"
  obtains m' gw' where "vgw_handle ck gw (Some m) now = Some (outcome tx_reverse, Some m', gw')"
    "translated ck m udp len (reverse_flow ses) m'"
    "ld_mac (mb_buf m') eth_src_addr = Some (fc_gateway_mac fcfg)" "ld_mac (mb_buf m') eth_dst_addr = Some mac"
proof -
  have f: "udp_frame m udp len" using m(2) by (simp add: acceptable_def)
  note src = src_of_frame [OF m(1) f m(3)]
  have si: "st_inv st" using inv cfg(2) by (simp add: gw_inv_def)
  obtain o' m' st' where hr: "handle_reverse ck fcfg nbrs m (udp_view udp len) now st = Some (o', m', st')"
    and d: "delivered ck fcfg nbrs m udp len (reverse_flow ses) tx_reverse (fc_client_side_mac fcfg) o' m'"
    by (rule handle_reverse_spec [OF si m(1) f m(3) gw_inv_safe [OF inv cfg(1)], of ck nbrs now]) (use ses in auto)
  have "\<not> to_vip fcfg key" using m(4,5) by (auto simp: to_vip_def)
  then have fh: "fwd_handle ck fcfg gw_picker nbrs (Some m) now st (gw_upstreams gw) = Some (o', Some m', st', gw_upstreams gw)"
    using hr m(4) by (simp add: fwd_handle_accepted [OF m(1,2,3)])
  have dst: "fk_dst_ip (reverse_flow ses) = s_client_ip ses" "fk_src_ip (reverse_flow ses) = s_vip_ip ses"
    by (simp_all add: reverse_flow_def)
  have o: "o' = outcome tx_reverse" and t: "translated ck m udp len (reverse_flow ses) m'"
    and l2: "ld_mac (mb_buf m') eth_src_addr = Some (fc_gateway_mac fcfg)" "ld_mac (mb_buf m') eth_dst_addr = Some mac"
    using d hop(2) by (simp_all add: delivered_def dst)
  have "ipv4_src_be (Some m') = Some (s_vip_ip ses)"
    using src_of_frame(1) [of m' udp len "reverse_flow ses"] t dst(2) by (auto simp: translated_def)
  from vgw_handle_ipv4 [OF src(2) cfg hop(1) src(1) fh this] that t l2 show thesis
    by (simp add: o quiet)
qed

text \<open>The two directions of a session that belongs to a client's flow.\<close>

lemma session_ends:
  assumes "session_ok gw ses" "s_forward_key ses = key" "fk_proto key = 17"
  shows "s_reverse_key ses = flip (forward_flow gw ses)" "reverse_flow ses = flip key"
    "s_client_ip ses = fk_src_ip key" "s_vip_ip ses = fk_dst_ip key" "fk_dst_ip (flip (forward_flow gw ses)) = gw"
proof -
  show r: "s_reverse_key ses = flip (forward_flow gw ses)" "reverse_flow ses = flip key"
    using session_flows [OF assms(1)] assms(2,3) by simp_all
  show "s_client_ip ses = fk_src_ip key" "s_vip_ip ses = fk_dst_ip key" "fk_dst_ip (flip (forward_flow gw ses)) = gw"
    using r(2) by (simp_all add: reverse_flow_def flip_def forward_flow_def)
qed

section \<open>Passive learning\<close>

definition unicast :: "u32 \<Rightarrow> bool" where
  "unicast ip \<longleftrightarrow> ip \<noteq> 0 \<and> (ucast (drop_bit 24 (rte_be_to_cpu_32 ip) AND 0xff) :: u8) < 224"

lemma frame_source:
  assumes "mbuf_ok m" "udp_frame m udp len" "frame_flow (mb_buf m) udp = Some key"
  shows "ld32 (mb_buf m) 26 = Some (fk_src_ip key)" "be16 (mb_buf m) 12 = Some RTE_ETHER_TYPE_IPV4" "34 \<le> unat (mb_data_len m)"
  using assms by (auto simp: frame_flow_def udp_frame_def Let_def split: Option.bind_splits)

lemma request_learns:
  assumes "mbuf_ok m" "udp_frame m udp len" "frame_flow (mb_buf m) udp = Some key" "unicast (fk_src_ip key)"
    "ld_mac (mb_buf m) eth_src_addr = Some mac"
  shows "passive_learn_ipv4 (Some m) (Some nt) now = Some (Some (nt_learn nt (fk_src_ip key) mac now))"
  using frame_source [OF assms(1-3)] assms(4,5)
  by (auto simp: passive_learn_ipv4_def unicast_def be16_def as_u16_def Let_def not_le headers_fit.simps word_le_nat_alt word_less_nat_alt)

lemma learning_elsewhere:
  assumes "mbuf_ok m" "udp_frame m udp len" "frame_flow (mb_buf m) udp = Some key" "fk_src_ip key \<noteq> ip"
  obtains nt' where "passive_learn_ipv4 (Some m) (Some nt) now = Some (Some nt')" "nt_lookup nt' ip = nt_lookup nt ip"
proof -
  obtain nbrs where "passive_learn_ipv4 (Some m) (Some nt) now = Some nbrs" using passive_learn_defined [OF assms(1)] by blast
  moreover from this have "nbrs = Some nt \<or> (\<exists>mac. nbrs = Some (nt_learn nt (fk_src_ip key) mac now))"
    using frame_source(1) [OF assms(1-3)] by (auto simp: passive_learn_ipv4_def bind_eq_Some_conv Let_def split: if_splits)
  ultimately show thesis using that nt.learn_miss assms(4) by metis
qed

lemma learned_survives:
  assumes "\<not> nt_pinned nt ip" "now2 - now < nt_entry_timeout_ms nt"
    and "nbrs = Some (nt_learn nt ip mac now) \<or> nbrs = map_option (\<lambda>nt. nt_expire nt now2) (Some (nt_learn nt ip mac now))"
  obtains nt2 where "nbrs = Some nt2" "nt_lookup nt2 ip = Some mac"
  using assms nt.learn_hit [OF assms(1), of mac now] learned_entry_lifetime [OF assms(1), of mac now now2] by auto

section \<open>Properties\<close>

text \<open>
  C2: a client is served. A client sends a datagram to the virtual service; the turn that receives
  it puts out a frame. If the upstream answers that frame in a later turn, before the session and
  the neighbor entry are too old, then that turn hands the device exactly one frame: the answer,
  from the address and port the client had addressed, to the client's address and port, and to
  the hardware address the client's request came from. This covers the whole path through
  reception, housekeeping, learning, sessions, translation and transmission, twice.
\<close>

theorem client_served:
  assumes nf: "nf_mode nf = Rtc" "rx_burst ef d (nf_port_id nf) (nf_queue_id nf) 32 = ([m], d1)"
      "rx_burst ef d2 (nf_port_id nf) (nf_queue_id nf) 32 = ([m2], d3)"
    and hk: "gw_inv gw0" "housekeeping mem now t gw0 = Some (t1, gw, freed)"
    and cfg: "gw_forwarder gw = Some fcfg" "gw_sessions gw = Some st" "gw_neighbors gw = Some nt"
      "fc_gateway_ip_be fcfg = st_gateway_ip st" "vip_ip_be (fc_vip fcfg) \<noteq> fc_gateway_ip_be fcfg"
    and m: "mbuf_ok m" "acceptable ck fcfg m udp len" "frame_flow (mb_buf m) udp = Some key" "to_vip fcfg key"
    and client: "unicast (fk_src_ip key)" "\<not> nt_pinned nt (fk_src_ip key)" "ld_mac (mb_buf m) eth_src_addr = Some cmac"
    and serve: "\<not> no_session gw_picker st (gw_upstreams gw) key"
      "hops_known fcfg (Some (nt_learn nt (fk_src_ip key) cmac now)) st (gw_upstreams gw)"
    and quiet: "map_of (gw_arp_pending gw) (fc_gateway_ip_be fcfg) = None" "map_of (gw_arp_pending gw) (fk_dst_ip key) = None"
    and turn: "worker_turn ck alloc rf ef drain mem now t gw0 pool nf d = Some (t', s, nf', d')" "bs_tx s = [m1]"
      "frame_flow (mb_buf m1) udp = Some k1"
    and reply: "mbuf_ok m2" "acceptable ck fcfg m2 udp2 len2" "frame_flow (mb_buf m2) udp2 = Some (flip k1)"
      "fk_dst_ip k1 \<noteq> fk_src_ip key"
    and time: "now2 - now < st_idle_timeout_ms st" "now2 - now < nt_entry_timeout_ms nt"
  shows "\<exists>t2 s2 m2'. worker_turn ck alloc rf ef drain2 mem2 now2 t' (bs_gw s) pool2 nf d2 =
      Some (t2, s2, nf, snd (rtc_send ef nf d3 [m2'])) \<and> bs_tx s2 = [m2'] \<and>
    translated ck m2 udp2 len2 (flip key) m2' \<and>
    ld_mac (mb_buf m2') eth_src_addr = Some (fc_gateway_mac fcfg) \<and> ld_mac (mb_buf m2') eth_dst_addr = Some cmac"
proof -
  have inv: "gw_inv gw" using housekeeping_ok [OF hk(1), of mem now t] hk(2) by auto
  have f: "udp_frame m udp len" "udp_frame m2 udp2 len2" using m(2) reply(2) by (simp_all add: acceptable_def)
  let ?nbrs = "Some (nt_learn nt (fk_src_ip key) cmac now)"
  have learn: "passive_learn_ipv4 (Some m) (gw_neighbors gw) now = Some ?nbrs"
    unfolding cfg(3) by (rule request_learns [OF m(1) f(1) m(3) client(1,3)])
  obtain m1' gw1 st1 p ses where h: "vgw_handle ck gw (Some m) now = Some (outcome tx_forward, Some m1', gw1)"
    and s1: "gw_sessions gw1 = Some st1" "st_heap st1 p = Some ses" "s_forward_key ses = key" "s_last_active_ms ses = now"
      "same_config st st1" "translated ck m udp len (forward_flow (fc_gateway_ip_be fcfg) ses) m1'"
    and g1: "gw_neighbors gw1 = ?nbrs" "gw_forwarder gw1 = Some fcfg" "gw_arp_pending gw1 = gw_arp_pending gw"
    by (rule served_datagram_handled [OF inv cfg(1,2) m serve(1) learn serve(2) quiet(1)]) metis
  from single_packet_turn [OF nf(1,2) hk(2) h _ _ translated_addr [OF s1(6)], of alloc rf drain pool]
  have first: "t' = t1" "bs_gw s = gw1" "m1 = m1'" using turn(1,2) by auto
  have inv1: "gw_inv gw1" using vgw_handle_ok [OF inv m(1), of ck now] h by auto
  obtain t2 gw2 fr2 where hk2: "housekeeping mem2 now2 t' gw1 = Some (t2, gw2, fr2)" "gw_inv gw2"
    using housekeeping_ok [OF inv1] by metis
  have "now2 - s_last_active_ms ses < st_idle_timeout_ms st1" using time(1) s1(4,5) by (simp add: same_config_def)
  then obtain st2 where s2: "gw_sessions gw2 = Some st2" "st_heap st2 p = Some ses" "lookup_reverse st2 (s_reverse_key ses) = Some p"
    using housekeeping_keeps_session [OF inv1 s1(1,2) _ hk2(1)] by blast
  note hf = housekeeping_frames [OF hk2(1)]
  obtain nt2 where nt2: "gw_neighbors gw2 = Some nt2" "nt_lookup nt2 (fk_src_ip key) = Some cmac"
    using learned_survives [OF client(2) time(2)] hf(2) unfolding g1(1) by metis
  have "fk_src_ip (flip k1) \<noteq> fk_src_ip key" using reply(4) by (simp add: flip_def)
  then obtain nt3 where nt3: "passive_learn_ipv4 (Some m2) (gw_neighbors gw2) now2 = Some (Some nt3)"
      "nt_lookup nt3 (fk_src_ip key) = Some cmac"
    using learning_elsewhere [OF reply(1) f(2) reply(3)] nt2 by metis
  have "session_ok (fc_gateway_ip_be fcfg) ses"
    using st_inv_session [OF _ s1(2)] inv1 s1(1,5) cfg(4) by (simp add: gw_inv_def same_config_def)
  note ends = session_ends [OF this s1(3) frame_flow_proto [OF m(3)]]
  have k1: "k1 = forward_flow (fc_gateway_ip_be fcfg) ses" using turn(3) s1(6) by (simp add: first(3) translated_def)
  have hop: "lookup_next_hop_mac (Some nt3) (s_client_ip ses) (fc_client_side_mac fcfg) = Some cmac"
    using nt3(2) by (simp add: lookup_next_hop_mac_def ends)
  have fw: "gw_forwarder gw2 = Some fcfg" and q: "map_of (gw_arp_pending gw2) (s_vip_ip ses) = None"
    using hf(1) hf(3) [of "s_vip_ip ses"] g1 quiet(2) by (simp_all add: ends)
  obtain m2' gw3 where r: "vgw_handle ck gw2 (Some m2) now2 = Some (outcome tx_reverse, Some m2', gw3)"
    "translated ck m2 udp2 len2 (flip key) m2'"
    "ld_mac (mb_buf m2') eth_src_addr = Some (fc_gateway_mac fcfg)" "ld_mac (mb_buf m2') eth_dst_addr = Some cmac"
    using returned_datagram_handled [OF hk2(2) fw s2(1) reply(1-3) ends(5) [folded k1] cfg(5) s2(3) [unfolded ends(1), folded k1] s2(2) nt3(1) hop q]
    unfolding ends(2) by metis
  from single_packet_turn [OF nf(1,3) hk2(1) r(1) _ _ translated_addr [OF r(2)], of alloc rf drain2 pool2] r first show ?thesis
    by (metis HandleResult.distinct(3) HandleResult.distinct(17))
qed

definition ex_answer :: rte_mbuf where
  "ex_answer = frame_mbuf 2
     [2,0,0,0,0,1, 2,0,0,0,0,3, 0x08,0x00,
      0x45,0,0,28, 0,0,0,0, 64,17,0,0, 10,0,0,1, 192,168,1,10,
      0,53, 0x27,0x10, 0,8, 0,0]"

definition ex_out_flow :: FlowKey where
  "ex_out_flow = \<lparr>fk_src_ip = le32 192 168 1 10, fk_dst_ip = le32 10 0 0 1, fk_src_port = 10000, fk_dst_port = 53, fk_proto = 17\<rparr>"

lemma ex_answer_frame:
  "mbuf_ok ex_answer" "udp_frame ex_answer 34 8" "frame_flow (mb_buf ex_answer) 34 = Some (flip ex_out_flow)"
  by (simp_all add: ex_answer_def udp_frame_def frame_flow_def ex_out_flow_def flip_def mbuf_ok_def eval_simps)

lemma ex_request_out:
  "\<exists>m1 gw1. vgw_handle ex_cksum ex_gw (Some ex_request) 5 = Some (outcome tx_forward, Some m1, gw1) \<and>
     frame_flow (mb_buf m1) 34 = Some ex_out_flow \<and> mb_addr m1 = mb_addr ex_request"
  by (simp add: gwh_eval frame_flow_def ex_out_flow_def eval_simps del: alloc_scan_numeral alloc_scan.simps)

theorem client_served_witness:
  "\<exists>t1 s1 m1 t2 s2 m2. worker_turn ex_cksum (\<lambda>p. (None, p)) list_ring ex_eth (\<lambda>_. 0) (\<lambda>_. fresh_segment None) 5 ex_timers ex_gw ()
      ex_rtc [ex_request] = Some (t1, s1, ex_rtc, []) \<and> bs_tx s1 = [m1] \<and> frame_flow (mb_buf m1) 34 = Some ex_out_flow \<and>
    worker_turn ex_cksum (\<lambda>p. (None, p)) list_ring ex_eth (\<lambda>_. 0) (\<lambda>_. fresh_segment None) 2000 t1 (bs_gw s1) ()
      ex_rtc [ex_answer] = Some (t2, s2, ex_rtc, snd (rtc_send ex_eth ex_rtc [] [m2])) \<and>
    translated ex_cksum ex_answer 34 8 (flip (ex_flow 5000)) m2 \<and> ld_mac (mb_buf m2) eth_dst_addr = Some (MAC 2 0 0 0 0 9)"
proof -
  let ?fcfg = "the (gw_forwarder ex_gw)" and ?st = "session_table (le32 192 168 1 10) 60000 10000 60000"
    and ?nt = "nt_seed (neighbor_table 300000) (le32 10 0 0 1) (MAC 2 0 0 0 0 3)"
  have rx: "nf_mode ex_rtc = Rtc" "rx_burst ex_eth [ex_request] (nf_port_id ex_rtc) (nf_queue_id ex_rtc) 32 = ([ex_request], [])"
    "rx_burst ex_eth [ex_answer] (nf_port_id ex_rtc) (nf_queue_id ex_rtc) 32 = ([ex_answer], [])"
    by (simp_all add: ex_rtc_def rx_burst_def ex_eth_def)
  have cfg: "gw_forwarder ex_gw = Some ?fcfg" "gw_neighbors ex_gw = Some ?nt" "fc_gateway_ip_be ?fcfg = st_gateway_ip ?st"
    "vip_ip_be (fc_vip ?fcfg) \<noteq> fc_gateway_ip_be ?fcfg"
    by (simp_all add: ex_gw_def session_table_def le32_def)
  have acc: "acceptable ex_cksum ?fcfg ex_request 34 8" "to_vip ?fcfg (ex_flow 5000)" "acceptable ex_cksum ?fcfg ex_answer 34 8"
    using ex_request_frame ex_answer_frame by (simp_all add: acceptable_def ex_gw_def to_vip_def ex_flow_def eval_simps)
  have client: "unicast (fk_src_ip (ex_flow 5000))" "\<not> nt_pinned ?nt (fk_src_ip (ex_flow 5000))"
    "ld_mac (mb_buf ex_request) eth_src_addr = Some (MAC 2 0 0 0 0 9)"
    by (simp_all add: unicast_def ex_flow_def nt_defs neighbor_table_def ex_request_def client_frame_def eval_simps)
  have hops: "hops_known ?fcfg (Some (nt_learn ?nt (fk_src_ip (ex_flow 5000)) (MAC 2 0 0 0 0 9) 5)) ?st (gw_upstreams ex_gw)"
    by (auto simp: hops_known_def ex_gw_def session_table_def lookup_next_hop_mac_def nt_defs neighbor_table_def ex_flow_def le32_def)
  have quiet: "map_of (gw_arp_pending ex_gw) ip = None" for ip by (simp add: ex_gw_def)
  obtain m1 gw1 where h: "vgw_handle ex_cksum ex_gw (Some ex_request) 5 = Some (outcome tx_forward, Some m1, gw1)"
    "frame_flow (mb_buf m1) 34 = Some ex_out_flow" "mb_addr m1 = mb_addr ex_request"
    using ex_request_out by blast
  obtain s1 where one: "worker_turn ex_cksum (\<lambda>p. (None, p)) list_ring ex_eth (\<lambda>_. 0) (\<lambda>_. fresh_segment None) 5 ex_timers ex_gw ()
      ex_rtc [ex_request] = Some (ex_timers, s1, ex_rtc, [])" "bs_tx s1 = [m1]"
    using single_packet_turn [OF rx(1,2) ex_quiet h(1) _ _ h(3), of "\<lambda>p. (None, p)" list_ring "\<lambda>_. 0" "()"]
    by (auto simp: rtc_send_def tx_burst_def ex_eth_def)
  have rep: "fk_dst_ip ex_out_flow \<noteq> fk_src_ip (ex_flow 5000)" by (simp add: ex_out_flow_def ex_flow_def le32_def)
  show ?thesis
    using client_served [where ?now2.0 = 2000 and ?mem2.0 = "\<lambda>_. fresh_segment None" and ?drain2.0 = "\<lambda>_. 0" and ?pool2.0 = "()",
        OF rx ex_gw_inv ex_quiet cfg(1) ex_gw_sessions cfg(2-4) ex_request_ok acc(1) ex_request_frame(2) acc(2)
        client ex_served hops quiet quiet one h(2) ex_answer_frame(1) acc(3) ex_answer_frame(3) rep] one h(2)
    by (auto simp: session_table_def neighbor_table_def nt_seed_def)
qed

end
