(* ===== verification/Netif_Lifetime.thy ===== *)
theory Netif_Lifetime
  imports Netif_Manager "HOL-Library.Multiset"
begin

text \<open>
  The end of the I/O objects of \<open>src/src/dpdk/netif.cpp\<close>: the destructors of a port interface and of
  the manager, and the one instance of the manager that \<open>src/src/base/singleton.hpp\<close> hands out. What
  is freed is a list of rings, as in \<open>reset_state\<close>.
\<close>

section \<open>Destructors\<close>

definition netif_dtor :: "'r DpdkNetif \<Rightarrow> 'r list exec" where
  "netif_dtor nf = and_then (reset_state nf) (\<lambda>(freed, nf'). Done freed)"

text \<open>\<open>ports\<close> is the order in which the map of the manager is walked.\<close>

primrec manager_dtor :: "int list \<Rightarrow> 'r DpdkNetifManager \<Rightarrow> 'r list exec" where
  "manager_dtor [] mg = Done []"
| "manager_dtor (p # ports) mg =
     (case mg_netifs mg p of
        None \<Rightarrow> manager_dtor ports mg
      | Some nf \<Rightarrow> and_then (netif_dtor nf) (\<lambda>freed. and_then (manager_dtor ports mg) (\<lambda>rest. Done (freed @ rest))))"

section \<open>The one instance\<close>

text \<open>
  \<open>GetInstance\<close>: the state is whether \<open>call_once\<close> has run and the stored pointer, \<open>fresh\<close> the address
  of a new object.
\<close>

definition get_instance :: "nat \<Rightarrow> bool \<times> nat option \<Rightarrow> nat option \<times> bool \<times> nat option" where
  "get_instance fresh s = (case s of (flag, obj) \<Rightarrow>
     if flag then (obj, flag, obj) else (Some fresh, True, Some fresh))"

primrec get_instances :: "nat list \<Rightarrow> bool \<times> nat option \<Rightarrow> nat option list" where
  "get_instances [] s = []"
| "get_instances (a # as) s = (case get_instance a s of (p, s') \<Rightarrow> p # get_instances as s')"

lemma instances_after: "get_instances as (True, p) = replicate (length as) p"
  by (induction as) (simp_all add: get_instance_def)

lemma one_instance: "get_instances (a # as) (False, None) = replicate (Suc (length as)) (Some a)"
  by (simp add: get_instance_def instances_after)

section \<open>Rings are released exactly once\<close>

definition rings_of :: "'r DpdkNetif \<Rightarrow> 'r list" where
  "rings_of nf = (case nf_state nf of
     Some (ns_pipeline ps) \<Rightarrow> [ring_ring (ps_tx_ring ps), ring_ring (ps_rx_ring ps)] | _ \<Rightarrow> [])"

text \<open>The live union member is the one the mode names.\<close>

definition member_ok :: "'r DpdkNetif \<Rightarrow> bool" where
  "member_ok nf \<longleftrightarrow> (case nf_state nf of None \<Rightarrow> True
     | Some (ns_pipeline ps) \<Rightarrow> nf_mode nf = Pipeline | Some ns_rtc \<Rightarrow> nf_mode nf = Rtc)"

lemma reset_state_ok: "member_ok nf \<Longrightarrow> reset_state nf = Done (rings_of nf, nf\<lparr>nf_state := None\<rparr>)"
  by (cases "nf_state nf") (auto simp: reset_state_def member_ok_def rings_of_def split: NetifState.splits)

lemma netif_dtor_ok: "member_ok nf \<Longrightarrow> netif_dtor nf = Done (rings_of nf)"
  by (simp add: netif_dtor_def reset_state_ok)

lemma netif_init_ok:
  assumes "member_ok nf" "cfg_wf cfg"
  shows "netif_init rf port cfg nf \<noteq> Undef"
    "netif_init rf port cfg nf = Done (freed, nf') \<Longrightarrow> freed = rings_of nf \<and> member_ok nf'"
proof -
  have "(case netif_init rf port cfg nf of Done (freed, nf') \<Rightarrow> freed = rings_of nf \<and> member_ok nf' | Exits e \<Rightarrow> True | Undef \<Rightarrow> False)"
    using assms
    by (cases "dc_u cfg")
       (auto simp: netif_init_def reset_state_ok cfg_wf_def make_ring_def member_ok_def Let_def split: option.split)
  then show "netif_init rf port cfg nf \<noteq> Undef"
    "netif_init rf port cfg nf = Done (freed, nf') \<Longrightarrow> freed = rings_of nf \<and> member_ok nf'"
    by (auto split: exec.splits)
qed

text \<open>Any number of initialisations of one interface, with the rings freed and created on the way.\<close>

primrec netif_inits ::
    "('r, 'a) ring_fns \<Rightarrow> (u16 \<times> DatapathConfig) list \<Rightarrow> 'r DpdkNetif \<Rightarrow> ('r list \<times> 'r list \<times> 'r DpdkNetif) exec" where
  "netif_inits rf [] nf = Done ([], [], nf)"
| "netif_inits rf (c # cs) nf =
     and_then (netif_init rf (fst c) (snd c) nf) (\<lambda>(freed, nf1).
     and_then (netif_inits rf cs nf1) (\<lambda>(freed', created', nf2).
       Done (freed @ freed', rings_of nf1 @ created', nf2)))"

lemma netif_inits_ok:
  assumes "member_ok nf" "\<forall>c \<in> set cs. cfg_wf (snd c)"
  shows "case netif_inits rf cs nf of Undef \<Rightarrow> False | Exits e \<Rightarrow> True
    | Done (freed, created, nf') \<Rightarrow> member_ok nf' \<and> mset freed + mset (rings_of nf') = mset (rings_of nf) + mset created"
  using assms
proof (induction cs arbitrary: nf)
  case (Cons c cs)
  note i = netif_init_ok [OF Cons.prems(1), of "snd c" rf "fst c"]
  show ?case
  proof (cases "netif_init rf (fst c) (snd c) nf")
    case (Done r)
    obtain freed nf1 where r: "r = (freed, nf1)" by fastforce
    have nf1: "freed = rings_of nf" "member_ok nf1" using i(2) Cons.prems(2) Done r by auto
    show ?thesis
      using Cons.IH [OF nf1(2)] Cons.prems(2) Done r nf1(1)
      by (auto simp: ac_simps split: exec.splits)
  next
    case Undef
    then show ?thesis using i(1) Cons.prems(2) by simp
  qed simp
qed simp

text \<open>
  C35: a port interface releases every ring it creates exactly once, however often it is
  initialised and in whatever order the modes alternate: no initialisation and no destruction
  destroys a union member that is not live, and the rings freed by the initialisations and by the
  destructor together are exactly the rings created.
\<close>

theorem netif_rings_released_once:
  assumes "\<forall>c \<in> set cs. cfg_wf (snd c)"
  shows "netif_inits rf cs dpdk_netif \<noteq> Undef \<and>
    (\<forall>freed created nf. netif_inits rf cs dpdk_netif = Done (freed, created, nf) \<longrightarrow>
       (\<exists>last. netif_dtor nf = Done last \<and> mset (freed @ last) = mset created))"
proof -
  have "member_ok (dpdk_netif :: 'a DpdkNetif)" "rings_of (dpdk_netif :: 'a DpdkNetif) = []"
    by (simp_all add: member_ok_def dpdk_netif_def rings_of_def)
  with netif_inits_ok [OF this(1) assms, of rf] show ?thesis
    by (auto simp: netif_dtor_ok split: exec.splits)
qed

theorem netif_rings_released_once_witness:
  "\<exists>freed created nf last. netif_inits (list_ring :: (nat \<times> rte_mbuf list, rte_mbuf) ring_fns)
      [(0, datapath_config_defaults), (0, datapath_config_defaults)] dpdk_netif = Done (freed, created, nf) \<and>
     netif_dtor nf = Done last \<and> length created = 4 \<and> mset (freed @ last) = mset created"
proof -
  let ?rf = "list_ring :: (nat \<times> rte_mbuf list, rte_mbuf) ring_fns"
  let ?cs = "[(0, datapath_config_defaults), (0, datapath_config_defaults)] :: (u16 \<times> DatapathConfig) list"
  have wf: "\<forall>c \<in> set ?cs. cfg_wf (snd c)"
    by (simp add: cfg_wf_def datapath_config_defaults_def datapath_config_def)
  define nf where "nf = dpdk_netif\<lparr>nf_mode := Pipeline, nf_port_id := 0, nf_queue_id := 0, nf_state := Some (ns_pipeline
      \<lparr>ps_rx_ring = \<lparr>ring_ring = (31 :: nat, [] :: rte_mbuf list), ring_free_space = 32\<rparr>,
       ps_tx_ring = \<lparr>ring_ring = (31, []), ring_free_space = 32\<rparr>, ps_stop = False, ps_tx_ring_full_sleep_us = 10\<rparr>)\<rparr>"
  have mk: "make_ring ?rf name 32 0 = Done \<lparr>ring_ring = (31, []), ring_free_space = 32\<rparr>" for name
    by (simp add: make_ring_def list_ring_def)
  have "netif_init ?rf 0 datapath_config_defaults nf0 = Done (rings_of nf0, nf)" if "nf0 = dpdk_netif \<or> nf0 = nf" for nf0
  proof -
    have "member_ok nf0" using that by (auto simp: member_ok_def nf_def dpdk_netif_def)
    then show ?thesis
      using that by (auto simp: netif_init_def reset_state_ok datapath_config_defaults_def datapath_config_def IO_RING_SIZE_def
          IO_RING_FLAGS_def IO_TX_RING_FULL_SLEEP_US_def mk Let_def nf_def dpdk_netif_def)
  qed
  then have r: "netif_inits ?rf ?cs dpdk_netif = Done (rings_of dpdk_netif @ rings_of nf, rings_of nf @ rings_of nf, nf)"
    by simp
  moreover have "length (rings_of nf @ rings_of nf) = 4" by (simp add: rings_of_def nf_def)
  ultimately show ?thesis
    using netif_rings_released_once [OF wf, of ?rf] by blast
qed

end
