(* ===== verification/Util_Runtime.thy ===== *)
theory Util_Runtime
  imports Util Netif_Lifetime "HOL-Library.Signed_Division"
begin

text \<open>
  The functions of \<open>src/src/base/util.{hpp,cpp}\<close> that rest on the machine or on a library: the hash
  of boost, the random generator and the text of a clock reading; and the two functions of
  \<open>src/src/dpdk/netif.cpp\<close> that hand a buffer out and shut the environment down. The readings of the
  clocks, the entropy source, the engine and its distribution, the hash, \<open>localtime\<close> and the buffer
  pool are arguments.
\<close>

section \<open>Hash\<close>

text \<open>\<open>hash\<close> stands for \<open>boost::hash_value\<close>, whose 64-bit result is cut to 32 bits.\<close>

definition fnv :: "(u8 list \<Rightarrow> u64) \<Rightarrow> u8 list \<Rightarrow> u32" where
  "fnv hash data = ucast (hash data)"

lemma fnv_bits: "bit (fnv hash data) n \<longleftrightarrow> n < 32 \<and> bit (hash data) n"
  by (simp add: fnv_def bit_ucast_iff)

section \<open>Random numbers\<close>

text \<open>
  The generator is the engine; its constructor seeds the engine from the entropy source. \<open>mt\<close> is
  the seeded engine, \<open>dis\<close> the uniform distribution, which requires a non-empty range: \<open>None\<close> is
  the undefined behaviour of an empty one.
\<close>

type_synonym 'g uniform_int = "int \<Rightarrow> int \<Rightarrow> 'g \<Rightarrow> int \<times> 'g"

definition RandomGenerator :: "(u32 \<Rightarrow> 'g) \<Rightarrow> u32 \<Rightarrow> 'g" where
  "RandomGenerator mt rd = mt rd"

definition random_int :: "'g uniform_int \<Rightarrow> int \<Rightarrow> int \<Rightarrow> 'g \<Rightarrow> (int \<times> 'g) option" where
  "random_int dis lo hi gen = (if lo \<le> hi then Some (dis lo hi gen) else None)"

text \<open>The one instance: \<open>fresh\<close> is the address of a new object, \<open>heap\<close> holds the engines.\<close>

definition generate_random ::
    "(u32 \<Rightarrow> 'g) \<Rightarrow> u32 \<Rightarrow> 'g uniform_int \<Rightarrow> nat \<Rightarrow> int \<Rightarrow> int \<Rightarrow> (bool \<times> nat option) \<times> (nat \<rightharpoonup> 'g) \<Rightarrow>
     (int \<times> (bool \<times> nat option) \<times> (nat \<rightharpoonup> 'g)) option" where
  "generate_random mt rd dis fresh lo hi s = (case s of (inst, heap) \<Rightarrow>
     let (p, inst') = get_instance fresh inst;
         heap' = (if fst inst then heap else heap(fresh \<mapsto> RandomGenerator mt rd))
     in case p of None \<Rightarrow> None
        | Some a \<Rightarrow> (case heap' a of None \<Rightarrow> None
            | Some gen \<Rightarrow> map_option (\<lambda>(i, gen'). (i, inst', heap'(a \<mapsto> gen'))) (random_int dis lo hi gen)))"

definition uniform_in_range :: "'g uniform_int \<Rightarrow> bool" where
  "uniform_in_range dis \<longleftrightarrow> (\<forall>b e g i g'. dis b e g = (i, g') \<longrightarrow> b \<le> e \<longrightarrow> b \<le> i \<and> i \<le> e)"

text \<open>Before the first call, or after it with the engine still on the heap.\<close>

definition generator_ok :: "(bool \<times> nat option) \<times> (nat \<rightharpoonup> 'g) \<Rightarrow> bool" where
  "generator_ok s \<longleftrightarrow> fst s = (False, None) \<or> (\<exists>a \<in> dom (snd s). fst s = (True, Some a))"

lemma uniform_in_rangeD: "uniform_in_range dis \<Longrightarrow> dis b e g = (i, g') \<Longrightarrow> b \<le> e \<Longrightarrow> b \<le> i \<and> i \<le> e"
  unfolding uniform_in_range_def by blast

lemma generate_random_exact:
  assumes "generator_ok s"
  shows "generate_random mt rd dis fresh b e s = None \<longleftrightarrow> e < b"
    "generate_random mt rd dis fresh b e s = Some (i, s') \<Longrightarrow> generator_ok s'"
    "uniform_in_range dis \<Longrightarrow> generate_random mt rd dis fresh b e s = Some (i, s') \<Longrightarrow> b \<le> i \<and> i \<le> e"
  using assms
  by (auto simp: generate_random_def generator_ok_def get_instance_def random_int_def Let_def
      split: if_splits prod.splits dest: uniform_in_rangeD)

section \<open>Text of a clock reading\<close>

record tm =
  tm_year :: int
  tm_mon :: int
  tm_mday :: int
  tm_hour :: int
  tm_min :: int
  tm_sec :: int

text \<open>A field of at least two digits, as \<open>%m\<close>, \<open>%d\<close>, \<open>%H\<close>, \<open>%M\<close> and \<open>%S\<close> print it.\<close>

definition fmt_2d :: "int \<Rightarrow> string" where
  "fmt_2d i = (if 0 \<le> i \<and> i < 10 then ''0'' @ to_string i else to_string i)"

definition clock_text :: "tm \<Rightarrow> string" where
  "clock_text t = to_string (1900 + tm_year t) @ ''-'' @ fmt_2d (tm_mon t + 1) @ ''-'' @ fmt_2d (tm_mday t) @ '' '' @
     fmt_2d (tm_hour t) @ '':'' @ fmt_2d (tm_min t) @ '':'' @ fmt_2d (tm_sec t)"

text \<open>
  \<open>strftime\<close> into a buffer of \<open>n\<close> bytes: when text and terminator do not fit, the contents of the
  buffer are unspecified and reading them is \<open>None\<close>.
\<close>

definition strftime :: "nat \<Rightarrow> tm \<Rightarrow> string option" where
  "strftime n t = (if length (clock_text t) + 1 \<le> n then Some (clock_text t) else None)"

text \<open>
  Clock readings are nanoseconds, far enough from the bounds of 64 bits that sums of them do not
  overflow, so they are integers here; \<open>to_time_t\<close> truncates to seconds. \<open>localtime\<close> returns a null
  pointer for a time it cannot represent.
\<close>

definition clock_to_str :: "int \<Rightarrow> int \<Rightarrow> (int \<Rightarrow> tm option) \<Rightarrow> int \<Rightarrow> string option" where
  "clock_to_str system_now high_resolution_now localtime tp =
     (let system_tp = system_now + (tp - high_resolution_now);
          t = system_tp sdiv 1000000000
      in Option.bind (localtime t) (strftime 30))"

text \<open>What \<open>localtime\<close> promises of its result; the year is an \<open>int\<close> of 32 bits.\<close>

definition tm_ok :: "tm \<Rightarrow> bool" where
  "tm_ok t \<longleftrightarrow> - (2 ^ 31) \<le> tm_year t \<and> tm_year t < 2 ^ 31 \<and> 0 \<le> tm_mon t \<and> tm_mon t \<le> 11 \<and> 1 \<le> tm_mday t \<and> tm_mday t \<le> 31 \<and>
     0 \<le> tm_hour t \<and> tm_hour t \<le> 23 \<and> 0 \<le> tm_min t \<and> tm_min t \<le> 59 \<and> 0 \<le> tm_sec t \<and> tm_sec t \<le> 60"

lemma dec_string_length: "n < 10 ^ Suc k \<Longrightarrow> length (dec_string n) \<le> Suc k"
proof (induction k arbitrary: n)
  case 0
  then show ?case by (simp add: dec_string_single)
next
  case (Suc k)
  show ?case
  proof (cases "n < 10")
    case False
    have "n div 10 < 10 ^ Suc k" using Suc.prems by (simp add: div_less_iff_less_mult mult.commute)
    from Suc.IH [OF this] show ?thesis using False by (simp add: dec_string_snoc)
  qed (simp add: dec_string_single)
qed

lemma dec_string_two: "10 \<le> n \<Longrightarrow> n < 100 \<Longrightarrow> length (dec_string n) = 2"
  by (simp add: dec_string_snoc dec_string_single)

lemma fmt_2d_length: "0 \<le> i \<Longrightarrow> i < 100 \<Longrightarrow> length (fmt_2d i) = 2"
  by (auto simp: fmt_2d_def to_string_def dec_string_single dec_string_two)

lemma to_string_eq [simp]: "to_string i = to_string j \<longleftrightarrow> i = j"
proof -
  have "dec_string n \<noteq> CHR ''-'' # s" for n s
    using dec_string_digits [of n] by (auto simp: is_digit_def)
  then have "\<not> (dec_string n = CHR ''-'' # s)" "\<not> (CHR ''-'' # s = dec_string n)" for n s by metis+
  then show ?thesis by (auto simp: to_string_def)
qed

lemma fmt_2d_eq: "0 \<le> i \<Longrightarrow> i < 100 \<Longrightarrow> 0 \<le> j \<Longrightarrow> j < 100 \<Longrightarrow> fmt_2d i = fmt_2d j \<longleftrightarrow> i = j"
proof (cases "i < 10 \<longleftrightarrow> j < 10")
  case False
  assume a: "0 \<le> i" "i < 100" "0 \<le> j" "j < 100"
  have "dec_value (fmt_2d k) = nat k" if "0 \<le> k" for k
    using that dec_value_string [of "nat k"] by (auto simp: fmt_2d_def to_string_def dec_value_def)
  then show ?thesis using a by (metis eq_nat_nat_iff)
qed (auto simp: fmt_2d_def)

text \<open>
  For every time that \<open>localtime\<close> represents the text fits the buffer and determines the time.
\<close>

lemma clock_text_fits:
  assumes "tm_ok t"
  shows "length (clock_text t) \<le> 26"
proof -
  have "nat (1900 + tm_year t) < 10 ^ Suc 9" "nat (- (1900 + tm_year t)) < 10 ^ Suc 9"
    using assms by (auto simp: tm_ok_def)
  from this [THEN dec_string_length] have "length (to_string (1900 + tm_year t)) \<le> 11"
    by (simp add: to_string_def)
  then show ?thesis using assms by (simp add: clock_text_def tm_ok_def fmt_2d_length)
qed

lemma clock_text_inj:
  assumes "tm_ok t" "tm_ok u" "clock_text t = clock_text u"
  shows "t = (u :: tm)"
proof -
  note eq = fmt_2d_length fmt_2d_eq
  have "to_string (1900 + tm_year t) = to_string (1900 + tm_year u) \<and> fmt_2d (tm_mon t + 1) = fmt_2d (tm_mon u + 1) \<and>
      fmt_2d (tm_mday t) = fmt_2d (tm_mday u) \<and> fmt_2d (tm_hour t) = fmt_2d (tm_hour u) \<and>
      fmt_2d (tm_min t) = fmt_2d (tm_min u) \<and> fmt_2d (tm_sec t) = fmt_2d (tm_sec u)"
    using assms unfolding clock_text_def by (simp add: tm_ok_def append_eq_append_conv fmt_2d_length)
  then show ?thesis using assms(1,2) by (auto simp: tm_ok_def fmt_2d_eq)
qed

theorem clock_to_str_exact:
  assumes "localtime ((system_now + (tp - hr_now)) sdiv 1000000000) = Some t" "tm_ok t"
  shows "clock_to_str system_now hr_now localtime tp = Some (clock_text t)"
    "tm_ok u \<Longrightarrow> clock_to_str system_now hr_now localtime tp = Some (clock_text u) \<longleftrightarrow> t = u"
  using clock_text_fits [OF assms(2)] clock_text_inj [OF assms(2)] assms(1)
  by (auto simp: clock_to_str_def Let_def strftime_def)

section \<open>Buffers and shut-down\<close>

definition get_mbuf :: "('p \<Rightarrow> 'm option \<times> 'p) \<Rightarrow> 'p \<Rightarrow> 'm option \<times> 'p" where
  "get_mbuf alloc pool = alloc pool"

datatype eal_call = rte_eal_mp_wait_lcore | rte_eal_cleanup

definition dpdk_clean :: "eal_call list" where
  "dpdk_clean = [rte_eal_mp_wait_lcore, rte_eal_cleanup]"

end
