(* ===== verification/Pkt_Filter.thy ===== *)
theory Pkt_Filter
  imports Util Packet
begin

text \<open>
  Packet filters, \<open>src/src/base/pkt_filter.{hpp,cpp}\<close>: reading hardware and IPv4 addresses from
  text and matching a frame against optional address criteria. A \<open>std::optional\<close> is an option.
  What the code uses of \<open>sscanf\<close> is modelled: the \<open>%u\<close> conversion (white space, an optional
  sign, decimal digits, reduced to 32 bits) and a literal dot.
\<close>

section \<open>Reading addresses\<close>

record PktFilter =
  pf_src_mac :: "rte_ether_addr option"
  pf_dst_mac :: "rte_ether_addr option"
  pf_src_ip_be :: "u32 option"
  pf_dst_ip_be :: "u32 option"

definition mac_eq :: "rte_ether_addr \<Rightarrow> rte_ether_addr \<Rightarrow> bool" where
  "mac_eq a b \<longleftrightarrow> addr_bytes a = addr_bytes b"

definition hex_nibble :: "char \<Rightarrow> int" where
  "hex_nibble c = (let n = int (of_char c :: nat) in
     if 48 \<le> n \<and> n \<le> 57 then n - 48
     else if 97 \<le> n \<and> n \<le> 102 then n - 97 + 10
     else if 65 \<le> n \<and> n \<le> 70 then n - 65 + 10
     else -1)"

definition mac_separator :: "char \<Rightarrow> bool" where
  "mac_separator c \<longleftrightarrow> c = CHR '':'' \<or> c = CHR ''-'' \<or> c = CHR '' ''"

definition isspace :: "char \<Rightarrow> bool" where
  "isspace c \<longleftrightarrow> (of_char c :: nat) \<in> {9, 10, 11, 12, 13, 32}"

lemma dropWhile_Cons2_shorter: "dropWhile P s = a # b # rest \<Longrightarrow> length rest < length s"
  using length_dropWhile_le [of P s] by simp

text \<open>The loop of \<open>parse_mac\<close>: the bytes read so far and the text from position \<open>i\<close> on.\<close>

function mac_bytes :: "u8 list \<Rightarrow> string \<Rightarrow> (u8 list \<times> string) option" where
  "mac_bytes acc s =
     (if s \<noteq> [] \<and> length acc < 6 then
        (case dropWhile mac_separator s of
           hi # lo # rest \<Rightarrow>
             if hex_nibble hi < 0 \<or> hex_nibble lo < 0 then None
             else mac_bytes (acc @ [word_of_int (push_bit 4 (hex_nibble hi) OR hex_nibble lo)]) rest
         | _ \<Rightarrow> None)
      else Some (acc, s))"
  by pat_completeness auto
termination
  by (relation "measure (\<lambda>(acc, s). length s)") (auto dest: dropWhile_Cons2_shorter)

declare mac_bytes.simps [simp del]

definition parse_mac :: "string \<Rightarrow> rte_ether_addr option" where
  "parse_mac s =
     (if s = [] then None
      else case mac_bytes [] s of
          None \<Rightarrow> None
        | Some (addr, rest) \<Rightarrow>
            if length addr \<noteq> 6 then None
            else if dropWhile isspace rest \<noteq> [] then None
            else Some (MAC (addr ! 0) (addr ! 1) (addr ! 2) (addr ! 3) (addr ! 4) (addr ! 5)))"

definition scan_u :: "string \<Rightarrow> (u32 \<times> string) option" where
  "scan_u s =
     (let s1 = dropWhile isspace s;
          signed = (s1 \<noteq> [] \<and> (hd s1 = CHR ''-'' \<or> hd s1 = CHR ''+''));
          s2 = (if signed then tl s1 else s1);
          ds = takeWhile is_digit s2;
          v = word_of_nat (dec_value ds)
      in if ds = [] then None
         else Some (if signed \<and> hd s1 = CHR ''-'' then - v else v, dropWhile is_digit s2))"

definition scan_dot :: "string \<Rightarrow> string option" where
  "scan_dot s = (if s \<noteq> [] \<and> hd s = CHR ''.'' then Some (tl s) else None)"

definition scan_quad :: "string \<Rightarrow> (u32 \<times> u32 \<times> u32 \<times> u32) option" where
  "scan_quad s = do {
     (a, s1) \<leftarrow> scan_u s;
     s2 \<leftarrow> scan_dot s1;
     (b, s3) \<leftarrow> scan_u s2;
     s4 \<leftarrow> scan_dot s3;
     (c, s5) \<leftarrow> scan_u s4;
     s6 \<leftarrow> scan_dot s5;
     (d, s7) \<leftarrow> scan_u s6;
     Some (a, b, c, d)
   }"

definition parse_ipv4_be :: "string \<Rightarrow> u32 option" where
  "parse_ipv4_be s =
     (if s = [] \<or> length s > 15 then None
      else if length s \<ge> 16 then None
      else case scan_quad (takeWhile (\<lambda>c. c \<noteq> CHR 0x00) s) of
          None \<Rightarrow> None
        | Some (a, b, c, d) \<Rightarrow>
            if a > 255 \<or> b > 255 \<or> c > 255 \<or> d > 255 then None
            else Some (rte_cpu_to_be_32 (RTE_IPV4 (ucast a) (ucast b) (ucast c) (ucast d))))"

section \<open>Matching\<close>

definition pkt_filter_match :: "rte_mbuf option \<Rightarrow> PktFilter \<Rightarrow> bool option" where
  "pkt_filter_match mo f = (case mo of None \<Rightarrow> Some False
   | Some m \<Rightarrow>
     let b = mb_buf m; data_len = unat (mb_data_len m)
     in if data_len < ETH_HDR_LEN then Some False
        else do {
          src_ok \<leftarrow> (case pf_src_mac f of None \<Rightarrow> Some True
             | Some mac \<Rightarrow> do { a \<leftarrow> ld_mac b eth_src_addr; Some (mac_eq a mac) });
          if \<not> src_ok then Some False
          else do {
            dst_ok \<leftarrow> (case pf_dst_mac f of None \<Rightarrow> Some True
               | Some mac \<Rightarrow> do { a \<leftarrow> ld_mac b eth_dst_addr; Some (mac_eq a mac) });
            if \<not> dst_ok then Some False
            else if pf_src_ip_be f = None \<and> pf_dst_ip_be f = None then Some True
            else if data_len < ETH_HDR_LEN + IPV4_HDR_LEN then Some False
            else do {
              t \<leftarrow> ld16 b eth_ether_type;
              if rte_be_to_cpu_16 t \<noteq> RTE_ETHER_TYPE_IPV4 then Some False
              else do {
                vi \<leftarrow> ld8 b (ETH_HDR_LEN + ip_version_ihl);
                if drop_bit 4 vi \<noteq> 4 then Some False
                else do {
                  sip_ok \<leftarrow> (case pf_src_ip_be f of None \<Rightarrow> Some True
                     | Some ip \<Rightarrow> do { a \<leftarrow> ld32 b (ETH_HDR_LEN + ip_src_addr); Some (a = ip) });
                  if \<not> sip_ok then Some False
                  else (case pf_dst_ip_be f of None \<Rightarrow> Some True
                     | Some ip \<Rightarrow> do { a \<leftarrow> ld32 b (ETH_HDR_LEN + ip_dst_addr); Some (a = ip) })
                }
              }
            }
          }
        })"

section \<open>A filter matches exactly the frames it describes\<close>

definition wanted :: "'a option \<Rightarrow> 'a option \<Rightarrow> bool" where
  "wanted criterion actual \<longleftrightarrow> criterion = None \<or> criterion = actual"

definition described :: "PktFilter \<Rightarrow> rte_mbuf \<Rightarrow> bool" where
  "described f m \<longleftrightarrow> (let b = mb_buf m; n = unat (mb_data_len m) in
     14 \<le> n \<and> wanted (pf_src_mac f) (ld_mac b 6) \<and> wanted (pf_dst_mac f) (ld_mac b 0) \<and>
     (pf_src_ip_be f = None \<and> pf_dst_ip_be f = None \<or>
      34 \<le> n \<and> be16 b 12 = Some RTE_ETHER_TYPE_IPV4 \<and> (\<exists>vi. ld8 b 14 = Some vi \<and> drop_bit 4 vi = 4) \<and>
      wanted (pf_src_ip_be f) (ld32 b 26) \<and> wanted (pf_dst_ip_be f) (ld32 b 30)))"

lemma pkt_filter_match_described:
  assumes "mbuf_ok m"
  shows "pkt_filter_match (Some m) f = Some (described f m)"
proof (cases "unat (mb_data_len m) < 34")
  case True
  then show ?thesis
    using assms
    by (auto simp: pkt_filter_match_def described_def wanted_def mbuf_ok_def mac_eq_def Let_def ub_free
        split: option.splits)
next
  case False
  then have "34 \<le> length (mb_buf m)"
    using assms by (simp add: mbuf_ok_def)
  then obtain sm dm t vi sip dip where "ld_mac (mb_buf m) 6 = Some sm" "ld_mac (mb_buf m) 0 = Some dm"
    "ld16 (mb_buf m) 12 = Some t" "ld8 (mb_buf m) 14 = Some vi" "ld32 (mb_buf m) 26 = Some sip"
    "ld32 (mb_buf m) 30 = Some dip"
    by (simp add: ub_free)
  with False show ?thesis
    by (auto simp: pkt_filter_match_def described_def wanted_def mac_eq_def Let_def be16_def split: option.splits)
qed

text \<open>
  Matching reads only the frame, and a frame matches exactly when it carries every address the
  filter sets: with only hardware addresses set, any frame with an Ethernet header can match; with
  an IPv4 address set, only a frame with an IPv4 header of version 4.
\<close>

theorem pkt_filter_match_exact:
  assumes "mbuf_ok m"
  shows "pkt_filter_match (Some m) f = Some (described f m)"
  using assms by (rule pkt_filter_match_described)

theorem pkt_filter_match_exact_witness:
  "pkt_filter_match (Some (frame_mbuf 0 (client_frame 0 8)))
     \<lparr>pf_src_mac = Some (MAC 2 0 0 0 0 9), pf_dst_mac = None, pf_src_ip_be = None,
      pf_dst_ip_be = Some 0x6401a8c0\<rparr> = Some True"
  using pkt_filter_match_exact [of "frame_mbuf 0 (client_frame 0 8)"]
  by (simp add: mbuf_ok_def client_frame_def described_def wanted_def frame_mbuf_def be16_def eval_simps)

section \<open>Addresses survive the way to text and back\<close>

lemma hex_nibble_upper: "d < 16 \<Longrightarrow> hex_nibble (hex_upper d) = int d"
  by (auto simp: hex_nibble_def hex_upper_def digit_char_def Let_def)

lemma nibbles_byte: "word_of_int (push_bit 4 (int (unat b div 16)) OR int (unat b mod 16)) = (b :: u8)"
proof -
  have "int (unat b div 16) = drop_bit 4 (uint b)" "int (unat b mod 16) = take_bit 4 (uint b)"
    by (simp_all add: drop_bit_eq_div take_bit_eq_mod zdiv_int zmod_int)
  moreover have "push_bit 4 (drop_bit 4 (uint b)) OR take_bit 4 (uint b) = uint b"
    by (rule bit_eqI) (auto simp: bit_simps)
  ultimately show ?thesis by simp
qed

text \<open>One round of the loop on the text of a byte, after any separators.\<close>

lemma mac_bytes_round:
  assumes "length acc < 6" and "\<forall>c \<in> set seps. mac_separator c"
  shows "mac_bytes acc (seps @ fmt_02X b @ rest) = mac_bytes (acc @ [b]) rest"
proof -
  have lt: "unat b div 16 < 16" "unat b mod 16 < 16"
    using unat_u8_less [of b] by auto
  then have "hex_nibble (hex_upper (unat b div 16)) \<ge> 0"
    by (simp add: hex_nibble_upper)
  then have "\<not> mac_separator (hex_upper (unat b div 16))"
    by (auto simp: mac_separator_def hex_nibble_def)
  with lt assms show ?thesis
    by (subst mac_bytes.simps) (simp add: fmt_02X_def dropWhile_append2 hex_nibble_upper nibbles_byte)
qed

lemmas mac_bytes_first = mac_bytes_round [where seps = "[]", simplified]

lemma mac_bytes_next:
  "length acc < 6 \<Longrightarrow> mac_separator sep \<Longrightarrow> mac_bytes acc (sep # fmt_02X b @ rest) = mac_bytes (acc @ [b]) rest"
  using mac_bytes_round [of acc "[sep]"] by simp

lemma mac_bytes_last:
  "length acc = 5 \<Longrightarrow> mac_separator sep \<Longrightarrow> mac_bytes acc (sep # fmt_02X b) = Some (acc @ [b], [])"
  using mac_bytes_next [of acc sep b "[]"] by (simp add: mac_bytes.simps)

lemma parse_mac_separated:
  assumes "mac_separator sep"
  shows "parse_mac (fmt_02X a @ sep # fmt_02X b @ sep # fmt_02X c @ sep # fmt_02X d @ sep #
    fmt_02X e @ sep # fmt_02X f) = Some (MAC a b c d e f)"
proof -
  have "mac_bytes [] (fmt_02X a @ sep # fmt_02X b @ sep # fmt_02X c @ sep # fmt_02X d @ sep #
    fmt_02X e @ sep # fmt_02X f) = Some ([a, b, c, d, e, f], [])"
    using assms by (simp add: mac_bytes_first mac_bytes_next mac_bytes_last)
  then show ?thesis
    by (simp add: parse_mac_def fmt_02X_def)
qed

lemma parse_mac_dump: "parse_mac (mac_dump a) = Some a"
  by (cases a) (simp add: parse_mac_separated mac_separator_def)

lemma isspace_digit: "is_digit c \<Longrightarrow> \<not> isspace c" "is_digit c \<Longrightarrow> c \<noteq> CHR ''-'' \<and> c \<noteq> CHR ''+'' \<and> c \<noteq> CHR 0x00"
  by (auto simp: is_digit_def isspace_def)

lemma scan_u_dec:
  assumes "rest = [] \<or> \<not> is_digit (hd rest)"
  shows "scan_u (dec_string n @ rest) = Some (word_of_nat n, rest)"
proof -
  obtain c cs where cs: "dec_string n = c # cs" "is_digit c"
    using dec_string_digits [of n] by (cases "dec_string n") auto
  have "takeWhile is_digit (dec_string n @ rest) = dec_string n" "dropWhile is_digit (dec_string n @ rest) = rest"
    using dec_string_digits [of n] assms by (cases rest; simp add: takeWhile_append2 dropWhile_append2)+
  with cs show ?thesis
    using isspace_digit [OF cs(2)] dec_value_string [of n] by (simp add: scan_u_def)
qed

lemma length_dec_string_byte: "n < 256 \<Longrightarrow> length (dec_string n) \<le> 3"
  by (simp add: dec_string.simps)

lemma dot_no_digit: "\<not> is_digit CHR ''.''"
  by (simp add: is_digit_def)

lemma scan_quad_dec:
  "scan_quad (dec_string a @ ''.'' @ dec_string b @ ''.'' @ dec_string c @ ''.'' @ dec_string d) =
     Some (word_of_nat a, word_of_nat b, word_of_nat c, word_of_nat d)"
  using scan_u_dec [of "[]" d] by (simp add: scan_quad_def scan_u_dec dot_no_digit scan_dot_def)

lemma ucast_of_nat_u32: "(ucast (word_of_nat n :: u32) :: u8) = word_of_nat n"
  by (rule bit_word_eqI) (simp add: bit_simps)

lemma parse_ipv4_dec:
  assumes "a < 256" "b < 256" "c < 256" "d < 256"
  shows "parse_ipv4_be (dec_string a @ ''.'' @ dec_string b @ ''.'' @ dec_string c @ ''.'' @ dec_string d) =
     Some (le32 (word_of_nat a) (word_of_nat b) (word_of_nat c) (word_of_nat d))"
proof -
  let ?s = "dec_string a @ ''.'' @ dec_string b @ ''.'' @ dec_string c @ ''.'' @ dec_string d"
  have "length ?s \<le> 15"
    using length_dec_string_byte [OF assms(1)] length_dec_string_byte [OF assms(2)]
      length_dec_string_byte [OF assms(3)] length_dec_string_byte [OF assms(4)] by simp
  moreover have nul: "takeWhile (\<lambda>c. c \<noteq> CHR 0x00) ?s = ?s"
    using isspace_digit(2) dec_string_digits by (subst takeWhile_eq_all_conv) fastforce
  moreover have "\<not> (word_of_nat n :: u32) > 255" if "n < 256" for n
    using that by (simp add: word_less_nat_alt unat_of_nat)
  ultimately show ?thesis
    using assms unfolding parse_ipv4_be_def nul scan_quad_dec by (simp add: ucast_of_nat_u32)
qed
end
