(* ===== verification/Pkt_Dump.thy ===== *)
theory Pkt_Dump
  imports Pkt_Filter
begin

text \<open>
  The human-readable dump of a UDP frame, \<open>src/src/base/pkt_dump.{hpp,cpp}\<close>. The output stream is
  the string written so far; loads from the frame are checked, so a dump that is defined read
  nothing outside the buffer. The number of segments is a field of the buffer that nothing else
  uses: it is an argument. \<open>isprint\<close> is that of the C locale.
\<close>

definition endl :: string where
  "endl = [CHR 0x0A]"

definition append_mac :: "string \<Rightarrow> rte_ether_addr \<Rightarrow> string" where
  "append_mac os addr = os @ mac_dump addr"

definition append_ipv4 :: "string \<Rightarrow> u32 \<Rightarrow> string" where
  "append_ipv4 os be_addr =
     (let host = rte_be_to_cpu_32 be_addr
      in os @ dec_string (unat (drop_bit 24 host AND 0xff)) @ ''.'' @ dec_string (unat (drop_bit 16 host AND 0xff)) @
         ''.'' @ dec_string (unat (drop_bit 8 host AND 0xff)) @ ''.'' @ dec_string (unat (host AND 0xff)))"

definition isprint :: "u8 \<Rightarrow> bool" where
  "isprint c \<longleftrightarrow> 32 \<le> unat c \<and> unat c \<le> 126"

definition append_ascii_preview :: "string \<Rightarrow> bytes \<Rightarrow> string" where
  "append_ascii_preview os data =
     os @ [CHR 0x22] @ map (\<lambda>c. if isprint c then char_of (unat c) else CHR ''.'') data @ [CHR 0x22]"

definition append_hex_preview :: "string \<Rightarrow> bytes \<Rightarrow> string" where
  "append_hex_preview os data =
     os @ concat (map (\<lambda>(i, c).
       (if i = 0 then [] else if i mod 16 = 0 then endl @ ''             '' else '' '') @ fmt_02x c)
       (zip [0..<length data] data))"

text \<open>The bytes from a pointer on, read one by one.\<close>

text \<open>The end of the dump, from the length checks of the UDP header on.\<close>

definition dump_payload :: "string \<Rightarrow> bytes \<Rightarrow> nat \<Rightarrow> nat \<Rightarrow> nat \<Rightarrow> nat \<Rightarrow> string option" where
  "dump_payload os b data_len udp udp_len max_payload =
     (if udp_len < UDP_HDR_LEN then Some (os @ ''  error: UDP length < header'' @ endl)
      else if data_len < udp + udp_len then Some (os @ ''  error: truncated UDP payload'' @ endl)
      else do {
        let payload_len = udp_len - UDP_HDR_LEN;
        let os = os @ ''  data  payload_len='' @ dec_string payload_len @ endl;
        if payload_len = 0 \<or> max_payload = 0 then Some os
        else do {
          let shown = (if payload_len < max_payload then payload_len else max_payload);
          data \<leftarrow> ld_bytes b (udp + UDP_HDR_LEN) shown;
          let os = append_ascii_preview (os @ ''  ascii '') data;
          let os = (if shown < payload_len then os @ ''  (+'' @ dec_string (payload_len - shown) @ '' bytes)'' else os);
          let os = append_hex_preview (os @ endl @ ''  hex   '') data;
          let os = (if shown < payload_len then os @ '' ...'' else os);
          Some (os @ endl)
        }
      })"

definition dump_udp_mbuf :: "u16 \<Rightarrow> rte_mbuf option \<Rightarrow> nat \<Rightarrow> string option" where
  "dump_udp_mbuf nb_segs mo max_payload = (case mo of None \<Rightarrow> Some ''UDP dump: <null mbuf>''
   | Some m \<Rightarrow>
     let b = mb_buf m;
         data_len = unat (mb_data_len m);
         os = ''=== UDP packet ==='' @ endl @ ''  mbuf  data_len='' @ dec_string data_len @
              '' pkt_len='' @ dec_string (unat (mb_pkt_len m)) @ '' nb_segs='' @ dec_string (unat nb_segs) @ endl
     in if data_len < ETH_HDR_LEN + IPV4_HDR_LEN + UDP_HDR_LEN
        then Some (os @ ''  error: too short for Eth/IPv4/UDP headers'' @ endl)
        else do {
          t \<leftarrow> ld16 b eth_ether_type;
          let ethertype = rte_be_to_cpu_16 t;
          src \<leftarrow> ld_mac b eth_src_addr;
          dst \<leftarrow> ld_mac b eth_dst_addr;
          let os = append_mac (append_mac (os @ ''  L2    src='') src @ ''  dst='') dst @ ''  ethertype='';
          if ethertype \<noteq> RTE_ETHER_TYPE_IPV4
          then Some (os @ ''0x'' @ fmt_04x ethertype @ endl @ ''  error: not IPv4'' @ endl)
          else do {
            let os = os @ ''IPv4(0x0800)'' @ endl;
            vi \<leftarrow> ld8 b (ETH_HDR_LEN + ip_version_ihl);
            let ihl = unat (vi AND 0x0f) * 4;
            if drop_bit 4 vi \<noteq> 4 \<or> ihl < IPV4_HDR_LEN then Some (os @ ''  error: bad IPv4 header'' @ endl)
            else if data_len < ETH_HDR_LEN + ihl + UDP_HDR_LEN
            then Some (os @ ''  error: truncated before UDP header'' @ endl)
            else do {
              sip \<leftarrow> ld32 b (ETH_HDR_LEN + ip_src_addr);
              dip \<leftarrow> ld32 b (ETH_HDR_LEN + ip_dst_addr);
              ttl \<leftarrow> ld8 b (ETH_HDR_LEN + ip_time_to_live);
              tot \<leftarrow> ld16 b (ETH_HDR_LEN + ip_total_length);
              pid \<leftarrow> ld16 b (ETH_HDR_LEN + ip_packet_id);
              ipck \<leftarrow> ld16 b (ETH_HDR_LEN + ip_hdr_checksum);
              proto \<leftarrow> ld8 b (ETH_HDR_LEN + ip_next_proto_id);
              let os = append_ipv4 (append_ipv4 (os @ ''  L3    src='') sip @ ''  dst='') dip @
                ''  ttl='' @ dec_string (unat ttl) @ ''  ihl='' @ dec_string ihl @
                ''  total_len='' @ dec_string (unat (rte_be_to_cpu_16 tot)) @
                ''  id='' @ dec_string (unat (rte_be_to_cpu_16 pid)) @
                ''  cksum='' @ ''0x'' @ fmt_04x (rte_be_to_cpu_16 ipck) @ ''  proto='' @ dec_string (unat proto);
              if proto \<noteq> IPPROTO_UDP
              then Some (os @ endl @ ''  error: not UDP (proto='' @ dec_string (unat proto) @ '')'' @ endl)
              else do {
                let os = os @ endl;
                let udp = ETH_HDR_LEN + ihl;
                dl \<leftarrow> ld16 b (udp + udp_dgram_len);
                sp \<leftarrow> ld16 b (udp + udp_src_port);
                dp \<leftarrow> ld16 b (udp + udp_dst_port);
                uck \<leftarrow> ld16 b (udp + udp_dgram_cksum);
                let udp_len = unat (rte_be_to_cpu_16 dl);
                let os = os @ ''  L4    UDP  sport='' @ dec_string (unat (rte_be_to_cpu_16 sp)) @
                  ''  dport='' @ dec_string (unat (rte_be_to_cpu_16 dp)) @ ''  udp_len='' @ dec_string udp_len @
                  ''  cksum='' @ ''0x'' @ fmt_04x (rte_be_to_cpu_16 uck) @ endl;
                dump_payload os b data_len udp udp_len max_payload
              }
            }
          }
        })"

section \<open>Text of addresses\<close>

lemma and_ff_byte: "(drop_bit (8 * k) x AND 0xff :: u32) = ucast (byte32 k x)"
proof -
  have ff: "(0xff :: u32) = mask 8"
    by (simp add: mask_eq_exp_minus_1)
  show ?thesis
    unfolding ff byte32_def by (rule bit_word_eqI) (auto simp: bit_simps)
qed

lemma byte32_bswap32: "byte32 3 (bswap32 w) = byte32 0 w" "byte32 2 (bswap32 w) = byte32 1 w"
  "byte32 (Suc 0) (bswap32 w) = byte32 2 w" "byte32 0 (bswap32 w) = byte32 3 w"
  by (simp_all add: bswap32_def)

lemma append_ipv4_octets:
  "append_ipv4 os w = os @ dec_string (unat (byte32 0 w)) @ ''.'' @ dec_string (unat (byte32 1 w)) @ ''.'' @
     dec_string (unat (byte32 2 w)) @ ''.'' @ dec_string (unat (byte32 3 w))"
  using and_ff_byte [of 3 "bswap32 w"] and_ff_byte [of 2 "bswap32 w"] and_ff_byte [of 1 "bswap32 w"]
    and_ff_byte [of 0 "bswap32 w"]
  by (simp add: append_ipv4_def byte32_bswap32)

lemma parse_ipv4_text: "parse_ipv4_be (append_ipv4 [] ip_be) = Some ip_be"
  unfolding append_ipv4_octets append_Nil by (subst parse_ipv4_dec) (simp_all add: unat_u8_less)

text \<open>
  Addresses survive the way to text and back: the text \<open>mac_dump\<close> prints for a hardware
  address and the dotted text the dump prints for an IPv4 address in network order are read back
  as the same address.
\<close>

theorem address_text_round_trip:
  "parse_mac (mac_dump mac) = Some mac \<and> parse_ipv4_be (append_ipv4 [] ip_be) = Some ip_be"
  by (simp add: parse_mac_dump parse_ipv4_text)

section \<open>The dump reads only the frame\<close>

definition payload_text :: "bytes \<Rightarrow> nat \<Rightarrow> string" where
  "payload_text payload max_payload =
     (let n = length payload; shown = take max_payload payload
      in ''  data  payload_len='' @ dec_string n @ endl @
         (if shown = [] then []
          else ''  ascii '' @ append_ascii_preview [] shown @
            (if max_payload < n then ''  (+'' @ dec_string (n - max_payload) @ '' bytes)'' else []) @ endl @
            ''  hex   '' @ append_hex_preview [] shown @ (if max_payload < n then '' ...'' else []) @ endl))"

lemma append_previews:
  "append_ascii_preview os data = os @ append_ascii_preview [] data"
  "append_hex_preview os data = os @ append_hex_preview [] data"
  by (simp_all add: append_ascii_preview_def append_hex_preview_def)

lemma dump_payload_text:
  assumes "data_len \<le> length b" and "8 \<le> n"
  shows "dump_payload os b data_len udp n mp = Some (os @
    (if udp + n \<le> data_len then payload_text (take (n - 8) (drop (udp + 8) b)) mp
     else ''  error: truncated UDP payload'' @ endl))"
proof (cases "udp + n \<le> data_len")
  case True
  then have len: "length (take (n - 8) (drop (udp + 8) b)) = n - 8"
    using assms by simp
  have shown: "take mp (take (n - 8) (drop (udp + 8) b)) = take (min mp (n - 8)) (drop (udp + 8) b)"
    by (simp add: min.commute)
  have ld: "ld_bytes b (udp + 8) k = Some (take k (drop (udp + 8) b))" if "k \<le> n - 8" for k
    using that True assms by (simp add: ub_free)
  show ?thesis
    unfolding dump_payload_def payload_text_def len shown Let_def
    using True assms
    by (auto simp: ld append_previews [of "_ @ _"] min_def not_le not_less)
next
  case False
  with assms show ?thesis by (simp add: dump_payload_def)
qed

text \<open>What the dump does once the headers are known to be inside the data.\<close>

lemma dump_of_frame:
  assumes wf: "mbuf_ok m" and fr: "udp_frame m udp len"
  shows "\<exists>pre. dump_udp_mbuf segs (Some m) mp = Some (pre @
    (if udp + unat len \<le> unat (mb_data_len m)
     then payload_text (take (unat len - 8) (drop (udp + 8) (mb_buf m))) mp
     else ''  error: truncated UDP payload'' @ endl))"
proof -
  let ?b = "mb_buf m"
  obtain vi where vi: "ld8 ?b 14 = Some vi" "drop_bit 4 vi = 4" "udp = 14 + unat (vi AND 0x0f) * 4"
    and u: "34 \<le> udp" "udp + 8 \<le> unat (mb_data_len m)" and pr: "ld8 ?b 23 = Some 17"
    and len: "be16 ?b (udp + 4) = Some len" "8 \<le> unat len" and et: "be16 ?b 12 = Some 0x0800"
    using fr by (auto simp: udp_frame_def Let_def)
  have le: "unat (mb_data_len m) \<le> length ?b"
    using wf by (simp add: mbuf_ok_def)
  obtain sm dm sip dip ttl tot pid ipck sp dp uck where lds:
    "ld_mac ?b 6 = Some sm" "ld_mac ?b 0 = Some dm" "ld32 ?b 26 = Some sip" "ld32 ?b 30 = Some dip"
    "ld8 ?b 22 = Some ttl" "ld16 ?b 16 = Some tot" "ld16 ?b 18 = Some pid" "ld16 ?b 24 = Some ipck"
    "ld16 ?b udp = Some sp" "ld16 ?b (udp + 2) = Some dp" "ld16 ?b (udp + 6) = Some uck"
    using u le by (auto simp: ub_free)
  obtain t dl where "ld16 ?b 12 = Some t" "bswap16 t = 0x0800" "ld16 ?b (udp + 4) = Some dl" "bswap16 dl = len"
    using et len(1) by (auto simp: be16_def)
  note lds = lds lds [simplified] this vi(1,2) pr
  have udp: "14 + unat (vi AND 0x0f) * 4 = udp"
    using vi(3) by simp
  have ihl: "5 \<le> unat (vi AND 0x0f)"
    using u(1) vi(3) by simp
  have "\<exists>os. dump_udp_mbuf segs (Some m) mp = dump_payload os ?b (unat (mb_data_len m)) udp (unat len) mp"
    using u le ihl by (simp add: dump_udp_mbuf_def lds udp Let_def) (rule exI, rule refl)
  then show ?thesis
    using dump_payload_text [OF le len(2)] by metis
qed

lemma dump_defined:
  assumes "mbuf_ok m"
  shows "\<exists>s. dump_udp_mbuf segs (Some m) mp = Some s"
proof (cases "unat (mb_data_len m) < 42")
  case True
  then show ?thesis by (simp add: dump_udp_mbuf_def Let_def)
next
  case False
  let ?b = "mb_buf m" and ?n = "unat (mb_data_len m)"
  have le: "?n \<le> length ?b" and b42: "42 \<le> length ?b"
    using assms False by (simp_all add: mbuf_ok_def)
  obtain sm dm sip dip ttl tot pid ipck t vi pr where lds:
    "ld_mac ?b 6 = Some sm" "ld_mac ?b 0 = Some dm" "ld32 ?b 26 = Some sip" "ld32 ?b 30 = Some dip"
    "ld8 ?b 22 = Some ttl" "ld16 ?b 16 = Some tot" "ld16 ?b 18 = Some pid" "ld16 ?b 24 = Some ipck"
    "ld16 ?b 12 = Some t" "ld8 ?b 14 = Some vi" "ld8 ?b 23 = Some pr"
    using b42 by (auto simp: ub_free)
  have pay: "\<exists>s. dump_payload os ?b ?n udp n mp = Some s" for os udp n
    using dump_payload_text [OF le, of n os udp mp] by (cases "8 \<le> n") (simp_all add: dump_payload_def)
  show ?thesis
  proof (cases "?n < 14 + unat (vi AND 15) * 4 + 8")
    case True
    with False show ?thesis by (simp add: dump_udp_mbuf_def lds Let_def)
  next
    case fits: False
    then obtain dl sp dp uck where "ld16 ?b (14 + unat (vi AND 15) * 4 + 4) = Some dl"
      "ld16 ?b (14 + unat (vi AND 15) * 4) = Some sp" "ld16 ?b (14 + unat (vi AND 15) * 4 + 2) = Some dp"
      "ld16 ?b (14 + unat (vi AND 15) * 4 + 6) = Some uck"
      using le by (auto simp: ub_free)
    with False fits pay show ?thesis by (simp add: dump_udp_mbuf_def lds Let_def)
  qed
qed

text \<open>
  C34: dumping any well-formed buffer is defined: it reads nothing outside the frame. For a frame
  the parser accepts, the dump ends in the text of exactly the payload the UDP length announces,
  cut to the requested size, when the payload lies inside the received data; when it does not,
  which the parser's 16-bit check lets pass, the dump reports a truncated payload.
\<close>

theorem dump_reads_only_the_frame:
  assumes "mbuf_ok m"
  shows "(\<exists>s. dump_udp_mbuf segs (Some m) mp = Some s) \<and>
    (udp_frame m udp len \<longrightarrow> (\<exists>pre. dump_udp_mbuf segs (Some m) mp = Some (pre @
      (if udp + unat len \<le> unat (mb_data_len m)
       then payload_text (take (unat len - 8) (drop (udp + 8) (mb_buf m))) mp
       else ''  error: truncated UDP payload'' @ endl))))"
  using dump_defined [OF assms] dump_of_frame [OF assms] by blast

theorem dump_reads_only_the_frame_witness:
  "\<exists>pre. dump_udp_mbuf 1 (Some (frame_mbuf 0 (client_frame 0xff 0xff))) 64 =
     Some (pre @ ''  error: truncated UDP payload'' @ endl)"
proof -
  let ?m = "frame_mbuf 0 (client_frame 0xff 0xff)"
  have "mbuf_ok ?m" "udp_frame ?m 34 0xffff"
    by (simp_all add: mbuf_ok_def frame_mbuf_def client_frame_def udp_frame_def be16_def eval_simps)
  then show ?thesis
    using dump_reads_only_the_frame [of ?m 1 64 34 "0xffff"]
    by (simp add: frame_mbuf_def client_frame_def)
qed

end
