(* ===== verification/Io_Trace.thy ===== *)
theory Io_Trace
  imports Pkt_Dump Gateway
begin

text \<open>
  Texts and filters for the logs: the packet filters that \<open>src/src/forward.cpp\<close> sets up when it is
  compiled with \<open>VGW_IO_TRACE\<close>, the address text \<open>ip_str\<close> that several files define alike, and the
  names of the datapath modes of \<open>src/src/vgw.cpp\<close>. What the log library does with a message is not
  modelled.
\<close>

section \<open>Texts\<close>

text \<open>\<open>inet_ntop\<close> prints dotted decimals; the buffer of 16 bytes always holds them.\<close>

definition ip_str :: "u32 \<Rightarrow> nat \<Rightarrow> string" where
  "ip_str ip_be n =
     (let s = append_ipv4 [] ip_be in if length s < n then s else if n \<ge> 2 then ''?'' else [])"

definition datapath_mode_name :: "DatapathMode \<Rightarrow> string" where
  "datapath_mode_name mode = (case mode of Pipeline \<Rightarrow> ''pipeline'' | Rtc \<Rightarrow> ''rtc'')"

section \<open>Filters\<close>

definition kVipFilter :: PktFilter where
  "kVipFilter = \<lparr>pf_src_mac = None, pf_dst_mac = parse_mac ''02:00:00:00:00:01'', pf_src_ip_be = None,
     pf_dst_ip_be = parse_ipv4_be ''192.168.1.100''\<rparr>"

definition kGwDstFilter :: PktFilter where
  "kGwDstFilter = \<lparr>pf_src_mac = None, pf_dst_mac = None, pf_src_ip_be = None,
     pf_dst_ip_be = parse_ipv4_be ''192.168.1.10''\<rparr>"

definition trace_pkt :: "rte_mbuf option \<Rightarrow> bool option" where
  "trace_pkt m = do {
     vip \<leftarrow> pkt_filter_match m kVipFilter;
     if vip then Some True else pkt_filter_match m kGwDstFilter
   }"

section \<open>What they select\<close>

lemma ip_str_text: "ip_str ip 16 = append_ipv4 [] ip"
  using parse_ipv4_text [of ip] by (auto simp: ip_str_def parse_ipv4_be_def Let_def split: if_splits)

lemma filter_addresses:
  "parse_mac ''02:00:00:00:00:01'' = Some (mac_from GATEWAY_MAC)"
  "parse_ipv4_be ''192.168.1.100'' = Some (ipv4_from VIP_IP_OCTETS)"
  "parse_ipv4_be ''192.168.1.10'' = Some (ipv4_from GATEWAY_IP_OCTETS)"
proof -
  have "mac_dump (MAC 2 0 0 0 0 1) = ''02:00:00:00:00:01''"
    by (simp add: fmt_02X_def hex_upper_def digit_char_def char_of_def bit_0)
  then show "parse_mac ''02:00:00:00:00:01'' = Some (mac_from GATEWAY_MAC)"
    using parse_mac_dump [of "MAC 2 0 0 0 0 1"] by (simp add: mac_from_def GATEWAY_MAC_def)
  have digits: "dec_string 192 = ''192''" "dec_string 168 = ''168''" "dec_string (Suc 0) = ''1''" "dec_string 100 = ''100''" "dec_string 10 = ''10''"
    by (subst dec_string.simps; simp add: dec_string.simps [of "Suc 0"] digit_char_def char_of_def bit_0 dec_string.simps [of 19] dec_string.simps [of 16])+
  have "append_ipv4 [] (ipv4_from VIP_IP_OCTETS) = ''192.168.1.100''"
    "append_ipv4 [] (ipv4_from GATEWAY_IP_OCTETS) = ''192.168.1.10''"
    by (simp_all add: append_ipv4_octets ipv4_from_def VIP_IP_OCTETS_def GATEWAY_IP_OCTETS_def digits)
  then show "parse_ipv4_be ''192.168.1.100'' = Some (ipv4_from VIP_IP_OCTETS)"
    "parse_ipv4_be ''192.168.1.10'' = Some (ipv4_from GATEWAY_IP_OCTETS)"
    using parse_ipv4_text [of "ipv4_from VIP_IP_OCTETS"] parse_ipv4_text [of "ipv4_from GATEWAY_IP_OCTETS"] by simp_all
qed

text \<open>A frame that carries an IPv4 header.\<close>

definition ipv4_framed :: "rte_mbuf \<Rightarrow> bool" where
  "ipv4_framed m \<longleftrightarrow> 34 \<le> unat (mb_data_len m) \<and> be16 (mb_buf m) eth_ether_type = Some RTE_ETHER_TYPE_IPV4 \<and>
     (\<exists>vi. ld8 (mb_buf m) ETH_HDR_LEN = Some vi \<and> drop_bit 4 vi = 4)"

text \<open>
  The trace selects the traffic of the configured service. The addresses written in the filters
  are those of the configuration, and a frame is traced exactly when it is an IPv4 frame to the
  virtual address and the gateway's hardware address, or to the gateway's address; the filters
  read only the frame. An address is always printed in full, and its text reads back as the
  address.
\<close>

theorem trace_selects_service:
  assumes "mbuf_ok m"
  shows "trace_pkt (Some m) = Some (ipv4_framed m \<and>
      (ld32 (mb_buf m) (ETH_HDR_LEN + ip_dst_addr) = Some (ipv4_from VIP_IP_OCTETS) \<and>
         ld_mac (mb_buf m) eth_dst_addr = Some (mac_from GATEWAY_MAC) \<or>
       ld32 (mb_buf m) (ETH_HDR_LEN + ip_dst_addr) = Some (ipv4_from GATEWAY_IP_OCTETS))) \<and>
    parse_ipv4_be (ip_str ip_be 16) = Some ip_be"
proof -
  have "trace_pkt (Some m) = Some (described kVipFilter m \<or> described kGwDstFilter m)"
    by (simp add: trace_pkt_def pkt_filter_match_described [OF assms])
  then show ?thesis
    by (auto simp: described_def kVipFilter_def kGwDstFilter_def filter_addresses wanted_def ipv4_framed_def
        ip_str_text parse_ipv4_text Let_def)
qed

theorem trace_selects_service_witness:
  "trace_pkt (Some ex_request) = Some True \<and> mbuf_ok ex_request"
proof -
  have "ipv4_framed ex_request"
    by (simp add: ipv4_framed_def ex_request_def client_frame_def frame_mbuf_def be16_def eval_simps)
  moreover have "ld32 (mb_buf ex_request) (ETH_HDR_LEN + ip_dst_addr) = Some (ipv4_from VIP_IP_OCTETS)"
    "ld_mac (mb_buf ex_request) eth_dst_addr = Some (mac_from GATEWAY_MAC)"
    by (simp_all add: ex_request_def client_frame_def frame_mbuf_def ipv4_from_def VIP_IP_OCTETS_def mac_from_def
        GATEWAY_MAC_def ld32_def ld_mac_def)
  ultimately show ?thesis
    using trace_selects_service [OF ex_request_ok] ex_request_ok by simp
qed

end
