(* ===== verification/Observe.thy ===== *)
theory Observe
  imports Pkt_Filter
begin

text \<open>
  The observation tools of \<open>src/tools/ebpf\<close>: the probes that count the packets of a running gateway
  (\<open>pipeline_io.bpf.c\<close>, \<open>rtc_io.bpf.c\<close>, \<open>counts.h\<close>), the loop that reports them
  (\<open>observe_loop.c\<close>) and the two programs around it (\<open>pipeline_io.c\<close>, \<open>rtc_io.c\<close>). The counters are
  an array for each CPU, as the map type of the kernel has them. The kernel, libbpf, the clock and
  the signal flag are parameters: the results of the calls are given, the calls that matter for
  resources are recorded. A printed line is a value with the numbers it shows.
\<close>

section \<open>The probes\<close>

definition IDX_RX :: u32 where "IDX_RX = 0"
definition IDX_TX :: u32 where "IDX_TX = 1"
definition IDX_RX_CALLS :: u32 where "IDX_RX_CALLS = 2"
definition IDX_TX_CALLS :: u32 where "IDX_TX_CALLS = 3"
definition IDX_MAX :: nat where "IDX_MAX = 4"

lemmas idx_defs = IDX_RX_def IDX_TX_def IDX_RX_CALLS_def IDX_TX_CALLS_def IDX_MAX_def

type_synonym counts = "u64 list list"

definition no_counts :: "nat \<Rightarrow> counts" where
  "no_counts ncpus = replicate ncpus (replicate IDX_MAX 0)"

text \<open>A lookup in a per-CPU array finds the slot of the CPU the probe runs on, if the index exists.\<close>

definition add_count :: "nat \<Rightarrow> u32 \<Rightarrow> u64 \<Rightarrow> counts \<Rightarrow> counts" where
  "add_count cpu idx delta c =
     (if unat idx < IDX_MAX then c[cpu := (c ! cpu)[unat idx := c ! cpu ! unat idx + delta]] else c)"

text \<open>The argument \<open>ret\<close> is the 64-bit register of the return value, read as a signed number.\<close>

definition trace_rx_ret :: "nat \<Rightarrow> 64 word \<Rightarrow> counts \<Rightarrow> counts" where
  "trace_rx_ret cpu ret c =
     (if sint ret > 0 then add_count cpu IDX_RX_CALLS 1 (add_count cpu IDX_RX ret c) else c)"

definition trace_tx_ret :: "nat \<Rightarrow> 64 word \<Rightarrow> counts \<Rightarrow> counts" where
  "trace_tx_ret cpu ret c =
     (if sint ret > 0 then add_count cpu IDX_TX_CALLS 1 (add_count cpu IDX_TX ret c) else c)"

definition trace_recv_ret :: "nat \<Rightarrow> 64 word \<Rightarrow> counts \<Rightarrow> counts" where
  "trace_recv_ret cpu ret c =
     (if sint ret > 0 then add_count cpu IDX_RX_CALLS 1 (add_count cpu IDX_RX ret c) else c)"

definition trace_send_ret :: "nat \<Rightarrow> 64 word \<Rightarrow> counts \<Rightarrow> counts" where
  "trace_send_ret cpu ret c =
     (if sint ret > 0 then add_count cpu IDX_TX_CALLS 1 (add_count cpu IDX_TX ret c) else c)"

section \<open>Reading the counters\<close>

record bpf_os =
  bo_ncpus :: int
  bo_calloc :: bool
  bo_lookup :: "u32 \<Rightarrow> u64 list option"

primrec add_up :: "u64 list \<Rightarrow> nat \<Rightarrow> u64 \<Rightarrow> u64" where
  "add_up values 0 s = s"
| "add_up values (Suc n) s = add_up values n s + values ! n"

definition sum_percpu :: "bpf_os \<Rightarrow> u32 \<Rightarrow> u64 option" where
  "sum_percpu os key =
     (if bo_ncpus os \<le> 0 then None
      else if \<not> bo_calloc os then None
      else case bo_lookup os key of
          None \<Rightarrow> None
        | Some values \<Rightarrow> Some (add_up values (nat (bo_ncpus os)) 0))"

section \<open>The reporting loop\<close>

datatype obs_line =
    Attached string
  | Stats string u64 u64 u64 u64
  | LookupFailed string
  | FinalFailed string
  | Summary string int u64 u64 u64 u64 u64 u64

text \<open>
  \<open>stop i\<close> is what test \<open>i\<close> of the signal flag reads, \<open>snap i\<close> what the calls of turn \<open>i\<close> get from
  the system, \<open>clock i\<close> the seconds between the start and the end if the loop ends at test \<open>i\<close>.
  \<open>None\<close> is a loop that never ends.
\<close>

definition obs_final :: "string \<Rightarrow> bpf_os \<Rightarrow> int \<Rightarrow> int \<times> obs_line" where
  "obs_final tag os elapsed0 =
     (let elapsed = (if elapsed0 \<le> 0 then 1 else elapsed0)
      in case (sum_percpu os IDX_RX, sum_percpu os IDX_TX, sum_percpu os IDX_RX_CALLS, sum_percpu os IDX_TX_CALLS) of
           (Some rx, Some tx, Some rx_calls, Some tx_calls) \<Rightarrow>
             (0, Summary tag elapsed rx tx (rx div word_of_int elapsed) (tx div word_of_int elapsed) rx_calls tx_calls)
         | _ \<Rightarrow> (1, FinalFailed tag))"

partial_function (option) obs_turns ::
    "string \<Rightarrow> (nat \<Rightarrow> bool) \<Rightarrow> (nat \<Rightarrow> bpf_os) \<Rightarrow> (nat \<Rightarrow> int) \<Rightarrow> nat \<Rightarrow> u64 \<Rightarrow> u64 \<Rightarrow> (int \<times> obs_line list) option" where
  "obs_turns tag stop snap clock i prev_rx prev_tx =
     (if stop i then (case obs_final tag (snap i) (clock i) of (rc, line) \<Rightarrow> Some (rc, [line]))
      else case (sum_percpu (snap i) IDX_RX, sum_percpu (snap i) IDX_TX) of
          (Some rx, Some tx) \<Rightarrow>
            do {
              (rc, lines) \<leftarrow> obs_turns tag stop snap clock (Suc i) rx tx;
              Some (rc, Stats tag rx tx (rx - prev_rx) (tx - prev_tx) # lines)
            }
        | _ \<Rightarrow> Some (1, [LookupFailed tag]))"

definition observe_loop ::
    "string \<Rightarrow> (nat \<Rightarrow> bool) \<Rightarrow> (nat \<Rightarrow> bpf_os) \<Rightarrow> (nat \<Rightarrow> int) \<Rightarrow> (int \<times> obs_line list) option" where
  "observe_loop tag stop snap clock =
     do {
       (rc, lines) \<leftarrow> obs_turns tag stop snap clock 0 0 0;
       Some (rc, Attached tag # lines)
     }"

section \<open>What the counters hold\<close>

lemma add_up_eq: "n \<le> length values \<Longrightarrow> add_up values n s = s + sum_list (take n values)"
  by (induction n) (simp_all add: take_Suc_conv_app_nth)

text \<open>The sum over all CPUs of one counter.\<close>

definition cpu_total :: "counts \<Rightarrow> u32 \<Rightarrow> u64" where
  "cpu_total c idx = (\<Sum>row \<leftarrow> c. row ! unat idx)"

definition counts_ok :: "nat \<Rightarrow> counts \<Rightarrow> bool" where
  "counts_ok ncpus c \<longleftrightarrow> length c = ncpus \<and> (\<forall>row \<in> set c. length row = IDX_MAX)"

lemma sum_list_change:
  fixes f :: "'a \<Rightarrow> 'b :: ab_group_add"
  shows "i < length xs \<Longrightarrow> sum_list (map f (xs[i := y])) = sum_list (map f xs) + (f y - f (xs ! i))"
proof (induction xs arbitrary: i)
  case (Cons x xs)
  then show ?case by (cases i) (simp_all add: algebra_simps)
qed simp

lemma add_count_ok: "counts_ok n c \<Longrightarrow> counts_ok n (add_count cpu idx d c)"
proof (cases "cpu < length c")
  case True
  assume "counts_ok n c"
  with True show ?thesis
    by (auto simp: counts_ok_def add_count_def dest!: set_update_subset_insert [THEN subsetD])
qed (simp add: counts_ok_def add_count_def list_update_beyond)

lemma total_add_count:
  assumes "counts_ok n c" "cpu < n" "unat idx < IDX_MAX" "unat key < IDX_MAX"
  shows "cpu_total (add_count cpu idx d c) key = cpu_total c key + (if key = idx then d else 0)"
proof -
  have "length (c ! cpu) = IDX_MAX" "cpu < length c" using assms(1,2) by (auto simp: counts_ok_def)
  then show ?thesis
    using assms(3,4) by (auto simp: cpu_total_def add_count_def sum_list_change nth_list_update word_unat_eq_iff)
qed

lemma no_counts_ok: "counts_ok n (no_counts n)" "unat key < IDX_MAX \<Longrightarrow> cpu_total (no_counts n) key = 0"
  by (simp_all add: counts_ok_def no_counts_def cpu_total_def sum_list_replicate map_replicate_const)

text \<open>A history of the probed calls: where each ran, whether it received, and its result.\<close>

datatype probe = RxRet | TxRet

type_synonym probe_event = "nat \<times> probe \<times> 64 word"

fun probed :: "probe_event \<Rightarrow> counts \<Rightarrow> counts" where
  "probed (cpu, RxRet, ret) c = trace_rx_ret cpu ret c"
| "probed (cpu, TxRet, ret) c = trace_tx_ret cpu ret c"

text \<open>The programs for the two modes count alike.\<close>

lemma modes_count_alike: "trace_recv_ret = trace_rx_ret" "trace_send_ret = trace_tx_ret"
  by (simp_all add: fun_eq_iff trace_recv_ret_def trace_rx_ret_def trace_send_ret_def trace_tx_ret_def)

definition returned_packets :: "probe \<Rightarrow> probe_event list \<Rightarrow> int" where
  "returned_packets p evs = (\<Sum>(cpu, q, ret) \<leftarrow> evs. if q = p \<and> sint ret > 0 then sint ret else 0)"

definition busy_calls :: "probe \<Rightarrow> probe_event list \<Rightarrow> nat" where
  "busy_calls p evs = length (filter (\<lambda>(cpu, q, ret). q = p \<and> sint ret > 0) evs)"

lemma idx_bounds [simp]:
  "unat IDX_RX < IDX_MAX" "unat IDX_TX < IDX_MAX" "unat IDX_RX_CALLS < IDX_MAX" "unat IDX_TX_CALLS < IDX_MAX"
  "IDX_RX \<noteq> IDX_TX" "IDX_RX \<noteq> IDX_RX_CALLS" "IDX_RX \<noteq> IDX_TX_CALLS" "IDX_TX \<noteq> IDX_RX_CALLS" "IDX_TX \<noteq> IDX_TX_CALLS"
  "IDX_RX_CALLS \<noteq> IDX_TX_CALLS"
  by (simp_all add: idx_defs)

lemma idx_distinct [simp]:
  "IDX_TX \<noteq> IDX_RX" "IDX_RX_CALLS \<noteq> IDX_RX" "IDX_TX_CALLS \<noteq> IDX_RX" "IDX_RX_CALLS \<noteq> IDX_TX" "IDX_TX_CALLS \<noteq> IDX_TX"
  "IDX_TX_CALLS \<noteq> IDX_RX_CALLS"
  using idx_bounds by metis+

lemma probed_total:
  assumes "counts_ok n c" "cpu < n"
  shows "counts_ok n (probed (cpu, q, ret) c)"
    "cpu_total (probed (cpu, q, ret) c) IDX_RX = cpu_total c IDX_RX + word_of_int (if q = RxRet \<and> sint ret > 0 then sint ret else 0)"
    "cpu_total (probed (cpu, q, ret) c) IDX_TX = cpu_total c IDX_TX + word_of_int (if q = TxRet \<and> sint ret > 0 then sint ret else 0)"
    "cpu_total (probed (cpu, q, ret) c) IDX_RX_CALLS = cpu_total c IDX_RX_CALLS + (if q = RxRet \<and> sint ret > 0 then 1 else 0)"
    "cpu_total (probed (cpu, q, ret) c) IDX_TX_CALLS = cpu_total c IDX_TX_CALLS + (if q = TxRet \<and> sint ret > 0 then 1 else 0)"
  using assms
  by (cases q; simp add: trace_rx_ret_def trace_tx_ret_def add_count_ok total_add_count [of n])+

lemma probes_total:
  assumes "\<forall>(cpu, q, ret) \<in> set evs. cpu < n" "counts_ok n c"
  shows "counts_ok n (fold probed evs c) \<and>
    cpu_total (fold probed evs c) IDX_RX = cpu_total c IDX_RX + word_of_int (returned_packets RxRet evs) \<and>
    cpu_total (fold probed evs c) IDX_TX = cpu_total c IDX_TX + word_of_int (returned_packets TxRet evs) \<and>
    cpu_total (fold probed evs c) IDX_RX_CALLS = cpu_total c IDX_RX_CALLS + word_of_nat (busy_calls RxRet evs) \<and>
    cpu_total (fold probed evs c) IDX_TX_CALLS = cpu_total c IDX_TX_CALLS + word_of_nat (busy_calls TxRet evs)"
  using assms
proof (induction evs arbitrary: c)
  case (Cons e evs)
  obtain cpu q ret where e: "e = (cpu, q, ret)" by (metis prod_cases3)
  have cpu: "cpu < n" using Cons.prems(1) by (simp add: e)
  note p = probed_total [OF Cons.prems(2) cpu, of q ret]
  show ?case
    using Cons.IH [OF _ p(1)] Cons.prems(1) p(2-)
    by (simp add: e returned_packets_def busy_calls_def algebra_simps)
qed (simp add: returned_packets_def busy_calls_def)

text \<open>What the kernel's lookup gives: the counter of every CPU, in order.\<close>

definition reads_counts :: "bpf_os \<Rightarrow> counts \<Rightarrow> bool" where
  "reads_counts os c \<longleftrightarrow> bo_ncpus os = int (length c) \<and> c \<noteq> [] \<and> bo_calloc os \<and>
     (\<forall>idx. unat idx < IDX_MAX \<longrightarrow> bo_lookup os idx = Some (map (\<lambda>row. row ! unat idx) c))"

lemma sum_percpu_total: "reads_counts os c \<Longrightarrow> unat idx < IDX_MAX \<Longrightarrow> sum_percpu os idx = Some (cpu_total c idx)"
  by (auto simp: sum_percpu_def reads_counts_def cpu_total_def add_up_eq)

section \<open>What the loop reports\<close>

definition per_turn :: "(nat \<Rightarrow> u64) \<Rightarrow> nat \<Rightarrow> u64" where
  "per_turn f i = f i - (if i = 0 then 0 else f (i - 1))"

lemma obs_turns_lines:
  assumes "i \<le> n" "stop n" "\<forall>j < n. \<not> stop j"
    and "\<And>j. i \<le> j \<Longrightarrow> j < n \<Longrightarrow> sum_percpu (snap j) IDX_RX = Some (rx j) \<and> sum_percpu (snap j) IDX_TX = Some (tx j)"
    and "prev_rx = (if i = 0 then 0 else rx (i - 1))" "prev_tx = (if i = 0 then 0 else tx (i - 1))"
  shows "obs_turns tag stop snap clock i prev_rx prev_tx =
    Some (fst (obs_final tag (snap n) (clock n)),
      map (\<lambda>j. Stats tag (rx j) (tx j) (per_turn rx j) (per_turn tx j)) [i..<n] @ [snd (obs_final tag (snap n) (clock n))])"
  using assms
proof (induction "n - i" arbitrary: i prev_rx prev_tx)
  case 0
  then show ?case by (simp add: obs_turns.simps split: prod.split)
next
  case (Suc k)
  then have i: "i < n" "\<not> stop i" "k = n - Suc i" by simp_all
  note here = Suc.prems(4) [of i]
  have rest: "obs_turns tag stop snap clock (Suc i) (rx i) (tx i) =
    Some (fst (obs_final tag (snap n) (clock n)),
      map (\<lambda>j. Stats tag (rx j) (tx j) (per_turn rx j) (per_turn tx j)) [Suc i..<n] @ [snd (obs_final tag (snap n) (clock n))])"
    by (rule Suc.hyps(1) [OF i(3)]) (use Suc.prems i in simp_all)
  have "[i..<n] = i # [Suc i..<n]" using i(1) by (simp add: upt_conv_Cons)
  then show ?case
    using here i rest Suc.prems(5,6) by (subst obs_turns.simps) (simp add: per_turn_def)
qed

lemma obs_turns_ends:
  "obs_turns tag stop snap clock i prev_rx prev_tx = Some r \<Longrightarrow>
     \<exists>n \<ge> i. stop n \<or> sum_percpu (snap n) IDX_RX = None \<or> sum_percpu (snap n) IDX_TX = None"
proof (induction tag stop snap clock i prev_rx prev_tx r rule: obs_turns.raw_induct [rotated, consumes 1, case_names step])
  case (step loop tag stop snap clock i prev_rx prev_tx r)
  show ?case
  proof (cases "stop i \<or> sum_percpu (snap i) IDX_RX = None \<or> sum_percpu (snap i) IDX_TX = None")
    case False
    then obtain rx tx r' where "loop tag stop snap clock (Suc i) rx tx = Some r'"
      using step.hyps by (auto simp: bind_eq_Some_conv split: option.splits)
    from step.IH [OF this] show ?thesis by (meson Suc_leD)
  qed blast
qed

lemma obs_turns_stops:
  "stop n \<or> sum_percpu (snap n) IDX_RX = None \<or> sum_percpu (snap n) IDX_TX = None \<Longrightarrow> i \<le> n \<Longrightarrow>
     obs_turns tag stop snap clock i prev_rx prev_tx \<noteq> None"
proof (induction "n - i" arbitrary: i prev_rx prev_tx)
  case 0
  then show ?case by (subst obs_turns.simps) (auto split: prod.split option.split)
next
  case (Suc k)
  show ?case
  proof (cases "stop i \<or> sum_percpu (snap i) IDX_RX = None \<or> sum_percpu (snap i) IDX_TX = None")
    case True
    then show ?thesis by (subst obs_turns.simps) (auto split: prod.split option.split)
  next
    case False
    then obtain rx tx where s: "sum_percpu (snap i) IDX_RX = Some rx" "sum_percpu (snap i) IDX_TX = Some tx"
      by (cases "sum_percpu (snap i) IDX_RX"; cases "sum_percpu (snap i) IDX_TX") simp_all
    have "obs_turns tag stop snap clock (Suc i) rx tx \<noteq> None"
      by (rule Suc.hyps(1)) (use Suc.hyps(2) Suc.prems in simp_all)
    then show ?thesis using False s by (subst obs_turns.simps) auto
  qed
qed

text \<open>
  C36: the tools report what the gateway moved. Let the probes run on any CPUs, and let every
  reading of the counters during turn \<open>i\<close> see the calls made so far. When the loop is stopped after
  \<open>n\<close> turns, it has printed for every turn the number of packets the probed calls returned so far,
  and the difference to the turn before, and it ends with a summary of the packets and of the
  calls that moved any; all numbers modulo \<open>2\<^sup>6\<^sup>4\<close>. Calls that returned nothing or an error are not
  counted, and the average is over at least one second.
\<close>

theorem observer_reports_calls:
  assumes "\<forall>i \<le> n. \<forall>(cpu, q, ret) \<in> set (evs i). cpu < ncpus"
    and "\<forall>i \<le> n. reads_counts (snap i) (fold probed (evs i) (no_counts ncpus))"
    and "stop n" "\<forall>j < n. \<not> stop j"
    and "rx = (\<lambda>i. word_of_int (returned_packets RxRet (evs i)))" "tx = (\<lambda>i. word_of_int (returned_packets TxRet (evs i)))"
    and "secs = (if clock n \<le> 0 then 1 else clock n)"
  shows "observe_loop tag stop snap clock = Some (0, Attached tag #
    map (\<lambda>j. Stats tag (rx j) (tx j) (per_turn rx j) (per_turn tx j)) [0..<n] @
    [Summary tag secs (rx n) (tx n) (rx n div word_of_int secs) (tx n div word_of_int secs)
       (word_of_nat (busy_calls RxRet (evs n))) (word_of_nat (busy_calls TxRet (evs n)))])"
proof -
  have sums: "sum_percpu (snap i) IDX_RX = Some (rx i) \<and> sum_percpu (snap i) IDX_TX = Some (tx i) \<and>
      sum_percpu (snap i) IDX_RX_CALLS = Some (word_of_nat (busy_calls RxRet (evs i))) \<and>
      sum_percpu (snap i) IDX_TX_CALLS = Some (word_of_nat (busy_calls TxRet (evs i)))" if "i \<le> n" for i
  proof -
    have r: "reads_counts (snap i) (fold probed (evs i) (no_counts ncpus))" using assms(2) that by blast
    show ?thesis
      using probes_total [OF _ no_counts_ok(1), of "evs i" ncpus] assms(1,5,6) that
      by (simp add: sum_percpu_total [OF r] no_counts_ok(2))
  qed
  have "obs_final tag (snap n) (clock n) = (0, Summary tag secs (rx n) (tx n) (rx n div word_of_int secs) (tx n div word_of_int secs)
       (word_of_nat (busy_calls RxRet (evs n))) (word_of_nat (busy_calls TxRet (evs n))))"
    using sums [of n] assms(7) by (simp add: obs_final_def Let_def)
  moreover have "obs_turns tag stop snap clock 0 0 0 = Some (fst (obs_final tag (snap n) (clock n)),
      map (\<lambda>j. Stats tag (rx j) (tx j) (per_turn rx j) (per_turn tx j)) [0..<n] @ [snd (obs_final tag (snap n) (clock n))])"
    by (rule obs_turns_lines) (use assms(3,4) sums in simp_all)
  ultimately show ?thesis by (simp add: observe_loop_def)
qed

definition ex_evs :: "nat \<Rightarrow> probe_event list" where
  "ex_evs i = take (2 * i) [(0, RxRet, 32), (1, TxRet, 30), (0, RxRet, 0), (1, RxRet, 2)]"

definition ex_snap :: "nat \<Rightarrow> bpf_os" where
  "ex_snap i = \<lparr>bo_ncpus = 2, bo_calloc = True,
     bo_lookup = (\<lambda>idx. Some (map (\<lambda>row. row ! unat idx) (fold probed (ex_evs i) (no_counts 2))))\<rparr>"

theorem observer_reports_calls_witness:
  "observe_loop ''rtc'' (\<lambda>i. i = 2) ex_snap (\<lambda>_. 2) = Some (0,
     [Attached ''rtc'', Stats ''rtc'' 0 0 0 0, Stats ''rtc'' 32 30 32 30, Summary ''rtc'' 2 34 30 17 15 2 1])"
proof -
  have "set (ex_evs i) \<subseteq> {(0, RxRet, 32), (1, TxRet, 30), (0, RxRet, 0), (1, RxRet, 2)}" for i
    using set_take_subset [of "2 * i" "[(0, RxRet, 32), (1, TxRet, 30), (0, RxRet, 0), (1, RxRet, 2)] :: probe_event list"]
    unfolding ex_evs_def by simp
  then have cpu: "\<forall>(cpu, q, ret) \<in> set (ex_evs i). cpu < 2" for i
    by fastforce
  then have cpus: "\<forall>i \<le> 2. \<forall>(cpu, q, ret) \<in> set (ex_evs i). cpu < 2" by blast
  have ok: "counts_ok 2 (fold probed (ex_evs i) (no_counts 2))" for i
    using probes_total [OF cpu no_counts_ok(1)] by blast
  have reads: "\<forall>i \<le> 2. reads_counts (ex_snap i) (fold probed (ex_evs i) (no_counts 2))"
  proof (intro allI impI)
    fix i :: nat
    have "length (fold probed (ex_evs i) (no_counts 2)) = 2" using ok [of i] by (simp add: counts_ok_def)
    then show "reads_counts (ex_snap i) (fold probed (ex_evs i) (no_counts 2))"
      by (auto simp: reads_counts_def ex_snap_def)
  qed
  have ev: "ex_evs 0 = []" "ex_evs (Suc 0) = [(0, RxRet, 32), (1, TxRet, 30)]"
    "ex_evs 2 = [(0, RxRet, 32), (1, TxRet, 30), (0, RxRet, 0), (1, RxRet, 2)]"
    by (simp_all add: ex_evs_def)
  have turns: "[0..<2] = [0, Suc 0]"
    by (simp add: upt_rec)
  show ?thesis
    using observer_reports_calls [OF cpus reads, of "\<lambda>i. i = 2" "\<lambda>i. word_of_int (returned_packets RxRet (ex_evs i))"
        "\<lambda>i. word_of_int (returned_packets TxRet (ex_evs i))" 2 "\<lambda>_. 2" "''rtc''"]
    by (simp add: turns ev returned_packets_def busy_calls_def per_turn_def)
qed

text \<open>
  C37: the reporting loop ends exactly when a signal has set the flag or a reading of the counters
  fails; otherwise it reports forever.
\<close>

theorem observer_ends_iff:
  "(\<exists>r. observe_loop tag stop snap clock = Some r) \<longleftrightarrow>
     (\<exists>n. stop n \<or> sum_percpu (snap n) IDX_RX = None \<or> sum_percpu (snap n) IDX_TX = None)"
proof
  assume "\<exists>r. observe_loop tag stop snap clock = Some r"
  then obtain r where "obs_turns tag stop snap clock 0 0 0 = Some r"
    by (auto simp: observe_loop_def bind_eq_Some_conv)
  from obs_turns_ends [OF this] show "\<exists>n. stop n \<or> sum_percpu (snap n) IDX_RX = None \<or> sum_percpu (snap n) IDX_TX = None"
    by blast
next
  assume "\<exists>n. stop n \<or> sum_percpu (snap n) IDX_RX = None \<or> sum_percpu (snap n) IDX_TX = None"
  then obtain n where "stop n \<or> sum_percpu (snap n) IDX_RX = None \<or> sum_percpu (snap n) IDX_TX = None" by blast
  from obs_turns_stops [of stop n snap 0 tag clock 0 0] this show "\<exists>r. observe_loop tag stop snap clock = Some r"
    by (auto simp: observe_loop_def)
qed

section \<open>The programs\<close>

text \<open>
  \<open>getopt\<close> with the options \<open>b:p:h\<close>, as the C library has it: options may be joined, an option with
  an argument takes the rest of its word or the next word, other words are passed over, and \<open>--\<close> ends
  the options. An unknown option and a missing argument give a question mark.
\<close>

fun getopt_words :: "string list \<Rightarrow> (char \<times> string) list" and getopt_chars :: "string \<Rightarrow> string list \<Rightarrow> (char \<times> string) list" where
  "getopt_words [] = []"
| "getopt_words (w # ws) =
     (if w = ''--'' then []
      else if 2 \<le> length w \<and> hd w = CHR ''-'' then getopt_chars (tl w) ws
      else getopt_words ws)"
| "getopt_chars [] ws = getopt_words ws"
| "getopt_chars (c # cs) ws =
     (if c = CHR ''b'' \<or> c = CHR ''p'' then
        (if cs \<noteq> [] then (c, cs) # getopt_words ws
         else case ws of [] \<Rightarrow> [(CHR ''?'', [])] | a # ws' \<Rightarrow> (c, a) # getopt_words ws')
      else if c = CHR ''h'' then (c, []) # getopt_chars cs ws
      else (CHR ''?'', []) # getopt_chars cs ws)"

text \<open>\<open>atoi\<close>; a number that does not fit an \<open>int\<close> is undefined.\<close>

definition atoi :: "string \<Rightarrow> int option" where
  "atoi s =
     (let s1 = dropWhile isspace s;
          signed = (s1 \<noteq> [] \<and> (hd s1 = CHR ''-'' \<or> hd s1 = CHR ''+''));
          s2 = (if signed then tl s1 else s1);
          v = int (dec_value (takeWhile is_digit s2));
          n = (if signed \<and> hd s1 = CHR ''-'' then - v else v)
      in if - (2 ^ 31) \<le> n \<and> n < 2 ^ 31 then Some n else None)"

text \<open>The options: \<open>Inl\<close> is an early return with an exit code, after the usage text.\<close>

fun io_options :: "(char \<times> string) list \<Rightarrow> string \<Rightarrow> int \<Rightarrow> (int + string \<times> int) option" where
  "io_options [] binary pid = Some (Inr (binary, pid))"
| "io_options ((c, arg) # opts) binary pid =
     (if c = CHR ''b'' then io_options opts arg pid
      else if c = CHR ''p'' then do { n \<leftarrow> atoi arg; io_options opts binary n }
      else Some (Inl (if c = CHR ''h'' then 0 else 1)))"

datatype bpf_call = SkelOpen | SkelLoad | AttachUretprobe string int string | ObserveLoop string | SkelDestroy

record io_os =
  io_access :: "string \<Rightarrow> bool"
  io_open :: bool
  io_load :: int
  io_attach :: "string \<Rightarrow> bool"
  io_stop :: "nat \<Rightarrow> bool"
  io_snap :: "nat \<Rightarrow> bpf_os"
  io_clock :: "nat \<Rightarrow> int"

text \<open>What both programs do; they differ in the probed functions and the tag.\<close>

definition io_main :: "string \<Rightarrow> string \<Rightarrow> string \<Rightarrow> io_os \<Rightarrow> string list \<Rightarrow> (int \<times> bpf_call list) option" where
  "io_main rx_sym tx_sym tag os args = do {
     r \<leftarrow> io_options (getopt_words args) ''build/bin/Src/vgw'' (- 1);
     case r of
       Inl rc \<Rightarrow> Some (rc, [])
     | Inr (binary, pid) \<Rightarrow>
         if \<not> io_access os binary then Some (1, [])
         else if \<not> io_open os then Some (1, [SkelOpen])
         else if io_load os \<noteq> 0 then Some (1, [SkelOpen, SkelLoad, SkelDestroy])
         else if \<not> io_attach os rx_sym
           then Some (1, [SkelOpen, SkelLoad, AttachUretprobe rx_sym pid binary, SkelDestroy])
         else if \<not> io_attach os tx_sym
           then Some (1, [SkelOpen, SkelLoad, AttachUretprobe rx_sym pid binary, AttachUretprobe tx_sym pid binary, SkelDestroy])
         else do {
           (err, lines) \<leftarrow> observe_loop tag (io_stop os) (io_snap os) (io_clock os);
           Some (err, [SkelOpen, SkelLoad, AttachUretprobe rx_sym pid binary, AttachUretprobe tx_sym pid binary,
             ObserveLoop tag, SkelDestroy])
         }
   }"

definition SYM_RX :: string where "SYM_RX = ''_ZN3vgw4dpdk8rx_burstEttPP8rte_mbuft''"
definition SYM_TX :: string where "SYM_TX = ''_ZN3vgw4dpdk8tx_burstEttPP8rte_mbuft''"
definition SYM_RECV :: string where "SYM_RECV = ''_ZN3vgw9DpdkNetif10recv_burstEPP8rte_mbufj''"
definition SYM_SEND :: string where "SYM_SEND = ''_ZN3vgw9DpdkNetif10send_burstEPP8rte_mbufj''"

definition pipeline_io_main :: "io_os \<Rightarrow> string list \<Rightarrow> (int \<times> bpf_call list) option" where
  "pipeline_io_main = io_main SYM_RX SYM_TX ''pipeline''"

definition rtc_io_main :: "io_os \<Rightarrow> string list \<Rightarrow> (int \<times> bpf_call list) option" where
  "rtc_io_main = io_main SYM_RECV SYM_SEND ''rtc''"

text \<open>
  What a run must leave: the skeleton, once opened, is destroyed exactly once, as the last call;
  the loop runs only with the program loaded and both probes attached; the exit code is 0 only for
  the help option or when the loop ended well.
\<close>

definition clean_run :: "string \<Rightarrow> string \<Rightarrow> string \<Rightarrow> io_os \<Rightarrow> string list \<Rightarrow> int \<Rightarrow> bpf_call list \<Rightarrow> bool" where
  "clean_run rx_sym tx_sym tag os args rc calls \<longleftrightarrow>
     count_list calls SkelDestroy = (if SkelOpen \<in> set calls \<and> io_open os then 1 else 0) \<and>
     (SkelDestroy \<in> set calls \<longrightarrow> last calls = SkelDestroy) \<and>
     (ObserveLoop tag \<in> set calls \<longrightarrow> io_load os = 0 \<and> io_attach os rx_sym \<and> io_attach os tx_sym \<and>
        (\<exists>pid binary. AttachUretprobe rx_sym pid binary \<in> set calls \<and> AttachUretprobe tx_sym pid binary \<in> set calls)) \<and>
     (rc = 0 \<longrightarrow> calls = [] \<and> (CHR ''h'', []) \<in> set (getopt_words args) \<or>
        ObserveLoop tag \<in> set calls \<and>
          (\<exists>lines. observe_loop tag (io_stop os) (io_snap os) (io_clock os) = Some (0, lines)))"

lemma io_options_zero: "io_options opts binary pid = Some (Inl 0) \<Longrightarrow> \<exists>arg. (CHR ''h'', arg) \<in> set opts"
  by (induction opts binary pid rule: io_options.induct) (auto simp: bind_eq_Some_conv split: if_splits)

lemma getopt_help: "(CHR ''h'', arg) \<in> set (getopt_words ws) \<Longrightarrow> arg = []"
  "(CHR ''h'', arg) \<in> set (getopt_chars cs ws) \<Longrightarrow> arg = []"
  by (induction ws and cs ws rule: getopt_words_getopt_chars.induct) (auto split: if_splits list.splits)

lemma io_main_clean:
  assumes "io_main rx_sym tx_sym tag os args = Some (rc, calls)"
  shows "clean_run rx_sym tx_sym tag os args rc calls"
proof -
  obtain r where r: "io_options (getopt_words args) ''build/bin/Src/vgw'' (- 1) = Some r"
    using assms by (auto simp: io_main_def bind_eq_Some_conv)
  show ?thesis
  proof (cases r)
    case (Inl c)
    then have "rc = c" "calls = []" using assms r by (simp_all add: io_main_def)
    then show ?thesis
      using io_options_zero [of "getopt_words args"] r Inl getopt_help(1) by (auto simp: clean_run_def)
  next
    case (Inr bp)
    obtain binary pid where "bp = (binary, pid)" by fastforce
    then show ?thesis
      using assms r Inr by (auto simp: io_main_def clean_run_def bind_eq_Some_conv intro!: exI [of _ pid] exI [of _ binary] split: if_splits)
  qed
qed

text \<open>
  C38: the tools release what they acquire. On every path of either program, whatever the system
  calls answer, the opened skeleton (with its attached probes) is destroyed exactly once and last,
  the loop runs only with both probes attached, and exit code 0 means help or a loop that ended
  well.
\<close>

theorem tools_release_probes:
  assumes "pipeline_io_main os args = Some (rc, calls)" "rtc_io_main os args' = Some (rc', calls')"
  shows "clean_run SYM_RX SYM_TX ''pipeline'' os args rc calls \<and> clean_run SYM_RECV SYM_SEND ''rtc'' os args' rc' calls'"
  using io_main_clean [OF assms(1) [unfolded pipeline_io_main_def]] io_main_clean [OF assms(2) [unfolded rtc_io_main_def]] ..

definition ex_io :: io_os where
  "ex_io = \<lparr>io_access = (\<lambda>_. True), io_open = True, io_load = 0, io_attach = (\<lambda>_. True),
     io_stop = (\<lambda>_. True), io_snap = (\<lambda>_. \<lparr>bo_ncpus = 1, bo_calloc = True, bo_lookup = (\<lambda>_. Some [0])\<rparr>), io_clock = (\<lambda>_. 0)\<rparr>"

lemma ex_io_loop: "\<exists>lines. observe_loop tag (io_stop ex_io) (io_snap ex_io) (io_clock ex_io) = Some (0, lines)"
  by (simp add: observe_loop_def obs_turns.simps obs_final_def sum_percpu_def ex_io_def)

theorem tools_release_probes_witness:
  "\<exists>calls calls'. pipeline_io_main ex_io [''-p'', ''42''] = Some (0, calls) \<and> last calls = SkelDestroy \<and>
     rtc_io_main ex_io [''-bvgw''] = Some (0, calls') \<and> clean_run SYM_RECV SYM_SEND ''rtc'' ex_io [''-bvgw''] 0 calls'"
proof -
  have opts: "io_options (getopt_words [''-p'', ''42'']) b p = Some (Inr (b, 42))" "io_options (getopt_words [''-bvgw'']) b p = Some (Inr (''vgw'', p))" for b p
    by (simp_all add: atoi_def is_digit_def dec_value_def isspace_def)
  have r: "\<exists>calls. pipeline_io_main ex_io [''-p'', ''42''] = Some (0, calls) \<and> last calls = SkelDestroy"
    "\<exists>calls'. rtc_io_main ex_io [''-bvgw''] = Some (0, calls')"
    using ex_io_loop [of "''pipeline''"] ex_io_loop [of "''rtc''"]
    unfolding pipeline_io_main_def rtc_io_main_def io_main_def opts by (auto simp: ex_io_def)
  then show ?thesis using tools_release_probes by blast
qed

lemma atoi_to_string:
  assumes "0 \<le> n" "n < 2 ^ 31"
  shows "atoi (to_string n) = Some n"
proof -
  obtain c cs where cs: "dec_string (nat n) = c # cs" "is_digit c"
    using dec_string_digits [of "nat n"] by (cases "dec_string (nat n)") auto
  have "takeWhile is_digit (dec_string (nat n)) = dec_string (nat n)"
    using dec_string_digits [of "nat n"] by (simp add: takeWhile_eq_all_conv)
  then show ?thesis
    using isspace_digit [OF cs(2)] assms cs(1) dec_value_string [of "nat n"] by (simp add: atoi_def to_string_def Let_def)
qed

end
