(* ===== verification/Verify_Apply.thy ===== *)
theory Verify_Apply
  imports CpShm
begin

text \<open>
  The manual check \<open>src/tools/verify_vgwcp_apply.cpp\<close>: it attaches the control-plane segment that
  another process published and applies it to an empty table. The system calls and what the loads
  of the poll find are parameters, as in \<open>CpShm\<close>; the object that owns the mapping is destroyed on
  return.
\<close>

definition verify_name :: "string list \<Rightarrow> string" where
  "verify_name args = (case args of [] \<Rightarrow> ''/vgw_cp_verify'' | name # _ \<Rightarrow> name)"

definition verify_main ::
    "os_results \<Rightarrow> (vgw_cp_shm \<Rightarrow> nat \<Rightarrow> vgw_cp_shm) \<Rightarrow> string list \<Rightarrow> int \<times> os_call list" where
  "verify_main os seen args =
     (case cpshm_open os (verify_name args) False None of
        (None, calls) \<Rightarrow> (1, calls)
      | (Some (shm, hdr), calls) \<Rightarrow>
          (case poll_apply (Some (seen hdr)) (sh_last_applied shm) (Some upstream_table) of
             (applied, ver, table) \<Rightarrow>
               (if \<not> applied then 1 else if ut_size (the table) > 0 then 0 else 1,
                calls @ cpshm_destroy shm)))"

text \<open>Calls that would create, size or remove a segment.\<close>

definition harmless :: "os_call list \<Rightarrow> bool" where
  "harmless calls \<longleftrightarrow> (\<forall>c \<in> set calls. (case c of OsShmOpen _ new \<Rightarrow> \<not> new | OsFtruncate _ \<Rightarrow> False
     | OsShmUnlink _ \<Rightarrow> False | _ \<Rightarrow> True))"

text \<open>
  The check answers 0 exactly when the segment exists, carries the magic number, was published
  and lists at least one endpoint; it never creates, resizes or removes a segment, and it closes
  what it opened.
\<close>

theorem verify_main_exact:
  "(fst (verify_main os (\<lambda>h _. h) args) = 0 \<longleftrightarrow> os_open_fd os \<ge> 0 \<and>
      (\<exists>h. os_map os = Some h \<and> cs_magic h = VGW_CP_SHM_MAGIC \<and> cs_version h \<noteq> 0 \<and> cs_count h \<noteq> 0)) \<and>
   harmless (snd (verify_main os seen args)) \<and>
   closed_fds (snd (verify_main os seen args)) = (if os_open_fd os \<ge> 0 then [os_open_fd os] else [])"
proof (intro conjI)
  have n: "0 < unat (if cs_count h > 64 then 64 else cs_count h) \<longleftrightarrow> cs_count h \<noteq> 0" for h :: vgw_cp_shm
    by (auto simp: unat_gt_0)
  show "fst (verify_main os (\<lambda>h _. h) args) = 0 \<longleftrightarrow> os_open_fd os \<ge> 0 \<and>
      (\<exists>h. os_map os = Some h \<and> cs_magic h = VGW_CP_SHM_MAGIC \<and> cs_version h \<noteq> 0 \<and> cs_count h \<noteq> 0)"
    using n by (auto simp: verify_main_def cpshm_open_def poll_apply_def Let_def ut_size_def ut_set_def set_policy_def
        split: option.splits)
  show "harmless (snd (verify_main os seen args))"
    by (auto simp: verify_main_def cpshm_open_def cpshm_destroy_def harmless_def Let_def split: option.splits prod.splits)
  show "closed_fds (snd (verify_main os seen args)) = (if os_open_fd os \<ge> 0 then [os_open_fd os] else [])"
    by (auto simp: verify_main_def cpshm_open_def cpshm_destroy_def closed_fds_def Let_def split: option.splits prod.splits)
qed

end
