(* ===== verification/Spec2Isabelle.thy ===== *)
theory Spec2Isabelle
  imports System Round_Trip Util_Runtime Io_Trace Observe Verify_Apply
begin

text \<open>
  VioletGW, a UDP layer-4 gateway on DPDK: a verification development.

  \<^bold>\<open>The program.\<close> A client sends UDP datagrams to a virtual address and port. The gateway looks the
  flow up in its session table or creates a session for an upstream server chosen by a balance
  policy, rewrites source and destination (the source becomes the gateway's address and a port of
  a pool), and sends the datagram on; replies to the translated source find the session again and
  are rewritten back. The next hop's hardware address comes from a neighbor table filled by ARP
  and by passive learning; a packet whose next hop is unknown waits in a queue while the gateway
  probes. A control plane publishes the list of upstreams and the policy in a POSIX shared memory
  segment that the worker polls. Packets come from and go to a DPDK port either directly
  (run-to-completion) or through two rings served by I/O cores (pipeline). Two small programs count
  the packets of a running gateway with kernel probes, and a third checks a published segment.

  \<^bold>\<open>Theories, in the order of the imports, and the code they model\<close> (paths under \<open>src/src/\<close> unless they
  begin with \<open>src/\<close>):
  \<^item> \<open>Vgw_Prelude\<close>: machine integers as words, checked little-endian memory, byte order, generic
    lemmas; \<open>history\<close>, the runs of a step relation over the list of their labels; the locales
    \<open>kept_invariant\<close> (a step relation and a predicate it keeps) and \<open>simulation\<close> (which extends it
    to labelled steps, each of which shows as some events of a specification, and lifts the
    refinement to whole histories).
  \<^item> \<open>Dpdk_Types\<close>: hardware addresses, message buffers, the wire layout of Ethernet, IPv4, UDP and
    ARP; the calls of the checksum routines of DPDK, with the reads of the buffer they make.
  \<^item> \<open>Neighbor\<close> (\<open>neighbor.{hpp,cpp}\<close>): the cache from IPv4 to hardware addresses; its contract
    towards the forwarder is the locale \<open>neighbor_cache\<close>.
  \<^item> \<open>Packet\<close> (\<open>packet.{hpp,cpp}\<close>): parsing of ARP and UDP frames, passive learning, checksum
    refresh. A packet view holds offsets into the buffer, which is passed beside it.
  \<^item> \<open>Session\<close> (\<open>session.{hpp,cpp}\<close>): sessions on a heap, two indexes over them, the port pool with
    its free list and scan, expiry; the locale \<open>session_nat\<close> states what the forwarder relies on,
    and an abstract map from flows to translations is the specification it refines, event by event
    (\<open>st_does\<close> labels what is done to the table, \<open>nat_step\<close> says what each event does to the map).
  \<^item> \<open>Config\<close> (\<open>config.hpp\<close>), \<open>Upstream\<close> (\<open>upstream.{hpp,cpp}\<close>): the constants; upstream list,
    policies and the wrapping round-robin counter, with the locale \<open>upstream_picker\<close>.
  \<^item> \<open>CpShm\<close> (\<open>cp_shm.{hpp,cpp}\<close>, \<open>vgw_cp_shm.h\<close>): the shared segment. A publish is the list of its
    stores, a poll is a sequence of loads each of which may see any prefix of them; \<open>open\<close> records
    its system calls, whose results are parameters.
  \<^item> \<open>Forward\<close> (\<open>forward.{hpp,cpp}\<close>), \<open>Arp\<close> (\<open>arp.{hpp,cpp}\<close>): translation and address resolution,
    whole handlers with every early return.
  \<^item> \<open>Datapath\<close> (\<open>dpdk/datapath_config\<close>, \<open>dpdk/datapath_flags\<close>, \<open>dpdk/config.hpp\<close>): I/O modes,
    command line and flags.
  \<^item> \<open>Gateway\<close>, \<open>Gateway_Queue\<close>, \<open>Gateway_Sessions\<close> (\<open>vgw.h\<close>, \<open>vgw.cpp\<close>): services, dispatch, the
    queues of waiting packets and one turn of the worker loop over an abstract interface, as a step
    relation over the gateway's lifetime; what turns do to the session table and the upstreams. The
    locale \<open>packet_effect\<close> carries a relation between session tables from the handling of one packet
    to a whole turn. \<open>recording\<close> watches an interface: it adds the packets taken to its state.
  \<^item> \<open>Gateway_Nat\<close>: the abstract specification of the gateway, a map from flows to translations and
    the list of upstreams (the inductive relation \<open>gateway_spec\<close> over events: flows are opened towards
    a listed upstream, refused, refreshed and swept, upstreams are published). A turn has a label,
    what it was given (\<open>turn\<close>), and \<open>turn_shows\<close> says which events it stands for: the sweep that is
    due, the publication that its poll reads, and at most one event for each flow of its packets;
    every turn is a history of the specification with such events.
  \<^item> \<open>Util\<close>, \<open>Pkt_Filter\<close>, \<open>Pkt_Dump\<close> (\<open>base/util\<close>, \<open>base/pkt_filter\<close>, \<open>base/pkt_dump\<close>): text of
    addresses, the table-driven hash, frame filters and the dump of a frame. \<open>Util_Runtime\<close>: the
    functions of \<open>base/util\<close> that rest on the machine (clock text, random numbers, the library hash).
  \<^item> \<open>Netif\<close>, \<open>Netif_Manager\<close> (\<open>base/ring.hpp\<close>, \<open>dpdk/netif.{hpp,cpp}\<close>): rings, the port interface,
    the loops of the I/O cores, port start-up and the manager of the interfaces. \<open>Netif_Lifetime\<close>
    (\<open>base/singleton.hpp\<close>): the destructors and the one instance of the manager.
  \<^item> \<open>Vgw_Log\<close> (\<open>base/log.cpp\<close>): the set-up of logging, as data handed to the logging library.
    \<open>Vgw_Main\<close> (\<open>vgw.cpp\<close>, \<open>main.cpp\<close>): initialisation of the process and \<open>main\<close>.
  \<^item> \<open>Worker\<close> (\<open>vgw.cpp\<close>, \<open>dpdk/netif.cpp\<close>): the turn of the worker loop on the port interface itself,
    in both modes, with its send loop; in run-to-completion mode it is the turn of \<open>Gateway\<close> on the
    device. \<open>Round_Trip\<close>: a request and its reply through two turns.
  \<^item> \<open>Pipeline_Cores\<close> (\<open>vgw.cpp\<close>, \<open>dpdk/netif.cpp\<close>): the three cores of the pipeline mode as one
    transition system whose steps are single operations on a ring or the device. \<open>System\<close>: its runs,
    labelled with the turns of the worker, against \<open>gateway_spec\<close>, and the process that \<open>main\<close> starts
    as their first state.
  \<^item> \<open>Io_Trace\<close> (\<open>forward.cpp\<close>, \<open>vgw.cpp\<close>): the trace filters, and the text of
    addresses and modes in log messages.
  \<^item> \<open>Observe\<close> (\<open>src/tools/ebpf\<close>), \<open>Verify_Apply\<close> (\<open>src/tools/verify_vgwcp_apply.cpp\<close>): the tools.

  \<^bold>\<open>Conventions.\<close> A class is a record, an operation a function from the old to the new state. A
  function that touches memory through pointers lives in the option monad: \<open>None\<close> is undefined
  behaviour (an access outside an object, a dangling or null pointer), so a theorem that such a
  function returns \<open>Some\<close> is a memory-safety theorem. In \<open>Netif\<close> and \<open>Observe\<close>, where a loop may run
  forever, \<open>None\<close> of a \<open>partial_function\<close> is a loop that does not end. Ending the process through
  \<open>rte_exit\<close> is a value of \<open>exec\<close>. Integers keep their width; the loops over the port pool, the
  sessions, the burst and the link checks terminate by measures, and no fuel is used. Buffers are
  tracked by address, so that ownership can be counted.

  \<^bold>\<open>What the theorems show.\<close>
  \<^item> Translation: a datagram for the virtual service is dropped only when no session can be made and
    otherwise leaves with the right addresses, ports, checksums and payload; the reply reaches the
    client from the address it had used; other traffic changes nothing; all of it stays inside the
    buffer as long as checksums are neither verified nor recomputed, which is how the gateway is
    configured (\<open>gw_inv\<close> says so), or the packet the IPv4 header announces ends inside it
    (\<open>cksum_safe\<close>).
  \<^item> Sessions: both indexes, the heap and the port pool agree in every reachable state; creation
    fails exactly when the pool is exhausted; expiry removes exactly the idle sessions; what is done
    to the table is, event by event, a history of an abstract map.
  \<^item> Parsing, filters, dumps: exact characterisations of what is accepted, matched and printed, and
    round trips of address text.
  \<^item> Upstreams and control plane: fairness of round robin; a poll after a publish, and a poll that
    sees a new version in any interleaving, installs exactly what was published; opening the
    segment leaks nothing on failure.
  \<^item> Neighbors and ARP: entries live as configured; requests are answered; a probe and its answer
    resolve the address.
  \<^item> Worker: buffers are conserved over a turn, counted with what the device took; waiting packets leave in order when an ARP reply is
    handled; a sufficient bound under which a burst stays inside its arrays; no session outlives
    its timeout by more than the sweep interval; published upstreams take effect in the first turn
    that polls, before a packet is handled, and leave the sessions that exist alone.
  \<^item> Composition: in run-to-completion mode a client datagram goes from the device through the whole
    gateway to the device in one turn, and the upstream's answer in a later turn reaches the client
    at the address its request had taught the gateway; every sequence of turns is a history of the
    translator's specification, with the events of these turns; in pipeline mode, in every interleaving of the three cores,
    a buffer is in at most one place, none vanishes and the order of the packets is kept. The
    theorem of this theory composes these with \<open>main\<close>: what it starts in pipeline mode is such a
    translator, from the first step on.
  \<^item> Undefined behaviour of a turn: the steps of the cores and of the turns are those with defined
    behaviour, so a theorem about runs speaks of the states before a transmit array overflows.
    \<open>small_burst_safe\<close>, and the theorem of this theory for the running system, give a bound on the
    load under which the next turn is defined; \<open>release_overflows_tx\<close> shows that beyond it there are
    turns that are not.
  \<^item> I/O: sending in pipeline mode returns if the transmit core drains, the receive core splits a
    burst into queued and freed packets, the loops end exactly when stopped, start-up configures
    exactly the enabled ports and needs a link, a successful initialisation leaves a gateway that
    is ready to run; rings are freed exactly once.
  \<^item> Tools: the observers report exactly the packets and busy calls of the probed functions, end
    exactly when stopped or when the counters cannot be read, and detach on every path; the check
    of the segment accepts exactly a published one and changes nothing.
  \<^item> Deviations: where the code does not do what it is meant to, the theorem states what it does: the
    overflow of the transmit array after a release, the 16-bit wrap of a length check, the read of
    as many bytes as an unchecked header field announces when a checksum is verified, the torn
    read of a publish in progress, the lost buffer of a client without an address, packets not
    released by passive learning, a full burst that does not fit its ring, the second port that is
    never served, a hash table with wrong entries.

  \<^bold>\<open>Parameters.\<close> Code that is not part of the repository enters as arguments: the checksum routines
  (functions of the bytes they are documented to read: the header, and for UDP the announced total
  length; the reads themselves are checked reads of the model), the buffer allocator, the rings (with their documented behaviour as the hypothesis
  \<open>rte_ring_ok\<close>, which a list with a capacity satisfies), the device functions, the flag parser
  and the results of system calls.

  \<^bold>\<open>Steps of the cores.\<close> \<open>Pipeline_Cores\<close> assumes of the pool that a buffer is handed out only while
  it is free, and of the device that a received burst holds distinct free buffers; both are guards
  of the steps. The work of the worker between two ring operations touches no shared object but
  the control-plane segment, whose loads are parameters, so it belongs to one step.

  \<^bold>\<open>Not modelled.\<close> Log messages (\<open>Io_Trace\<close> has the filters that select them) and the usage
  texts; the memory model below whole loads and stores (the acquire and release of the version give the order
  of the stores that \<open>CpShm\<close> interleaves; the rings are atomic); the lines of the headers that only
  declare what the source files define; tests, scripts and the Go control plane.
\<close>

section \<open>The started gateway\<close>

text \<open>
  C1: what \<open>main\<close> starts is a translator. If \<open>main\<close> reaches the worker loop in pipeline mode, then
  the worker's port has an interface, and from there on, in every interleaving of the receive
  core, the worker and the transmit core, whatever the device delivers and the control plane
  writes: the invariant of the gateway holds, no buffer is in two places, packets are handled and
  sent in order. Every such run is a sequence of turns of the worker and of steps of the I/O cores;
  the turns have handled exactly the packets handled, and the flows and their translations went
  through the events of these turns, one after the other, as the specification with the configured
  address, timeout and port pool allows, starting from no flow. The run can go on with a turn of
  defined behaviour whenever the waiting packets plus twice the packets the worker would take fit
  the transmit array.
\<close>

theorem started_gateway_correct:
  assumes ring: "rte_ring_ok rf contents cap"
    and main: "vgw_main gflags df rf next_lcore lcore_id os seen argv0 args = Some (Done (WorkerLoop pr))"
    and mode: "dc_mode (gw_datapath (pr_gw pr)) = Pipeline"
  shows "\<exists>nf. get_netif (pr_manager pr) (uint (dc_worker_port (gw_datapath (pr_gw pr)))) = Some nf \<and>
    (\<forall>s. (sys_step ck alloc rf ef contents)\<^sup>*\<^sup>* (sys_start (pr_gw pr) t nf d pool) s \<longrightarrow>
       gw_inv (sy_gw s) \<and> (\<forall>a. count (owned contents s) a \<le> 1) \<and>
       subseq (sy_handled s) (sy_delivered s) \<and> subseq (sy_sent s) (sy_out s) \<and>
       (\<exists>ls. history (sys_does ck alloc rf ef contents) (sys_start (pr_gw pr) t nf d pool) ls s) \<and>
       (\<forall>ls. history (sys_does ck alloc rf ef contents) (sys_start (pr_gw pr) t nf d pool) ls s \<longrightarrow> turn_packets ls = sy_handled s \<and>
         (\<exists>evss. list_all2 step_shows ls evss \<and>
           history (gateway_spec (ipv4_from GATEWAY_IP_OCTETS) SESSION_IDLE_TIMEOUT_MS {q. 10000 \<le> q \<and> q < 60000})
             (Map.empty, ut_nodes (gw_upstreams (pr_gw pr))) (concat evss) (gw_abs (sy_gw s)))) \<and>
       (size (pend_addrs (gw_arp_pending (sy_gw s))) + 2 * length (take 32 (rx_queue contents s)) \<le> 33 \<longrightarrow>
         (\<forall>mem now. worker_poll ck alloc rf mem now s \<noteq> None)))"
proof -
  let ?t = "session_table (ipv4_from GATEWAY_IP_OCTETS) SESSION_IDLE_TIMEOUT_MS 10000 60000"
  obtain fr nf where p: "get_netif (pr_manager pr) (uint (dc_worker_port (gw_datapath (pr_gw pr)))) = Some nf"
    "netif_init rf (dc_worker_port (gw_datapath (pr_gw pr))) (gw_datapath (pr_gw pr)) dpdk_netif = Done (fr, nf)"
    "gw_inv (pr_gw pr)" "gw_arp_pending (pr_gw pr) = []" "gw_sessions (pr_gw pr) = Some ?t"
    using started_process [OF main] by metis
  let ?s0 = "sys_start (pr_gw pr) t nf d pool"
  have abs: "gw_abs (sy_gw ?s0) = (Map.empty, ut_nodes (gw_upstreams (pr_gw pr)))" "sy_handled ?s0 = []"
    using p(5) by (simp_all add: sys_start_def gw_abs_def sess_abs_def lookup_forward_def session_table_def fun_eq_iff)
  have params: "st_gateway_ip ?t = ipv4_from GATEWAY_IP_OCTETS" "st_idle_timeout_ms ?t = SESSION_IDLE_TIMEOUT_MS"
    "{q. in_pool ?t q} = {q. 10000 \<le> q \<and> q < 60000}"
    by (simp_all add: session_table_def in_pool_def)
  have start: "rte_ring_ok rf contents cap \<and> sys_inv contents ?s0 \<and>
      (\<exists>st. gw_sessions (sy_gw ?s0) = Some st \<and> same_config ?t st)"
    using ring reachable_inv [OF ring p(3,4) mode p(2) rtranclp.rtrancl_refl] p(5) by (simp add: sys_start_def same_config_def)
  have spec: "turn_packets ls = sy_handled s \<and> (\<exists>evss. list_all2 step_shows ls evss \<and>
      history (gateway_spec (ipv4_from GATEWAY_IP_OCTETS) SESSION_IDLE_TIMEOUT_MS {q. 10000 \<le> q \<and> q < 60000})
        (Map.empty, ut_nodes (gw_upstreams (pr_gw pr))) (concat evss) (gw_abs (sy_gw s)))"
    if "history (sys_does ck alloc rf ef contents) ?s0 ls s" for ls s
    using sys_sim.run_simulated [OF that start] does_handled [OF that] unfolding abs params by simp
  have "gw_inv (sy_gw s) \<and> (\<forall>a. count (owned contents s) a \<le> 1) \<and> subseq (sy_handled s) (sy_delivered s) \<and> subseq (sy_sent s) (sy_out s) \<and>
      (\<exists>ls. history (sys_does ck alloc rf ef contents) ?s0 ls s) \<and>
      (size (pend_addrs (gw_arp_pending (sy_gw s))) + 2 * length (take 32 (rx_queue contents s)) \<le> 33 \<longrightarrow>
        (\<forall>mem now. worker_poll ck alloc rf mem now s \<noteq> None))"
    if run: "(sys_step ck alloc rf ef contents)\<^sup>*\<^sup>* ?s0 s" for s
  proof -
    note inv = reachable_inv [OF ring p(3,4) mode p(2) run]
    have "gw_inv (sy_gw s)" "\<forall>a. count (owned contents s) a \<le> 1" using inv by (simp_all add: sys_inv_def sys_ok_def no_sharing_def)
    then show ?thesis
      using run_does [OF run ring] start worker_poll_defined [OF ring inv] sys_inv_order [OF inv] by blast
  qed
  with p(1) spec show ?thesis by blast
qed

text \<open>With the default flags the first packet is received, queued and handled at time 5000, when a sweep is due.\<close>

theorem started_gateway_correct_witness:
  "\<exists>pr s evss. vgw_main (\<lambda>argv flags. Some flags) ex_dev (list_ring :: (nat \<times> rte_mbuf list, rte_mbuf) ring_fns) Suc 0 ex_os (\<lambda>h _. h)
      ''vgw'' [] = Some (Done (WorkerLoop pr)) \<and>
     history (sys_does ex_cksum (\<lambda>p. (None, p)) list_ring ex_eth snd) (sys_start (pr_gw pr) ex_timers ex_nf0 [ex_request] ())
       [None, None, Some (turn_of (\<lambda>_. ex_segment) 5000 [ex_request] ex_timers (pr_gw pr))] s \<and>
     sy_handled s = [ex_request] \<and> (\<forall>a. count (owned snd s) a \<le> 1) \<and>
     list_all2 step_shows [None, None, Some (turn_of (\<lambda>_. ex_segment) 5000 [ex_request] ex_timers (pr_gw pr))] evss \<and>
     history (gateway_spec (ipv4_from GATEWAY_IP_OCTETS) SESSION_IDLE_TIMEOUT_MS {q. 10000 \<le> q \<and> q < 60000})
       (Map.empty, ut_nodes (gw_upstreams (pr_gw pr))) (concat evss) (gw_abs (sy_gw s))"
proof -
  obtain pr where main: "vgw_main (\<lambda>argv flags. Some flags) ex_dev (list_ring :: (nat \<times> rte_mbuf list, rte_mbuf) ring_fns) Suc 0 ex_os
      (\<lambda>h _. h) ''vgw'' [] = Some (Done (WorkerLoop pr))" "gw_datapath (pr_gw pr) = datapath_config_defaults"
    using ex_main by blast
  obtain fr nf where p: "get_netif (pr_manager pr) (uint (dc_worker_port (gw_datapath (pr_gw pr)))) = Some nf"
    "netif_init list_ring (dc_worker_port (gw_datapath (pr_gw pr))) (gw_datapath (pr_gw pr)) dpdk_netif = Done (fr, nf)"
    "gw_inv (pr_gw pr)" "gw_arp_pending (pr_gw pr) = []"
    using started_process [OF main(1)] by metis
  have "dc_worker_port datapath_config_defaults = 0" by (simp add: datapath_config_defaults_def datapath_config_def)
  then have nf: "nf = ex_nf0" using p(2) ex_nf0_init unfolding main(2) by simp
  obtain s where s: "history (sys_does ex_cksum (\<lambda>p. (None, p)) list_ring ex_eth snd) (sys_start (pr_gw pr) ex_timers ex_nf0 [ex_request] ())
      [None, None, Some (turn_of (\<lambda>_. ex_segment) 5000 [ex_request] ex_timers (pr_gw pr))] s" "sy_handled s = [ex_request]"
    using first_turn [OF p(3,4)] by metis
  have run: "(sys_step ex_cksum (\<lambda>p. (None, p)) list_ring ex_eth snd)\<^sup>*\<^sup>* (sys_start (pr_gw pr) ex_timers ex_nf0 [ex_request] ()) s"
    by (rule does_run [OF s(1)])
  have mode: "dc_mode (gw_datapath (pr_gw pr)) = Pipeline" unfolding main(2) by (rule datapath_defaults_mode)
  show ?thesis
    using started_gateway_correct [OF list_ring_ok main(1) mode, of ex_cksum "\<lambda>p. (None, p)" ex_eth ex_timers "[ex_request]" "()"]
      main(1) s run p(1) nf by fastforce
qed

end
